(* ===== verification/Prelude.thy ===== *)
theory Prelude
  imports Main "HOL-Library.Finite_Map" "HOL-Library.Sublist"
begin

text \<open>
  Shared vocabulary of the development: the result type of fallible Go
  functions, Go maps with their zero value on a missing key, and the generic
  facts on lists and finite maps that the component theories use.  Go maps
  that are ranged over or counted are finite maps (\<^typ>\<open>('k, 'v) fmap\<close>);
  \<open>goget\<close> reads one the way \<open>m[k]\<close> does.
\<close>

named_theorems status_simps \<open>case distinctions on run and node statuses\<close>
named_theorems node_simps \<open>reading back what a node operation wrote\<close>
named_theorems plan_simps \<open>reading back what a plan operation wrote\<close>

type_synonym ('e, 'a) result = "'e + 'a"

abbreviation Err :: "'e \<Rightarrow> ('e, 'a) result" where
  "Err \<equiv> Inl"

abbreviation Ok :: "'a \<Rightarrow> ('e, 'a) result" where
  "Ok \<equiv> Inr"

fun result_bind :: "('e, 'a) result \<Rightarrow> ('a \<Rightarrow> ('e, 'b) result) \<Rightarrow> ('e, 'b) result" where
  "result_bind (Inl e) f = Inl e"
| "result_bind (Inr a) f = f a"

lemma result_bind_eq_Ok:
  "result_bind r f = Inr b \<longleftrightarrow> (\<exists>a. r = Inr a \<and> f a = Inr b)"
  by (cases r) auto

lemma result_bind_eq_Err:
  "result_bind r f = Inl e \<longleftrightarrow> r = Inl e \<or> (\<exists>a. r = Inr a \<and> f a = Inl e)"
  by (cases r) auto

text \<open>Reading a Go map: the zero value \<open>z\<close> when the key is missing.\<close>

definition goget :: "'v \<Rightarrow> ('k, 'v) fmap \<Rightarrow> 'k \<Rightarrow> 'v" where
  "goget z m k = (case fmlookup m k of None \<Rightarrow> z | Some v \<Rightarrow> v)"

lemma goget_upd [simp]:
  "goget z (fmupd k v m) k' = (if k' = k then v else goget z m k')"
  by (simp add: goget_def)

lemma goget_empty [simp]: "goget z fmempty k = z"
  by (simp add: goget_def)

lemma goget_map: "goget (f z) (fmmap f m) k = f (goget z m k)"
  by (simp add: goget_def split: option.splits)

lemma goget_notin: "k |\<notin>| fmdom m \<Longrightarrow> goget z m k = z"
  by (simp add: goget_def fmdom_notD)

text \<open>Characters and strings.  Go strings are byte strings; a character is a byte.\<close>

definition isLetter :: "char \<Rightarrow> bool" where
  "isLetter c \<longleftrightarrow> (let n = (of_char c :: nat) in (65 \<le> n \<and> n \<le> 90) \<or> (97 \<le> n \<and> n \<le> 122))"

definition isDigit :: "char \<Rightarrow> bool" where
  "isDigit c \<longleftrightarrow> 48 \<le> (of_char c :: nat) \<and> (of_char c :: nat) \<le> 57"

definition hasPrefix :: "string \<Rightarrow> string \<Rightarrow> bool" where
  "hasPrefix p s \<longleftrightarrow> take (length p) s = p"

fun containsStr :: "string \<Rightarrow> string \<Rightarrow> bool" where
  "containsStr p [] = (p = [])"
| "containsStr p (c # cs) = (hasPrefix p (c # cs) \<or> containsStr p cs)"

text \<open>The text after the last occurrence of a separator: the last part of \<open>strings.Split\<close>.\<close>

fun lastPart :: "string \<Rightarrow> string \<Rightarrow> string option" where
  "lastPart p [] = None"
| "lastPart p (c # cs) = (case lastPart p cs of
      Some r \<Rightarrow> Some r
    | None \<Rightarrow> if hasPrefix p (c # cs) then Some (drop (length p) (c # cs)) else None)"

text \<open>Decimal numbers.\<close>

definition digitVal :: "char \<Rightarrow> nat" where
  "digitVal c = of_char c - 48"

definition digitsVal :: "string \<Rightarrow> nat" where
  "digitsVal s = foldl (\<lambda>n c. 10 * n + digitVal c) 0 s"

fun itoaNat :: "nat \<Rightarrow> string" where
  "itoaNat n = (if n < 10 then [char_of (48 + n)] else itoaNat (n div 10) @ [char_of (48 + n mod 10)])"

declare itoaNat.simps [simp del]

definition itoa :: "int \<Rightarrow> string" where
  "itoa i = (if i < 0 then ''-'' @ itoaNat (nat (- i)) else itoaNat (nat i))"

lemma of_char_digit: "d < 10 \<Longrightarrow> of_char (char_of (48 + d :: nat) :: char) = (48 + d :: nat)"
  by simp

lemma digit_ok: "d < 10 \<Longrightarrow> isDigit (char_of (48 + d :: nat)) \<and> digitVal (char_of (48 + d :: nat)) = d"
  using of_char_digit[of d] by (simp add: isDigit_def digitVal_def)

lemma itoaNat_digits: "list_all isDigit (itoaNat n) \<and> itoaNat n \<noteq> []"
proof (induction n rule: itoaNat.induct)
  case (1 n)
  show ?case
    using 1 digit_ok[of n] digit_ok[of "n mod 10"] by (subst (1 2) itoaNat.simps) auto
qed

lemma digitsVal_itoaNat: "digitsVal (itoaNat n) = n"
proof (induction n rule: itoaNat.induct)
  case (1 n)
  then show ?case
    using digit_ok[of n] digit_ok[of "n mod 10"]
    by (subst itoaNat.simps) (auto simp: digitsVal_def)
qed

text \<open>Durations are nanoseconds.\<close>

definition second :: int where
  "second = 10 ^ 9"

text \<open>Lists.\<close>

lemma length_filter_update:
  "length (filter P xs) \<le> length xs"
  by simp

lemma fold_invariant_list:
  assumes "I s" and "\<And>x s. x \<in> set xs \<Longrightarrow> I s \<Longrightarrow> I (f x s)"
  shows "I (fold f xs s)"
  using assms by (induction xs arbitrary: s) auto

end
