(* ===== verification/Status.thy ===== *)
theory Status
  imports Prelude
begin

text \<open>
  The run and node statuses and the trigger types of
  \<open>internal/core/status.go\<close>.  The Go types are integers numbered by
  \<open>iota\<close>; \<open>Status_num\<close> and \<open>NodeStatus_num\<close> give the persisted numbers and
  \<open>Status_of_int\<close>, \<open>NodeStatus_of_int\<close> read them back, \<open>None\<close> for an integer
  that is no declared constant (for which \<open>String\<close> returns \<open>unknown\<close>).
\<close>

section \<open>Run statuses\<close>

datatype Status = NotStarted | Running | Failed | Aborted | Succeeded | Queued
  | PartiallySucceeded | Waiting | Rejected

fun Status_num :: "Status \<Rightarrow> int" where
  "Status_num NotStarted = 0"
| "Status_num Running = 1"
| "Status_num Failed = 2"
| "Status_num Aborted = 3"
| "Status_num Succeeded = 4"
| "Status_num Queued = 5"
| "Status_num PartiallySucceeded = 6"
| "Status_num Waiting = 7"
| "Status_num Rejected = 8"

definition Status_of_int :: "int \<Rightarrow> Status option" where
  "Status_of_int i = find (\<lambda>s. Status_num s = i)
     [NotStarted, Running, Failed, Aborted, Succeeded, Queued, PartiallySucceeded,
      Waiting, Rejected]"

fun Status_name :: "Status \<Rightarrow> string" where
  "Status_name NotStarted = ''not_started''"
| "Status_name Running = ''running''"
| "Status_name Failed = ''failed''"
| "Status_name Aborted = ''aborted''"
| "Status_name Succeeded = ''succeeded''"
| "Status_name Queued = ''queued''"
| "Status_name PartiallySucceeded = ''partially_succeeded''"
| "Status_name Waiting = ''waiting''"
| "Status_name Rejected = ''rejected''"

definition Status_String :: "int \<Rightarrow> string" where
  "Status_String i = (case Status_of_int i of Some s \<Rightarrow> Status_name s | None \<Rightarrow> ''unknown'')"

definition Status_IsActive :: "Status \<Rightarrow> bool" where
  "Status_IsActive s \<longleftrightarrow> s = Running \<or> s = Queued \<or> s = Waiting"

definition Status_IsSuccess :: "Status \<Rightarrow> bool" where
  "Status_IsSuccess s \<longleftrightarrow> s = Succeeded \<or> s = PartiallySucceeded"

definition Status_IsWaiting :: "Status \<Rightarrow> bool" where
  "Status_IsWaiting s \<longleftrightarrow> s = Waiting"

section \<open>Node statuses\<close>

datatype NodeStatus = NodeNotStarted | NodeRunning | NodeFailed | NodeAborted
  | NodeSucceeded | NodeSkipped | NodePartiallySucceeded | NodeWaiting | NodeRejected
  | NodeRetrying

fun NodeStatus_num :: "NodeStatus \<Rightarrow> int" where
  "NodeStatus_num NodeNotStarted = 0"
| "NodeStatus_num NodeRunning = 1"
| "NodeStatus_num NodeFailed = 2"
| "NodeStatus_num NodeAborted = 3"
| "NodeStatus_num NodeSucceeded = 4"
| "NodeStatus_num NodeSkipped = 5"
| "NodeStatus_num NodePartiallySucceeded = 6"
| "NodeStatus_num NodeWaiting = 7"
| "NodeStatus_num NodeRejected = 8"
| "NodeStatus_num NodeRetrying = 9"

definition NodeStatus_of_int :: "int \<Rightarrow> NodeStatus option" where
  "NodeStatus_of_int i = find (\<lambda>s. NodeStatus_num s = i)
     [NodeNotStarted, NodeRunning, NodeFailed, NodeAborted, NodeSucceeded, NodeSkipped,
      NodePartiallySucceeded, NodeWaiting, NodeRejected, NodeRetrying]"

fun NodeStatus_name :: "NodeStatus \<Rightarrow> string" where
  "NodeStatus_name NodeNotStarted = ''not_started''"
| "NodeStatus_name NodeRunning = ''running''"
| "NodeStatus_name NodeRetrying = ''retrying''"
| "NodeStatus_name NodeFailed = ''failed''"
| "NodeStatus_name NodeAborted = ''aborted''"
| "NodeStatus_name NodeSucceeded = ''succeeded''"
| "NodeStatus_name NodeSkipped = ''skipped''"
| "NodeStatus_name NodePartiallySucceeded = ''partially_succeeded''"
| "NodeStatus_name NodeWaiting = ''waiting''"
| "NodeStatus_name NodeRejected = ''rejected''"

definition NodeStatus_String :: "int \<Rightarrow> string" where
  "NodeStatus_String i =
     (case NodeStatus_of_int i of Some s \<Rightarrow> NodeStatus_name s | None \<Rightarrow> ''unknown'')"

definition NodeStatus_IsSuccess :: "NodeStatus \<Rightarrow> bool" where
  "NodeStatus_IsSuccess s \<longleftrightarrow> s = NodeSucceeded \<or> s = NodePartiallySucceeded"

definition NodeStatus_IsWaiting :: "NodeStatus \<Rightarrow> bool" where
  "NodeStatus_IsWaiting s \<longleftrightarrow> s = NodeWaiting"

definition NodeStatus_IsDone :: "NodeStatus \<Rightarrow> bool" where
  "NodeStatus_IsDone s \<longleftrightarrow> s = NodeSucceeded \<or> s = NodeFailed \<or> s = NodeSkipped
     \<or> s = NodeAborted \<or> s = NodePartiallySucceeded \<or> s = NodeRejected"

section \<open>Trigger types\<close>

datatype TriggerType = TriggerTypeUnknown | TriggerTypeScheduler | TriggerTypeManual
  | TriggerTypeWebhook | TriggerTypeSubDAG | TriggerTypeRetry | TriggerTypeCatchUp
  | TriggerTypeAutomata

fun TriggerType_String :: "TriggerType \<Rightarrow> string" where
  "TriggerType_String TriggerTypeUnknown = ''unknown''"
| "TriggerType_String TriggerTypeScheduler = ''scheduler''"
| "TriggerType_String TriggerTypeManual = ''manual''"
| "TriggerType_String TriggerTypeWebhook = ''webhook''"
| "TriggerType_String TriggerTypeSubDAG = ''subdag''"
| "TriggerType_String TriggerTypeRetry = ''retry''"
| "TriggerType_String TriggerTypeCatchUp = ''catchup''"
| "TriggerType_String TriggerTypeAutomata = ''automata''"

definition ParseTriggerType :: "string \<Rightarrow> TriggerType" where
  "ParseTriggerType s =
     (if s = ''scheduler'' then TriggerTypeScheduler
      else if s = ''manual'' then TriggerTypeManual
      else if s = ''webhook'' then TriggerTypeWebhook
      else if s = ''subdag'' then TriggerTypeSubDAG
      else if s = ''retry'' then TriggerTypeRetry
      else if s = ''catchup'' then TriggerTypeCatchUp
      else if s = ''automata'' then TriggerTypeAutomata
      else TriggerTypeUnknown)"

section \<open>Facts\<close>

lemma Status_of_int_num: "Status_of_int (Status_num s) = Some s"
  by (cases s) (simp_all add: Status_of_int_def)

lemma NodeStatus_of_int_num: "NodeStatus_of_int (NodeStatus_num s) = Some s"
  by (cases s) (simp_all add: NodeStatus_of_int_def)

lemma NodeStatus_name_inj: "NodeStatus_name s = NodeStatus_name t \<longleftrightarrow> s = t"
  by (cases s; cases t) simp_all

lemma NodeStatus_IsDone_cases [status_simps]:
  "\<not> NodeStatus_IsDone s \<longleftrightarrow>
     s = NodeNotStarted \<or> s = NodeRunning \<or> s = NodeWaiting \<or> s = NodeRetrying"
  by (cases s) (simp_all add: NodeStatus_IsDone_def)

end
