(* ===== verification/Core_Step.thy ===== *)
theory Core_Step
  imports Status Complex_Main
begin

text \<open>
  The step definition of \<open>internal/core/step.go\<close>, \<open>condition.go\<close> and
  \<open>parallel.go\<close>: the fields that the validator, the execution plan, the nodes
  and the runner read.  A pointer field is an \<open>option\<close>; durations and Go \<open>int\<close>
  are \<^typ>\<open>int\<close>, with the back-off multiplier (a finite \<open>float64\<close>) a rational.
  \<open>migrateLegacyCommand\<close> and \<open>migrateRepeatMode\<close> are what the two
  \<open>UnmarshalJSON\<close> methods do after the JSON has been decoded.
\<close>

record Condition =
  cond_Condition :: string
  cond_Expected :: string
  cond_Negate :: bool
  cond_errorMessage :: string

record ContinueOn =
  co_Failure :: bool
  co_Skipped :: bool
  co_ExitCode :: "int list"
  co_Output :: "string list"
  co_MarkSuccess :: bool

record RetryPolicy =
  rp_Limit :: int
  rp_Interval :: int
  rp_LimitStr :: string
  rp_IntervalSecStr :: string
  rp_ExitCodes :: "int list"
  rp_Backoff :: rat
  rp_MaxInterval :: int

record RepeatPolicy =
  rep_RepeatMode :: string
  rep_Interval :: int
  rep_IntervalStr :: string
  rep_Limit :: int
  rep_LimitStr :: string
  rep_Backoff :: rat
  rep_MaxInterval :: int
  rep_MaxIntervalStr :: string
  rep_Condition :: "Condition option"
  rep_ExitCode :: "int list"

definition RepeatModeWhile :: string where
  "RepeatModeWhile = ''while''"

definition RepeatModeUntil :: string where
  "RepeatModeUntil = ''until''"

record ApprovalConfig =
  ap_Prompt :: string
  ap_Input :: "string list"
  ap_Required :: "string list"

record SubDAG =
  sub_Name :: string
  sub_Params :: string

record CommandEntry =
  ce_Command :: string
  ce_Args :: "string list"
  ce_CmdWithArgs :: string

record ParallelItem =
  pi_Value :: string
  pi_Params :: "(string \<times> string) list"

record ParallelConfig =
  par_Variable :: string
  par_Items :: "ParallelItem list"
  par_MaxConcurrent :: int

record Step =
  st_ID :: string
  st_Name :: string
  st_ExecutorType :: string
  st_CmdWithArgs :: string
  st_Command :: string
  st_Args :: "string list"
  st_Commands :: "CommandEntry list"
  st_Output :: string
  st_Depends :: "string list"
  st_ContinueOn :: ContinueOn
  st_RetryPolicy :: RetryPolicy
  st_RepeatPolicy :: RepeatPolicy
  st_Preconditions :: "Condition list"
  st_SignalOnStop :: string
  st_SubDAG :: "SubDAG option"
  st_Parallel :: "ParallelConfig option"
  st_Timeout :: int
  st_Approval :: "ApprovalConfig option"

section \<open>Zero values\<close>

definition zeroContinueOn :: ContinueOn where
  "zeroContinueOn = \<lparr>co_Failure = False, co_Skipped = False, co_ExitCode = [],
     co_Output = [], co_MarkSuccess = False\<rparr>"

definition zeroRetryPolicy :: RetryPolicy where
  "zeroRetryPolicy = \<lparr>rp_Limit = 0, rp_Interval = 0, rp_LimitStr = '''',
     rp_IntervalSecStr = '''', rp_ExitCodes = [], rp_Backoff = 0, rp_MaxInterval = 0\<rparr>"

definition zeroRepeatPolicy :: RepeatPolicy where
  "zeroRepeatPolicy = \<lparr>rep_RepeatMode = '''', rep_Interval = 0, rep_IntervalStr = '''',
     rep_Limit = 0, rep_LimitStr = '''', rep_Backoff = 0, rep_MaxInterval = 0,
     rep_MaxIntervalStr = '''', rep_Condition = None, rep_ExitCode = []\<rparr>"

definition zeroStep :: Step where
  "zeroStep = \<lparr>st_ID = '''', st_Name = '''', st_ExecutorType = '''', st_CmdWithArgs = '''',
     st_Command = '''', st_Args = [], st_Commands = [], st_Output = '''', st_Depends = [],
     st_ContinueOn = zeroContinueOn, st_RetryPolicy = zeroRetryPolicy,
     st_RepeatPolicy = zeroRepeatPolicy, st_Preconditions = [], st_SignalOnStop = '''',
     st_SubDAG = None, st_Parallel = None, st_Timeout = 0, st_Approval = None\<rparr>"

section \<open>Operations\<close>

definition IsCommand :: "Step \<Rightarrow> bool" where
  "IsCommand s \<longleftrightarrow> st_ExecutorType s = '''' \<or> st_ExecutorType s = ''command''"

definition HasMultipleCommands :: "Step \<Rightarrow> bool" where
  "HasMultipleCommands s \<longleftrightarrow> length (st_Commands s) > 1"

definition migrateLegacyCommand :: "Step \<Rightarrow> Step" where
  "migrateLegacyCommand s =
     (if st_Commands s \<noteq> [] then s
      else if st_Command s \<noteq> '''' \<or> st_Args s \<noteq> [] \<or> st_CmdWithArgs s \<noteq> ''''
      then s\<lparr>st_Commands := [\<lparr>ce_Command = st_Command s, ce_Args = st_Args s,
                               ce_CmdWithArgs = st_CmdWithArgs s\<rparr>]\<rparr>
      else s)"

text \<open>
  The legacy boolean \<open>repeat\<close>: \<open>None\<close> when it is present with a type other than
  bool (the second decoding then fails and the mode stays empty).  A missing
  field decodes to \<open>Some False\<close>.
\<close>

definition migrateRepeatMode :: "RepeatPolicy \<Rightarrow> bool option \<Rightarrow> RepeatPolicy" where
  "migrateRepeatMode r legacy =
     (if rep_RepeatMode r \<noteq> '''' then r
      else case legacy of
        None \<Rightarrow> r
      | Some True \<Rightarrow> r\<lparr>rep_RepeatMode := RepeatModeWhile\<rparr>
      | Some False \<Rightarrow>
          (case rep_Condition r of
             Some c \<Rightarrow>
               if cond_Expected c \<noteq> '''' then r\<lparr>rep_RepeatMode := RepeatModeUntil\<rparr>
               else r\<lparr>rep_RepeatMode := RepeatModeWhile\<rparr>
           | None \<Rightarrow>
               if rep_ExitCode r \<noteq> [] then r\<lparr>rep_RepeatMode := RepeatModeWhile\<rparr> else r))"

lemma migrateLegacyCommand_idem:
  "migrateLegacyCommand (migrateLegacyCommand s) = migrateLegacyCommand s"
  by (simp add: migrateLegacyCommand_def)

lemma migrateRepeatMode_idem:
  "migrateRepeatMode (migrateRepeatMode r l) l = migrateRepeatMode r l"
  by (cases "rep_Condition r"; cases l; cases "the l")
     (simp_all add: migrateRepeatMode_def RepeatModeWhile_def RepeatModeUntil_def)

end
