(* ===== verification/Validator.thy ===== *)
theory Validator
  imports Core_Step
begin

text \<open>
  The step validator of \<open>internal/core/validator.go\<close>.  \<open>ValidateSteps\<close> takes
  the steps of a DAG, rewrites step IDs in \<open>Depends\<close> to step names in place and
  returns the rewritten steps with the list of errors, which is empty exactly
  when the Go function returns \<open>nil\<close>.  The registry of executor validators
  (\<open>stepValidators\<close>) is a parameter.
\<close>

section \<open>Names\<close>

definition toLowerChar :: "char \<Rightarrow> char" where
  "toLowerChar c = (let n = (of_char c :: nat) in
     if 65 \<le> n \<and> n \<le> 90 then char_of (n + 32) else c)"

definition dagNameRegex :: "string \<Rightarrow> bool" where
  "dagNameRegex s \<longleftrightarrow> s \<noteq> [] \<and>
     list_all (\<lambda>c. isLetter c \<or> isDigit c \<or> c \<in> set ''_.-'') s"

definition stepIDPattern :: "string \<Rightarrow> bool" where
  "stepIDPattern s \<longleftrightarrow> (case s of [] \<Rightarrow> False
     | c # cs \<Rightarrow> isLetter c \<and>
         list_all (\<lambda>d. isLetter d \<or> isDigit d \<or> d = CHR ''_'') cs)"

definition reservedWords :: "string list" where
  "reservedWords = [''env'', ''params'', ''args'', ''stdout'', ''stderr'', ''output'', ''outputs'']"

definition isReservedWord :: "string \<Rightarrow> bool" where
  "isReservedWord s \<longleftrightarrow> map toLowerChar s \<in> set reservedWords"

definition DAGNameMaxLen :: nat where "DAGNameMaxLen = 40"
definition maxStepNameLen :: nat where "maxStepNameLen = 255"
definition maxStepIDLen :: nat where "maxStepIDLen = 40"

datatype NameError = ErrNameInvalidChars | ErrNameTooLong

definition ValidateDAGName :: "string \<Rightarrow> NameError option" where
  "ValidateDAGName name =
     (if name = '''' then None
      else if name = ''.'' \<or> name = ''..'' then Some ErrNameInvalidChars
      else if length name > DAGNameMaxLen then Some ErrNameTooLong
      else if \<not> dagNameRegex name then Some ErrNameInvalidChars
      else None)"

section \<open>Validation errors\<close>

text \<open>
  A \<open>ValidationError\<close> carries the field, the offending value and the cause.
  The value is kept as text or as the number it is; where the Go code attaches
  the whole step or configuration only the fact of it is kept.
\<close>

datatype VErr = StepNameNotGenerated | ErrStepNameDuplicate | InvalidStepIDFormat
  | ErrStepIDTooLong | DuplicateStepID | ReservedStepID | IDConflictsWithName
  | NameConflictsWithID | DependsOnNonExistent string string | ErrStepNameRequired
  | StepIDUsedAsNameTooLong string | ErrStepNameTooLong | ParallelNeedsSubDAG
  | MaxConcurrentNotPositive | ParallelNeedsItems | ExecutorInvalid string

datatype VValue = VText string | VInt int | VStep | VParallel | VExecutorConfig

datatype ValidationError = ValidationError string VValue VErr

type_synonym ErrorList = "ValidationError list"

type_synonym stepRegistry = "string \<Rightarrow> (Step \<Rightarrow> string option) option"

section \<open>Collecting names and IDs\<close>

definition collectStep ::
  "Step \<Rightarrow> string set \<times> string set \<times> ErrorList \<Rightarrow> string set \<times> string set \<times> ErrorList" where
  "collectStep step = (\<lambda>(names, ids, errs).
     if st_Name step = '''' then
       (names, ids, errs @ [ValidationError ''steps'' VStep StepNameNotGenerated])
     else
       let errs1 = (if st_Name step \<in> names
                    then errs @ [ValidationError ''steps'' (VText (st_Name step)) ErrStepNameDuplicate]
                    else errs);
           names1 = insert (st_Name step) names
       in if st_ID step = '''' then (names1, ids, errs1)
          else
            let v = VText (st_ID step);
                errs2 = (if stepIDPattern (st_ID step) then errs1
                         else errs1 @ [ValidationError ''steps'' v InvalidStepIDFormat]);
                errs3 = (if length (st_ID step) > maxStepIDLen
                         then errs2 @ [ValidationError ''steps'' v ErrStepIDTooLong] else errs2);
                errs4 = (if st_ID step \<in> ids
                         then errs3 @ [ValidationError ''steps'' v DuplicateStepID] else errs3);
                ids1 = insert (st_ID step) ids;
                errs5 = (if isReservedWord (st_ID step)
                         then errs4 @ [ValidationError ''steps'' v ReservedStepID] else errs4)
            in (names1, ids1, errs5))"

definition collectNamesAndIDs :: "Step list \<Rightarrow> string set \<times> string set \<times> ErrorList" where
  "collectNamesAndIDs steps = fold collectStep steps ({}, {}, [])"

section \<open>Name and ID conflicts\<close>

definition nameToOwnID :: "Step list \<Rightarrow> string \<Rightarrow> string" where
  "nameToOwnID steps = fold (\<lambda>step m. if st_Name step \<noteq> '''' then m(st_Name step := st_ID step) else m)
     steps (\<lambda>_. '''')"

definition conflictsOfStep :: "Step list \<Rightarrow> string set \<Rightarrow> string set \<Rightarrow> Step \<Rightarrow> ErrorList" where
  "conflictsOfStep steps names ids step =
     (if st_Name step = '''' then []
      else (if st_ID step \<noteq> '''' \<and> st_ID step \<in> names \<and> st_ID step \<noteq> st_Name step
            then [ValidationError ''steps'' (VText (st_ID step)) IDConflictsWithName] else [])
         @ (if st_Name step \<in> ids \<and> nameToOwnID steps (st_Name step) \<noteq> st_Name step
            then [ValidationError ''steps'' (VText (st_Name step)) NameConflictsWithID] else []))"

definition validateNameIDConflicts :: "Step list \<Rightarrow> string set \<Rightarrow> string set \<Rightarrow> ErrorList" where
  "validateNameIDConflicts steps names ids = concat (map (conflictsOfStep steps names ids) steps)"

section \<open>Dependencies\<close>

definition idToName :: "Step list \<Rightarrow> string \<rightharpoonup> string" where
  "idToName steps = fold (\<lambda>step m. if st_ID step \<noteq> '''' then m(st_ID step \<mapsto> st_Name step) else m)
     steps Map.empty"

definition resolveDep :: "Step list \<Rightarrow> string \<Rightarrow> string" where
  "resolveDep steps dep = (case idToName steps dep of Some name \<Rightarrow> name | None \<Rightarrow> dep)"

definition resolveStepDependencies :: "Step list \<Rightarrow> Step list" where
  "resolveStepDependencies steps =
     map (\<lambda>step. step\<lparr>st_Depends := map (resolveDep steps) (st_Depends step)\<rparr>) steps"

definition validateDependenciesExist :: "Step list \<Rightarrow> string set \<Rightarrow> ErrorList" where
  "validateDependenciesExist steps names =
     concat (map (\<lambda>step.
       map (\<lambda>dep. ValidationError ''depends'' (VText dep) (DependsOnNonExistent (st_Name step) dep))
         (filter (\<lambda>dep. dep \<notin> names) (st_Depends step))) steps)"

section \<open>Single steps\<close>

definition validateParallelConfig :: "Step \<Rightarrow> ErrorList" where
  "validateParallelConfig step = (case st_Parallel step of None \<Rightarrow> []
     | Some par \<Rightarrow>
        (if st_SubDAG step = None
         then [ValidationError ''parallel'' VParallel ParallelNeedsSubDAG] else [])
      @ (if par_MaxConcurrent par \<le> 0
         then [ValidationError ''parallel.max_concurrent'' (VInt (par_MaxConcurrent par))
                 MaxConcurrentNotPositive] else [])
      @ (if par_Items par = [] \<and> par_Variable par = ''''
         then [ValidationError ''parallel'' VParallel ParallelNeedsItems] else []))"

definition validateStepWithValidator :: "stepRegistry \<Rightarrow> Step \<Rightarrow> ErrorList" where
  "validateStepWithValidator reg step = (case reg (st_ExecutorType step) of None \<Rightarrow> []
     | Some validator \<Rightarrow> (case validator step of None \<Rightarrow> []
         | Some err \<Rightarrow> [ValidationError ''executor_config'' VExecutorConfig (ExecutorInvalid err)]))"

definition validateStep :: "stepRegistry \<Rightarrow> Step \<Rightarrow> ErrorList" where
  "validateStep reg step =
     (if st_Name step = '''' then [ValidationError ''name'' (VText (st_Name step)) ErrStepNameRequired]
      else [])
   @ (if length (st_Name step) > maxStepNameLen
      then if st_ID step \<noteq> '''' \<and> st_Name step = st_ID step
           then [ValidationError ''name'' (VText (st_Name step)) (StepIDUsedAsNameTooLong (st_ID step))]
           else [ValidationError ''name'' (VText (st_Name step)) ErrStepNameTooLong]
      else [])
   @ validateParallelConfig step
   @ validateStepWithValidator reg step"

definition ValidateSteps :: "stepRegistry \<Rightarrow> Step list \<Rightarrow> Step list \<times> ErrorList" where
  "ValidateSteps reg steps =
     (let (names, ids, errs) = collectNamesAndIDs steps;
          errs1 = errs @ validateNameIDConflicts steps names ids;
          steps1 = resolveStepDependencies steps;
          errs2 = errs1 @ validateDependenciesExist steps1 names;
          errs3 = errs2 @ concat (map (validateStep reg) steps1)
      in (steps1, errs3))"

section \<open>What a successful validation means\<close>

text \<open>
  The specification: names are present, short enough and unique; IDs are
  well-formed and unique; an ID may coincide with a step name only on the step
  itself; every dependency names a step or an ID.
\<close>

definition idsOf :: "Step list \<Rightarrow> string list" where
  "idsOf steps = map st_ID (filter (\<lambda>s. st_ID s \<noteq> '''') steps)"

definition goodID :: "string \<Rightarrow> bool" where
  "goodID i \<longleftrightarrow> stepIDPattern i \<and> length i \<le> maxStepIDLen \<and> \<not> isReservedWord i"

definition uniqueNamesAndIDs :: "Step list \<Rightarrow> bool" where
  "uniqueNamesAndIDs steps \<longleftrightarrow>
     (\<forall>s\<in>set steps. st_Name s \<noteq> '''') \<and> distinct (map st_Name steps)
     \<and> distinct (idsOf steps) \<and> (\<forall>i\<in>set (idsOf steps). goodID i)"

definition noNameIDConflict :: "Step list \<Rightarrow> bool" where
  "noNameIDConflict steps \<longleftrightarrow>
     (\<forall>s\<in>set steps. \<forall>t\<in>set steps. st_ID s \<noteq> '''' \<longrightarrow> st_ID s = st_Name t \<longrightarrow> st_Name s = st_Name t)"

definition dependenciesResolve :: "Step list \<Rightarrow> bool" where
  "dependenciesResolve steps \<longleftrightarrow>
     (\<forall>s\<in>set steps. \<forall>d\<in>set (st_Depends s).
        d \<in> st_Name ` set steps \<or> d \<in> set (idsOf steps))"

definition wellFormedSteps :: "stepRegistry \<Rightarrow> Step list \<Rightarrow> bool" where
  "wellFormedSteps reg steps \<longleftrightarrow> uniqueNamesAndIDs steps \<and> noNameIDConflict steps
     \<and> dependenciesResolve steps
     \<and> (\<forall>s\<in>set (resolveStepDependencies steps). validateStep reg s = [])"

lemma collectStep_errs:
  "\<exists>es. snd (snd (collectStep s (n, i, e))) = e @ es"
  by (auto simp: collectStep_def Let_def)

lemma collectNamesAndIDs_snoc:
  "collectNamesAndIDs (xs @ [x]) = collectStep x (collectNamesAndIDs xs)"
  by (simp add: collectNamesAndIDs_def)

lemma idsOf_snoc:
  "idsOf (xs @ [x]) = idsOf xs @ (if st_ID x = '''' then [] else [st_ID x])"
  by (simp add: idsOf_def)

lemma uniqueNamesAndIDs_snoc:
  "uniqueNamesAndIDs (xs @ [x]) \<longleftrightarrow> uniqueNamesAndIDs xs \<and> st_Name x \<noteq> ''''
     \<and> st_Name x \<notin> st_Name ` set xs
     \<and> (st_ID x = '''' \<or> st_ID x \<notin> set (idsOf xs) \<and> goodID (st_ID x))"
  by (auto simp: uniqueNamesAndIDs_def idsOf_snoc)

lemma collectNamesAndIDs_spec:
  "(snd (snd (collectNamesAndIDs xs)) = [] \<longleftrightarrow> uniqueNamesAndIDs xs)
   \<and> (uniqueNamesAndIDs xs \<longrightarrow>
        fst (collectNamesAndIDs xs) = st_Name ` set xs
        \<and> fst (snd (collectNamesAndIDs xs)) = set (idsOf xs))"
proof (induction xs rule: rev_induct)
  case Nil
  then show ?case by (simp add: collectNamesAndIDs_def uniqueNamesAndIDs_def idsOf_def)
next
  case (snoc x xs)
  obtain n i e where c: "collectNamesAndIDs xs = (n, i, e)"
    by (cases "collectNamesAndIDs xs") auto
  show ?case
  proof (cases "uniqueNamesAndIDs xs")
    case True
    with snoc c have "e = []" "n = st_Name ` set xs" "i = set (idsOf xs)" by auto
    with True show ?thesis
      by (auto simp: collectNamesAndIDs_snoc uniqueNamesAndIDs_snoc c collectStep_def Let_def
          idsOf_snoc goodID_def)
  next
    case False
    with snoc c have "e \<noteq> []" by auto
    with collectStep_errs[of x n i e] False show ?thesis
      by (auto simp: collectNamesAndIDs_snoc uniqueNamesAndIDs_snoc c)
  qed
qed

lemma nameToOwnID_distinct:
  assumes "distinct (map st_Name xs)" "s \<in> set xs" "st_Name s \<noteq> ''''"
  shows "nameToOwnID xs (st_Name s) = st_ID s"
  using assms unfolding nameToOwnID_def
  by (induction xs rule: rev_induct) (auto simp: image_iff)

lemma idToName_None: "idToName xs d = None \<longleftrightarrow> d \<notin> set (idsOf xs)"
  unfolding idToName_def by (induction xs rule: rev_induct) (auto simp: idsOf_def)

lemma idToName_Some:
  assumes "idToName xs d = Some n"
  shows "\<exists>s\<in>set xs. st_ID s = d \<and> d \<noteq> '''' \<and> st_Name s = n"
  using assms unfolding idToName_def
  by (induction xs rule: rev_induct) (auto split: if_splits)

lemma idToName_distinct:
  assumes "distinct (idsOf xs)" "s \<in> set xs" "st_ID s \<noteq> ''''"
  shows "idToName xs (st_ID s) = Some (st_Name s)"
  using assms unfolding idToName_def
  by (induction xs rule: rev_induct) (auto simp: idsOf_def image_iff split: if_splits)

lemma conflictsOfStep_Nil:
  assumes "uniqueNamesAndIDs xs" "s \<in> set xs"
  shows "conflictsOfStep xs (st_Name ` set xs) (set (idsOf xs)) s = [] \<longleftrightarrow>
      (st_ID s \<noteq> [] \<longrightarrow> st_ID s \<in> st_Name ` set xs \<longrightarrow> st_ID s = st_Name s)
      \<and> (st_Name s \<in> set (idsOf xs) \<longrightarrow> st_ID s = st_Name s)"
proof -
  have "st_Name s \<noteq> []" and "nameToOwnID xs (st_Name s) = st_ID s"
    using assms by (auto simp: uniqueNamesAndIDs_def intro: nameToOwnID_distinct)
  then show ?thesis by (auto simp: conflictsOfStep_def)
qed

lemma noNameIDConflictD:
  "noNameIDConflict xs \<Longrightarrow> s \<in> set xs \<Longrightarrow> t \<in> set xs \<Longrightarrow> st_ID s \<noteq> []
     \<Longrightarrow> st_ID s = st_Name t \<Longrightarrow> st_Name s = st_Name t"
  unfolding noNameIDConflict_def by blast

lemma validateNameIDConflicts_spec:
  assumes u: "uniqueNamesAndIDs xs"
  shows "validateNameIDConflicts xs (st_Name ` set xs) (set (idsOf xs)) = []
           \<longleftrightarrow> noNameIDConflict xs"
proof
  assume "validateNameIDConflicts xs (st_Name ` set xs) (set (idsOf xs)) = []"
  then have "conflictsOfStep xs (st_Name ` set xs) (set (idsOf xs)) s = []" if "s \<in> set xs" for s
    using that by (simp add: validateNameIDConflicts_def)
  with conflictsOfStep_Nil[OF u] have "st_ID s = st_Name s"
    if "s \<in> set xs" "st_ID s \<noteq> []" "st_ID s \<in> st_Name ` set xs" for s
    using that by blast
  then show "noNameIDConflict xs"
    unfolding noNameIDConflict_def by (metis imageI)
next
  assume n: "noNameIDConflict xs"
  have "conflictsOfStep xs (st_Name ` set xs) (set (idsOf xs)) s = []" if s: "s \<in> set xs" for s
  proof -
    have "st_ID s = st_Name s" if "st_ID s \<noteq> []" "st_ID s \<in> st_Name ` set xs"
      using noNameIDConflictD[OF n s] that by (metis imageE)
    moreover have "st_ID s = st_Name s" if "st_Name s \<in> set (idsOf xs)"
    proof -
      obtain t where t: "t \<in> set xs" "st_ID t \<noteq> []" "st_ID t = st_Name s"
        using \<open>st_Name s \<in> set (idsOf xs)\<close> by (auto simp: idsOf_def)
      with noNameIDConflictD[OF n _ s] have "st_Name t = st_Name s" by blast
      with u s t have "t = s" by (auto simp: uniqueNamesAndIDs_def distinct_map dest: inj_onD)
      with t show ?thesis by simp
    qed
    ultimately show ?thesis using conflictsOfStep_Nil[OF u s] by blast
  qed
  then show "validateNameIDConflicts xs (st_Name ` set xs) (set (idsOf xs)) = []"
    by (simp add: validateNameIDConflicts_def)
qed

lemma resolveDep_in_names:
  "resolveDep xs d \<in> st_Name ` set xs \<longleftrightarrow> d \<in> st_Name ` set xs \<or> d \<in> set (idsOf xs)"
  if "noNameIDConflict xs" "distinct (idsOf xs)"
proof (cases "idToName xs d")
  case None
  with idToName_None[of xs d] show ?thesis by (simp add: resolveDep_def)
next
  case (Some n)
  then have "d \<in> set (idsOf xs)" using idToName_None[of xs d] by auto
  moreover have "n \<in> st_Name ` set xs" using idToName_Some[OF Some] by auto
  ultimately show ?thesis using Some by (simp add: resolveDep_def)
qed

lemma names_resolve: "st_Name ` set (resolveStepDependencies xs) = st_Name ` set xs"
  by (simp add: resolveStepDependencies_def image_image)

lemma validateDependenciesExist_spec:
  assumes "noNameIDConflict xs" "distinct (idsOf xs)"
  shows "validateDependenciesExist (resolveStepDependencies xs) (st_Name ` set xs) = []
           \<longleftrightarrow> dependenciesResolve xs"
  using resolveDep_in_names[OF assms]
  by (auto simp: validateDependenciesExist_def resolveStepDependencies_def
      dependenciesResolve_def filter_empty_conv)

lemma ValidateSteps_eq:
  "ValidateSteps reg xs =
     (resolveStepDependencies xs,
      snd (snd (collectNamesAndIDs xs))
      @ validateNameIDConflicts xs (fst (collectNamesAndIDs xs)) (fst (snd (collectNamesAndIDs xs)))
      @ validateDependenciesExist (resolveStepDependencies xs) (fst (collectNamesAndIDs xs))
      @ concat (map (validateStep reg) (resolveStepDependencies xs)))"
  by (simp add: ValidateSteps_def Let_def split_beta)

lemma ValidateSteps_fst: "fst (ValidateSteps reg steps) = resolveStepDependencies steps"
  by (simp add: ValidateSteps_eq)

lemma ValidateSteps_accepts_iff_aux:
  "snd (ValidateSteps reg steps) = [] \<longleftrightarrow> wellFormedSteps reg steps"
proof (cases "uniqueNamesAndIDs steps")
  case True
  then have c: "snd (snd (collectNamesAndIDs steps)) = []"
    "fst (collectNamesAndIDs steps) = st_Name ` set steps"
    "fst (snd (collectNamesAndIDs steps)) = set (idsOf steps)"
    using collectNamesAndIDs_spec[of steps] by auto
  have d: "distinct (idsOf steps)" using True by (simp add: uniqueNamesAndIDs_def)
  show ?thesis
    using validateNameIDConflicts_spec[OF True] validateDependenciesExist_spec[OF _ d] True
    by (auto simp: ValidateSteps_eq c wellFormedSteps_def)
next
  case False
  then show ?thesis
    using collectNamesAndIDs_spec[of steps] by (simp add: ValidateSteps_eq wellFormedSteps_def)
qed

text \<open>C33: \<open>ValidateSteps\<close> reports no error exactly for the well-formed step lists.\<close>

theorem ValidateSteps_accepts_iff:
  "snd (ValidateSteps reg steps) = [] \<longleftrightarrow> wellFormedSteps reg steps"
  by (rule ValidateSteps_accepts_iff_aux)

lemma ValidateSteps_names:
  "map st_Name (fst (ValidateSteps reg steps)) = map st_Name steps"
  by (simp add: ValidateSteps_eq resolveStepDependencies_def)

lemma resolve_depends_named:
  assumes "wellFormedSteps reg steps" "s \<in> set (resolveStepDependencies steps)"
    "d \<in> set (st_Depends s)"
  shows "d \<in> st_Name ` set steps"
  using assms resolveDep_in_names[of steps]
  by (auto simp: wellFormedSteps_def resolveStepDependencies_def dependenciesResolve_def
      uniqueNamesAndIDs_def)

lemma idsOf_resolve [simp]: "idsOf (resolveStepDependencies xs) = idsOf xs"
  by (simp add: idsOf_def resolveStepDependencies_def filter_map o_def)

lemma uniqueNamesAndIDs_resolve [simp]:
  "uniqueNamesAndIDs (resolveStepDependencies xs) = uniqueNamesAndIDs xs"
proof -
  have "map st_Name (resolveStepDependencies xs) = map st_Name xs"
    by (simp add: resolveStepDependencies_def)
  moreover have "(\<forall>s\<in>set ys. st_Name s \<noteq> []) \<longleftrightarrow> [] \<notin> set (map st_Name ys)" for ys :: "Step list"
    by force
  ultimately show ?thesis by (simp add: uniqueNamesAndIDs_def names_resolve)
qed

lemma noNameIDConflict_resolve [simp]:
  "noNameIDConflict (resolveStepDependencies xs) = noNameIDConflict xs"
  unfolding noNameIDConflict_def by (simp add: resolveStepDependencies_def)

lemma idToName_resolve [simp]: "idToName (resolveStepDependencies xs) = idToName xs"
  unfolding idToName_def resolveStepDependencies_def by (simp add: fold_map o_def cong: if_cong)

lemma resolveDep_resolve [simp]: "resolveDep (resolveStepDependencies xs) = resolveDep xs"
  by (simp add: resolveDep_def fun_eq_iff)

lemma resolveDep_name:
  assumes "noNameIDConflict xs" "d \<in> st_Name ` set xs"
  shows "resolveDep xs d = d"
proof (cases "idToName xs d")
  case (Some n)
  obtain s where s: "s \<in> set xs" "st_ID s = d" "d \<noteq> []" "st_Name s = n"
    using idToName_Some[OF Some] by blast
  obtain t where "t \<in> set xs" "d = st_Name t" using assms(2) by blast
  with s noNameIDConflictD[OF assms(1), of s t] have "n = d" by simp
  with Some show ?thesis by (simp add: resolveDep_def)
qed (simp add: resolveDep_def)

lemma resolve_idem:
  assumes "wellFormedSteps reg xs"
  shows "resolveStepDependencies (resolveStepDependencies xs) = resolveStepDependencies xs"
proof -
  have n: "noNameIDConflict xs" using assms by (simp add: wellFormedSteps_def)
  have "s\<lparr>st_Depends := map (resolveDep xs) (st_Depends s)\<rparr> = s"
    if "s \<in> set (resolveStepDependencies xs)" for s
  proof -
    have "map (resolveDep xs) (st_Depends s) = st_Depends s"
      using resolve_depends_named[OF assms that] resolveDep_name[OF n] by (simp add: map_idI)
    then show ?thesis by simp
  qed
  then show ?thesis
    unfolding resolveStepDependencies_def[of "resolveStepDependencies xs"] resolveDep_resolve
    by (rule map_idI)
qed

lemma wellFormedSteps_resolve:
  assumes "wellFormedSteps reg xs"
  shows "wellFormedSteps reg (resolveStepDependencies xs)"
proof -
  have "dependenciesResolve (resolveStepDependencies xs)"
    using resolve_depends_named[OF assms]
    unfolding dependenciesResolve_def names_resolve by blast
  with assms resolve_idem[OF assms] show ?thesis by (simp add: wellFormedSteps_def)
qed

text \<open>Validating the steps that a successful validation produced succeeds again and
  changes nothing: rewriting IDs to names is idempotent on accepted DAGs.\<close>

theorem ValidateSteps_idempotent:
  assumes "snd (ValidateSteps reg steps) = []"
  shows "ValidateSteps reg (fst (ValidateSteps reg steps)) = (fst (ValidateSteps reg steps), [])"
proof -
  have w: "wellFormedSteps reg steps"
    using assms ValidateSteps_accepts_iff_aux by blast
  show ?thesis
    by (rule prod_eqI)
       (simp_all add: ValidateSteps_fst resolve_idem[OF w] ValidateSteps_accepts_iff_aux
          wellFormedSteps_resolve[OF w])
qed

definition validatorExample :: "Step list" where
  "validatorExample =
     [zeroStep\<lparr>st_ID := ''a'', st_Name := ''fetch''\<rparr>,
      zeroStep\<lparr>st_Name := ''load'', st_Depends := [''a'']\<rparr>]"

theorem ValidateSteps_idempotent_witness:
  "snd (ValidateSteps (\<lambda>_. None) validatorExample) = []
   \<and> map st_Depends (fst (ValidateSteps (\<lambda>_. None) validatorExample)) = [[], [''fetch'']]
   \<and> snd (ValidateSteps (\<lambda>_. None) (fst (ValidateSteps (\<lambda>_. None) validatorExample))) = []"
proof -
  have 1: "snd (ValidateSteps (\<lambda>_. None) validatorExample) = []"
    by code_simp
  have 2: "map st_Depends (fst (ValidateSteps (\<lambda>_. None) validatorExample)) = [[], [''fetch'']]"
    by code_simp
  from 1 2 ValidateSteps_idempotent[OF 1] show ?thesis by simp
qed

end
