(* ===== verification/Node_Data.thy ===== *)
theory Node_Data
  imports Core_Step
begin

text \<open>
  The run-time state of a step: \<open>internal/runtime/data.go\<close>, the data operations
  of \<open>internal/runtime/node.go\<close>, and the exit code helpers of
  \<open>internal/runtime/utils.go\<close>.  A node is a record holding its step, its state
  and its evaluated retry policy; an operation of the Go type \<open>*Node\<close> takes the
  record and returns the updated one.  Times are integers with \<open>0\<close> the zero
  \<open>time.Time\<close>.  Reading a log file is a parameter (\<open>logContains\<close>).
\<close>

section \<open>Errors\<close>

text \<open>
  The errors the run-time distinguishes with \<open>errors.Is\<close>/\<open>errors.As\<close>, and any
  other error by its message.
\<close>

datatype GoError = ErrUpstreamFailed | ErrUpstreamSkipped | ErrUpstreamRejected
  | ErrDeadlockDetected | ErrConditionNotMet | DeadlineExceeded
  | ExitError int | ErrText string

section \<open>Exit codes\<close>

definition maxInt64 :: int where
  "maxInt64 = 2 ^ 63 - 1"

text \<open>\<open>strconv.Atoi\<close> on a string of digits: an error beyond the range of \<open>int\<close>.\<close>

definition atoiDigits :: "string \<Rightarrow> int option" where
  "atoiDigits s = (if s = [] \<or> \<not> list_all isDigit s then None
     else if int (digitsVal s) > maxInt64 then None else Some (int (digitsVal s)))"

definition parseExitCodeFromError :: "string \<Rightarrow> int option" where
  "parseExitCodeFromError s =
     (if \<not> containsStr ''exit status'' s then None
      else case lastPart ''exit status '' s of
        None \<Rightarrow> None
      | Some r \<Rightarrow> (let ds = takeWhile isDigit r in if ds = [] then None else atoiDigits ds))"

definition errorString :: "GoError \<Rightarrow> string" where
  "errorString e = (case e of
     ErrText s \<Rightarrow> s
   | DeadlineExceeded \<Rightarrow> ''context deadline exceeded''
   | ErrConditionNotMet \<Rightarrow> ''condition was not met''
   | ErrUpstreamFailed \<Rightarrow> ''upstream failed''
   | ErrUpstreamSkipped \<Rightarrow> ''upstream skipped''
   | ErrUpstreamRejected \<Rightarrow> ''upstream rejected''
   | ErrDeadlockDetected \<Rightarrow> ''deadlock detected: no runnable nodes but DAG not finished''
   | ExitError c \<Rightarrow> ''exit status '' @ itoa c)"

definition exitCodeFromError :: "GoError option \<Rightarrow> int option" where
  "exitCodeFromError e = (case e of None \<Rightarrow> None
     | Some (ExitError c) \<Rightarrow> Some c
     | Some err \<Rightarrow>
        (case parseExitCodeFromError (errorString err) of
           Some c \<Rightarrow> Some c
         | None \<Rightarrow> if containsStr ''signal:'' (errorString err) then Some (-1) else None))"

section \<open>Node state\<close>

record SubDAGRun =
  sr_DAGRunID :: string
  sr_Params :: string
  sr_DAGName :: string

record NodeState =
  ns_Status :: NodeStatus
  ns_Stdout :: string
  ns_Stderr :: string
  ns_StartedAt :: int
  ns_FinishedAt :: int
  ns_RetryCount :: int
  ns_RetriedAt :: int
  ns_DoneCount :: int
  ns_Repeated :: bool
  ns_Error :: "GoError option"
  ns_ExitCode :: int
  ns_SubRuns :: "SubDAGRun list"
  ns_SubRunsRepeated :: "SubDAGRun list"
  ns_OutputVariables :: "(string, string) fmap option"
  ns_ApprovalInputs :: "(string, string) fmap option"
  ns_ApprovalIteration :: int
  ns_PushBackInputs :: "(string, string) fmap option"

definition zeroNodeState :: NodeState where
  "zeroNodeState = \<lparr>ns_Status = NodeNotStarted, ns_Stdout = '''', ns_Stderr = '''',
     ns_StartedAt = 0, ns_FinishedAt = 0, ns_RetryCount = 0, ns_RetriedAt = 0,
     ns_DoneCount = 0, ns_Repeated = False, ns_Error = None, ns_ExitCode = 0,
     ns_SubRuns = [], ns_SubRunsRepeated = [], ns_OutputVariables = None,
     ns_ApprovalInputs = None, ns_ApprovalIteration = 0, ns_PushBackInputs = None\<rparr>"

record NodeRetryPolicy =
  nrp_Limit :: int
  nrp_Interval :: int
  nrp_ExitCodes :: "int list"

definition zeroNodeRetryPolicy :: NodeRetryPolicy where
  "zeroNodeRetryPolicy = \<lparr>nrp_Limit = 0, nrp_Interval = 0, nrp_ExitCodes = []\<rparr>"

record Node =
  n_id :: nat
  n_Step :: Step
  n_State :: NodeState
  n_retryPolicy :: NodeRetryPolicy
  n_done :: bool
  n_cmdSet :: bool

abbreviation n_Status :: "Node \<Rightarrow> NodeStatus" where
  "n_Status n \<equiv> ns_Status (n_State n)"

abbreviation n_Name :: "Node \<Rightarrow> string" where
  "n_Name n \<equiv> st_Name (n_Step n)"

definition NewNode :: "Step \<Rightarrow> NodeState \<Rightarrow> Node" where
  "NewNode step state = \<lparr>n_id = 0, n_Step = step, n_State = state,
     n_retryPolicy = zeroNodeRetryPolicy, n_done = False, n_cmdSet = False\<rparr>"

section \<open>Setters\<close>

definition SetStatus :: "NodeStatus \<Rightarrow> Node \<Rightarrow> Node" where
  "SetStatus s n = n\<lparr>n_State := (n_State n)\<lparr>ns_Status := s\<rparr>\<rparr>"

definition SetError :: "GoError option \<Rightarrow> Node \<Rightarrow> Node" where
  "SetError e n = n\<lparr>n_State := (n_State n)\<lparr>ns_Error := e\<rparr>\<rparr>"

definition SetExitCode :: "int \<Rightarrow> Node \<Rightarrow> Node" where
  "SetExitCode c n = n\<lparr>n_State := (n_State n)\<lparr>ns_ExitCode := c\<rparr>\<rparr>"

definition ResetError :: "Node \<Rightarrow> Node" where
  "ResetError n = n\<lparr>n_State := (n_State n)\<lparr>ns_Error := None, ns_ExitCode := 0\<rparr>\<rparr>"

definition SetStep :: "Step \<Rightarrow> Node \<Rightarrow> Node" where
  "SetStep st n = n\<lparr>n_Step := st\<rparr>"

definition IncRetryCount :: "Node \<Rightarrow> Node" where
  "IncRetryCount n = n\<lparr>n_State := (n_State n)\<lparr>ns_RetryCount := ns_RetryCount (n_State n) + 1\<rparr>\<rparr>"

definition SetRetryCount :: "int \<Rightarrow> Node \<Rightarrow> Node" where
  "SetRetryCount c n = n\<lparr>n_State := (n_State n)\<lparr>ns_RetryCount := c\<rparr>\<rparr>"

definition SetRetriedAt :: "int \<Rightarrow> Node \<Rightarrow> Node" where
  "SetRetriedAt t n = n\<lparr>n_State := (n_State n)\<lparr>ns_RetriedAt := t\<rparr>\<rparr>"

definition IncDoneCount :: "Node \<Rightarrow> Node" where
  "IncDoneCount n = n\<lparr>n_State := (n_State n)\<lparr>ns_DoneCount := ns_DoneCount (n_State n) + 1\<rparr>\<rparr>"

definition SetRepeated :: "bool \<Rightarrow> Node \<Rightarrow> Node" where
  "SetRepeated b n = n\<lparr>n_State := (n_State n)\<lparr>ns_Repeated := b\<rparr>\<rparr>"

definition Node_Finish :: "int \<Rightarrow> Node \<Rightarrow> Node" where
  "Node_Finish now n = n\<lparr>n_State := (n_State n)\<lparr>ns_FinishedAt := now\<rparr>\<rparr>"

definition SetSubRuns :: "SubDAGRun list \<Rightarrow> Node \<Rightarrow> Node" where
  "SetSubRuns rs n = n\<lparr>n_State := (n_State n)\<lparr>ns_SubRuns := rs\<rparr>\<rparr>"

definition AddSubRunsRepeated :: "SubDAGRun list \<Rightarrow> Node \<Rightarrow> Node" where
  "AddSubRunsRepeated rs n =
     n\<lparr>n_State := (n_State n)\<lparr>ns_SubRunsRepeated := ns_SubRunsRepeated (n_State n) @ rs\<rparr>\<rparr>"

definition ClearState :: "Step \<Rightarrow> Node \<Rightarrow> Node" where
  "ClearState st n = n\<lparr>n_State := zeroNodeState, n_Step := st\<rparr>"

definition MarkError :: "GoError option \<Rightarrow> Node \<Rightarrow> Node" where
  "MarkError e n = n\<lparr>n_State := (n_State n)\<lparr>ns_Error := e, ns_Status := NodeFailed\<rparr>\<rparr>"

definition MatchExitCode :: "int list \<Rightarrow> Node \<Rightarrow> bool" where
  "MatchExitCode cs n \<longleftrightarrow> ns_ExitCode (n_State n) \<in> set cs"

section \<open>Output variables\<close>

text \<open>Values are stored as \<open>key=value\<close>; \<open>strings.Cut\<close> splits at the first \<open>=\<close>.\<close>

definition NewKeyValue :: "string \<Rightarrow> string \<Rightarrow> string" where
  "NewKeyValue k v = k @ ''='' @ v"

fun cutEq :: "string \<Rightarrow> (string \<times> string) option" where
  "cutEq [] = None"
| "cutEq (c # cs) = (if c = CHR ''='' then Some ([], cs)
     else map_option (\<lambda>(k, v). (c # k, v)) (cutEq cs))"

definition KeyValue_Value :: "string \<Rightarrow> string" where
  "KeyValue_Value kv = (case cutEq kv of Some (k, v) \<Rightarrow> v | None \<Rightarrow> '''')"

definition ParseBool :: "string \<Rightarrow> bool option" where
  "ParseBool s =
     (if s \<in> set [''1'', ''t'', ''T'', ''true'', ''TRUE'', ''True''] then Some True
      else if s \<in> set [''0'', ''f'', ''F'', ''false'', ''FALSE'', ''False''] then Some False
      else None)"

definition KeyValue_Bool :: "string \<Rightarrow> bool" where
  "KeyValue_Bool kv = (case ParseBool (KeyValue_Value kv) of Some b \<Rightarrow> b | None \<Rightarrow> False)"

definition FormatBool :: "bool \<Rightarrow> string" where
  "FormatBool b = (if b then ''true'' else ''false'')"

definition getVariable :: "string \<Rightarrow> Node \<Rightarrow> string option" where
  "getVariable k n = (case ns_OutputVariables (n_State n) of None \<Rightarrow> None
     | Some m \<Rightarrow> fmlookup m k)"

definition getBoolVariable :: "string \<Rightarrow> Node \<Rightarrow> bool option" where
  "getBoolVariable k n = map_option KeyValue_Bool (getVariable k n)"

definition setVariable :: "string \<Rightarrow> string \<Rightarrow> Node \<Rightarrow> Node" where
  "setVariable k v n =
     (let m = (case ns_OutputVariables (n_State n) of None \<Rightarrow> fmempty | Some m \<Rightarrow> m)
      in n\<lparr>n_State := (n_State n)\<lparr>ns_OutputVariables := Some (fmupd k (NewKeyValue k v) m)\<rparr>\<rparr>)"

definition setBoolVariable :: "string \<Rightarrow> bool \<Rightarrow> Node \<Rightarrow> Node" where
  "setBoolVariable k b = setVariable k (FormatBool b)"

definition ClearVariable :: "string \<Rightarrow> Node \<Rightarrow> Node" where
  "ClearVariable k n = (case ns_OutputVariables (n_State n) of None \<Rightarrow> n
     | Some m \<Rightarrow> n\<lparr>n_State := (n_State n)\<lparr>ns_OutputVariables := Some (fmdrop k m)\<rparr>\<rparr>)"

section \<open>Continuation after a failed or skipped step\<close>

type_synonym logReader = "Node \<Rightarrow> string list \<Rightarrow> (string, bool) result"

definition continueOnKey :: "Node \<Rightarrow> string" where
  "continueOnKey n = ''AYATSURI_CONTINUE_ON.'' @ n_Name n"

text \<open>\<open>ShouldContinue\<close> caches its answer for a failed step in an output variable.\<close>

definition ShouldContinue :: "logReader \<Rightarrow> Node \<Rightarrow> bool \<times> Node" where
  "ShouldContinue logContains n =
     (let co = st_ContinueOn (n_Step n);
          key = continueOnKey n;
          uncached =
            (if MatchExitCode (co_ExitCode co) n then (True, setBoolVariable key True n)
             else if co_Output co \<noteq> [] then
               (case logContains n (co_Output co) of
                  Inl err \<Rightarrow> (False, n)
                | Inr True \<Rightarrow> (True, setBoolVariable key True n)
                | Inr False \<Rightarrow> (False, setBoolVariable key False n))
             else (False, setBoolVariable key False n))
      in case n_Status n of
           NodeSucceeded \<Rightarrow> (True, n)
         | NodePartiallySucceeded \<Rightarrow> (True, n)
         | NodeSkipped \<Rightarrow> (co_Skipped co, n)
         | NodeFailed \<Rightarrow>
             if co_Failure co then (True, n)
             else (case getBoolVariable key n of Some v \<Rightarrow> (v, n) | None \<Rightarrow> uncached)
         | _ \<Rightarrow> (False, n))"

definition ShouldMarkSuccess :: "logReader \<Rightarrow> Node \<Rightarrow> bool \<times> Node" where
  "ShouldMarkSuccess logContains n =
     (case ShouldContinue logContains n of
        (False, n') \<Rightarrow> (False, n')
      | (True, n') \<Rightarrow> (co_MarkSuccess (st_ContinueOn (n_Step n')), n'))"

section \<open>Facts\<close>

lemmas setter_defs = SetStatus_def SetError_def SetExitCode_def ResetError_def SetStep_def
  IncRetryCount_def SetRetryCount_def SetRetriedAt_def IncDoneCount_def SetRepeated_def
  Node_Finish_def SetSubRuns_def AddSubRunsRepeated_def ClearState_def MarkError_def

lemma SetStatus_simps [simp]:
  "n_Status (SetStatus s n) = s" "n_id (SetStatus s n) = n_id n"
  "n_Step (SetStatus s n) = n_Step n" "n_retryPolicy (SetStatus s n) = n_retryPolicy n"
  by (simp_all add: SetStatus_def)

lemma SetError_simps [simp]:
  "n_Status (SetError e n) = n_Status n" "n_id (SetError e n) = n_id n"
  "n_Step (SetError e n) = n_Step n" "n_retryPolicy (SetError e n) = n_retryPolicy n"
  by (simp_all add: SetError_def)

lemma setBoolVariable_simps [simp]:
  "n_Status (setBoolVariable k b n) = n_Status n" "n_id (setBoolVariable k b n) = n_id n"
  "n_Step (setBoolVariable k b n) = n_Step n"
  "n_retryPolicy (setBoolVariable k b n) = n_retryPolicy n"
  "ns_RetryCount (n_State (setBoolVariable k b n)) = ns_RetryCount (n_State n)"
  by (simp_all add: setBoolVariable_def setVariable_def Let_def)

lemma ClearState_simps [simp]:
  "n_Status (ClearState st n) = NodeNotStarted" "n_id (ClearState st n) = n_id n"
  "n_Step (ClearState st n) = st"
  by (simp_all add: ClearState_def zeroNodeState_def)

lemma cutEq_append: "CHR ''='' \<notin> set k \<Longrightarrow> cutEq (k @ ''='' @ v) = Some (k, v)"
  by (induction k) auto

lemma KeyValue_roundtrip: "CHR ''='' \<notin> set k \<Longrightarrow> KeyValue_Value (NewKeyValue k v) = v"
  using cutEq_append[of k v] by (simp add: KeyValue_Value_def NewKeyValue_def)

lemma ParseBool_FormatBool: "ParseBool (FormatBool b) = Some b"
  by (cases b) (simp_all add: ParseBool_def FormatBool_def)

lemma getVariable_setVariable:
  "getVariable k (setVariable k' v n) = (if k = k' then Some (NewKeyValue k v) else getVariable k n)"
  by (simp add: getVariable_def setVariable_def Let_def split: option.splits)

lemma getBoolVariable_setBoolVariable:
  "CHR ''='' \<notin> set k \<Longrightarrow> getBoolVariable k (setBoolVariable k b n) = Some b"
  by (simp add: getBoolVariable_def setBoolVariable_def getVariable_setVariable KeyValue_Bool_def
      KeyValue_roundtrip ParseBool_FormatBool)

lemma ShouldContinue_cases:
  obtains (same) "snd (ShouldContinue lc n) = n"
  | (cached) "snd (ShouldContinue lc n) = setBoolVariable (continueOnKey n) (fst (ShouldContinue lc n)) n"
      "n_Status n = NodeFailed" "\<not> co_Failure (st_ContinueOn (n_Step n))"
proof -
  have "snd (ShouldContinue lc n) = n \<or>
    (snd (ShouldContinue lc n) = setBoolVariable (continueOnKey n) (fst (ShouldContinue lc n)) n
      \<and> n_Status n = NodeFailed \<and> \<not> co_Failure (st_ContinueOn (n_Step n)))"
  proof (cases "n_Status n = NodeFailed \<and> \<not> co_Failure (st_ContinueOn (n_Step n))
               \<and> getBoolVariable (continueOnKey n) n = None")
    case True
    then show ?thesis
      by (cases "lc n (co_Output (st_ContinueOn (n_Step n)))")
         (simp_all add: ShouldContinue_def Let_def split: bool.split)
  next
    case False
    then have "snd (ShouldContinue lc n) = n"
      by (cases "n_Status n") (auto simp: ShouldContinue_def Let_def)
    then show ?thesis ..
  qed
  then show ?thesis using that by blast
qed

lemma ShouldContinue_frame [simp]:
  "n_Status (snd (ShouldContinue lc n)) = n_Status n"
  "n_id (snd (ShouldContinue lc n)) = n_id n"
  "n_Step (snd (ShouldContinue lc n)) = n_Step n"
  "n_retryPolicy (snd (ShouldContinue lc n)) = n_retryPolicy n"
  "ns_RetryCount (n_State (snd (ShouldContinue lc n))) = ns_RetryCount (n_State n)"
  by (cases rule: ShouldContinue_cases[of lc n]; simp)+

lemma snd_ShouldMarkSuccess [simp]:
  "snd (ShouldMarkSuccess lc n) = snd (ShouldContinue lc n)"
  by (simp add: ShouldMarkSuccess_def split: prod.split bool.split)

lemma fst_ShouldMarkSuccess:
  "fst (ShouldMarkSuccess lc n) \<longleftrightarrow>
     fst (ShouldContinue lc n) \<and> co_MarkSuccess (st_ContinueOn (n_Step n))"
  using ShouldContinue_frame(3)[of lc n]
  by (cases "ShouldContinue lc n") (auto simp: ShouldMarkSuccess_def split: bool.split)

lemma continueOnKey_noeq:
  "CHR ''='' \<notin> set (n_Name n) \<Longrightarrow> CHR ''='' \<notin> set (continueOnKey n)"
  by (simp add: continueOnKey_def)

lemma ShouldContinue_failed_cached:
  assumes "n_Status n = NodeFailed" "getBoolVariable (continueOnKey n) n = Some b"
    "\<not> co_Failure (st_ContinueOn (n_Step n))"
  shows "ShouldContinue lc n = (b, n)"
  using assms by (simp add: ShouldContinue_def Let_def)

lemma ShouldContinue_again:
  assumes "CHR ''='' \<notin> set (n_Name n)"
  shows "ShouldContinue lc (snd (ShouldContinue lc n)) = ShouldContinue lc n"
proof (cases rule: ShouldContinue_cases[of lc n])
  case same
  then show ?thesis by simp
next
  case cached
  let ?m = "snd (ShouldContinue lc n)"
  have k: "continueOnKey ?m = continueOnKey n" by (simp add: continueOnKey_def)
  have "getBoolVariable (continueOnKey ?m) ?m = Some (fst (ShouldContinue lc n))"
    unfolding k using cached(1) getBoolVariable_setBoolVariable[OF continueOnKey_noeq[OF assms]]
    by simp
  then have "ShouldContinue lc ?m = (fst (ShouldContinue lc n), ?m)"
    using cached by (intro ShouldContinue_failed_cached) simp_all
  then show ?thesis by simp
qed

text \<open>Once a step's answer to whether its dependents may continue has been computed, asking
  again (for another dependent, or for the final status) gives the same answer, for every
  step whose name has no equals sign.\<close>

theorem ShouldContinue_stable:
  assumes "CHR ''='' \<notin> set (n_Name n)"
  shows "ShouldContinue lc (snd (ShouldContinue lc n)) = ShouldContinue lc n"
  by (rule ShouldContinue_again[OF assms])

theorem ShouldContinue_stable_witness:
  "let n = NewNode (zeroStep\<lparr>st_Name := ''a'',
             st_ContinueOn := zeroContinueOn\<lparr>co_ExitCode := [3]\<rparr>\<rparr>)
             (zeroNodeState\<lparr>ns_Status := NodeFailed, ns_ExitCode := 3\<rparr>);
       lc = (\<lambda>_ _. Inr False)
   in CHR ''='' \<notin> set (n_Name n) \<and> fst (ShouldContinue lc n)
      \<and> ShouldContinue lc (snd (ShouldContinue lc n)) = ShouldContinue lc n"
proof -
  let ?n = "NewNode (zeroStep\<lparr>st_Name := ''a'',
             st_ContinueOn := zeroContinueOn\<lparr>co_ExitCode := [3]\<rparr>\<rparr>)
             (zeroNodeState\<lparr>ns_Status := NodeFailed, ns_ExitCode := 3\<rparr>)"
  have 1: "CHR ''='' \<notin> set (n_Name ?n)" by (simp add: NewNode_def)
  have 2: "fst (ShouldContinue (\<lambda>_ _. Inr False) ?n)"
    by (simp add: ShouldContinue_def Let_def NewNode_def zeroStep_def zeroContinueOn_def
        zeroNodeState_def getBoolVariable_def getVariable_def MatchExitCode_def)
  show ?thesis using 1 2 ShouldContinue_stable[OF 1] by (simp add: Let_def)
qed

text \<open>With an equals sign in the step name the cached answer is misread: a failed step whose
  exit code is listed in \<open>continueOn.exitCode\<close> lets the first dependent continue and stops the
  next one.\<close>

theorem ShouldContinue_equals_sign:
  "let n = NewNode (zeroStep\<lparr>st_Name := ''a=b'',
             st_ContinueOn := zeroContinueOn\<lparr>co_ExitCode := [3]\<rparr>\<rparr>)
             (zeroNodeState\<lparr>ns_Status := NodeFailed, ns_ExitCode := 3\<rparr>);
       lc = (\<lambda>_ _. Inr False);
       (first, n1) = ShouldContinue lc n
   in first \<and> \<not> fst (ShouldContinue lc n1)"
  by (simp add: ShouldContinue_def Let_def NewNode_def zeroStep_def zeroContinueOn_def
      zeroNodeState_def getBoolVariable_def getVariable_setVariable setBoolVariable_def
      MatchExitCode_def getVariable_def continueOnKey_def setVariable_def NewKeyValue_def
      KeyValue_Bool_def KeyValue_Value_def ParseBool_def FormatBool_def)

end
