(* ===== verification/Exec_Plan.thy ===== *)
theory Exec_Plan
  imports Node_Data
begin

text \<open>
  The execution plan of \<open>internal/runtime/plan.go\<close>.  Nodes are shared objects in
  Go; here \<open>p_nodeByID\<close> is the store and every other reference (the node list,
  the name index, the adjacency lists) is a node ID.  Node IDs come from the
  process-wide counter of \<open>getNextNodeID\<close>, which starts at 1 and is passed in and out
  of the constructors; 0 marks a node that has no ID yet.
\<close>

datatype PlanError = ErrMissingNode string | ErrCyclicPlan

record Plan =
  p_startedAt :: int
  p_finishedAt :: int
  p_nodes :: "nat list"
  p_nodeByID :: "(nat, Node) fmap"
  p_nodeByName :: "(string, nat) fmap"
  p_DependencyMap :: "(nat, nat list) fmap"
  p_DependantMap :: "(nat, nat list) fmap"

definition emptyPlan :: "int \<Rightarrow> Plan" where
  "emptyPlan now = \<lparr>p_startedAt = now, p_finishedAt = 0, p_nodes = [], p_nodeByID = fmempty,
     p_nodeByName = fmempty, p_DependencyMap = fmempty, p_DependantMap = fmempty\<rparr>"

section \<open>Accessors\<close>

definition GetNode :: "Plan \<Rightarrow> nat \<Rightarrow> Node option" where
  "GetNode p i = fmlookup (p_nodeByID p) i"

definition GetNodeByName :: "Plan \<Rightarrow> string \<Rightarrow> nat option" where
  "GetNodeByName p name = fmlookup (p_nodeByName p) name"

definition Dependencies :: "Plan \<Rightarrow> nat \<Rightarrow> nat list" where
  "Dependencies p i = goget [] (p_DependencyMap p) i"

definition Dependents :: "Plan \<Rightarrow> nat \<Rightarrow> nat list" where
  "Dependents p i = goget [] (p_DependantMap p) i"

text \<open>The nodes in plan order, and the status of a node (of a missing one: not started).\<close>

definition planNodes :: "Plan \<Rightarrow> Node list" where
  "planNodes p = map (\<lambda>i. the (GetNode p i)) (p_nodes p)"

definition statusOf :: "Plan \<Rightarrow> nat \<Rightarrow> NodeStatus" where
  "statusOf p i = (case GetNode p i of None \<Rightarrow> NodeNotStarted | Some n \<Rightarrow> n_Status n)"

definition updNode :: "nat \<Rightarrow> (Node \<Rightarrow> Node) \<Rightarrow> Plan \<Rightarrow> Plan" where
  "updNode i f p = (case GetNode p i of None \<Rightarrow> p
     | Some n \<Rightarrow> p\<lparr>p_nodeByID := fmupd i (f n) (p_nodeByID p)\<rparr>)"

definition IsStarted :: "Plan \<Rightarrow> bool" where
  "IsStarted p \<longleftrightarrow> p_startedAt p \<noteq> 0"

definition IsFinished :: "Plan \<Rightarrow> bool" where
  "IsFinished p \<longleftrightarrow> p_finishedAt p \<noteq> 0"

definition Plan_Finish :: "int \<Rightarrow> Plan \<Rightarrow> Plan" where
  "Plan_Finish now p = p\<lparr>p_finishedAt := now\<rparr>"

record PlanNodeStates =
  HasRunning :: bool
  HasRetrying :: bool
  HasWaiting :: bool
  HasNotStarted :: bool
  HasRejected :: bool

definition NodeStates :: "Plan \<Rightarrow> PlanNodeStates" where
  "NodeStates p = fold (\<lambda>n s. case n_Status n of
        NodeRunning \<Rightarrow> s\<lparr>HasRunning := True\<rparr>
      | NodeRetrying \<Rightarrow> s\<lparr>HasRetrying := True\<rparr>
      | NodeWaiting \<Rightarrow> s\<lparr>HasWaiting := True\<rparr>
      | NodeNotStarted \<Rightarrow> s\<lparr>HasNotStarted := True\<rparr>
      | NodeRejected \<Rightarrow> s\<lparr>HasRejected := True\<rparr>
      | _ \<Rightarrow> s) (planNodes p)
     \<lparr>HasRunning = False, HasRetrying = False, HasWaiting = False,
      HasNotStarted = False, HasRejected = False\<rparr>"

definition WaitingStepNames :: "Plan \<Rightarrow> string list" where
  "WaitingStepNames p = map n_Name (filter (\<lambda>n. n_Status n = NodeWaiting) (planNodes p))"

definition IsRunning :: "Plan \<Rightarrow> bool" where
  "IsRunning p \<longleftrightarrow> list_ex (\<lambda>n. n_Status n = NodeRunning \<or> n_Status n = NodeRetrying
     \<or> (n_Status n = NodeNotStarted \<and> p_finishedAt p = 0)) (planNodes p)"

definition CheckFinished :: "Plan \<Rightarrow> bool" where
  "CheckFinished p \<longleftrightarrow> list_all (\<lambda>n. \<not> (n_Status n = NodeRunning \<or> n_Status n = NodeRetrying
     \<or> n_Status n = NodeNotStarted)) (planNodes p)"

section \<open>Building a plan\<close>

text \<open>\<open>Node.Init\<close>: take an ID from the counter unless the node has one.\<close>

definition Node_Init :: "nat \<Rightarrow> Node \<Rightarrow> Node \<times> nat" where
  "Node_Init next n = (if n_id n \<noteq> 0 then (n, next) else (n\<lparr>n_id := next\<rparr>, next + 1))"

definition addNode :: "Node \<Rightarrow> Plan \<Rightarrow> Plan" where
  "addNode n p = p\<lparr>p_nodeByID := fmupd (n_id n) n (p_nodeByID p),
     p_nodeByName := fmupd (n_Name n) (n_id n) (p_nodeByName p),
     p_nodes := p_nodes p @ [n_id n]\<rparr>"

fun initNodes :: "nat \<Rightarrow> Node list \<Rightarrow> Plan \<Rightarrow> Plan \<times> nat" where
  "initNodes next [] p = (p, next)"
| "initNodes next (n # ns) p =
     (let (n', next') = Node_Init next n in initNodes next' ns (addNode n' p))"

definition addEdge :: "nat \<Rightarrow> nat \<Rightarrow> Plan \<Rightarrow> Plan" where
  "addEdge from to p = p\<lparr>
     p_DependantMap := fmupd from (goget [] (p_DependantMap p) from @ [to]) (p_DependantMap p),
     p_DependencyMap := fmupd to (goget [] (p_DependencyMap p) to @ [from]) (p_DependencyMap p)\<rparr>"

fun addDeps :: "nat \<Rightarrow> string list \<Rightarrow> Plan \<Rightarrow> (PlanError, Plan) result" where
  "addDeps i [] p = Ok p"
| "addDeps i (d # ds) p = (case GetNodeByName p d of
      None \<Rightarrow> Err (ErrMissingNode d)
    | Some dep \<Rightarrow> addDeps i ds (addEdge dep i p))"

fun addAllDeps :: "nat list \<Rightarrow> Plan \<Rightarrow> (PlanError, Plan) result" where
  "addAllDeps [] p = Ok p"
| "addAllDeps (i # is) p =
     (case addDeps i (case GetNode p i of None \<Rightarrow> [] | Some n \<Rightarrow> st_Depends (n_Step n)) p of
        Inl e \<Rightarrow> Err e
      | Inr p' \<Rightarrow> addAllDeps is p')"

section \<open>Cycle detection\<close>

definition initDegrees :: "Plan \<Rightarrow> (nat, int) fmap" where
  "initDegrees p = fmmap (\<lambda>deps. int (length deps)) (p_DependencyMap p)"

fun kahnRelax :: "nat list \<Rightarrow> (nat, int) fmap \<Rightarrow> nat list \<Rightarrow> (nat, int) fmap \<times> nat list" where
  "kahnRelax [] deg q = (deg, q)"
| "kahnRelax (v # vs) deg q =
     (let d = goget 0 deg v - 1;
          deg' = fmupd v d deg
      in kahnRelax vs deg' (if d = 0 then q @ [v] else q))"

definition posDegrees :: "(nat, int) fmap \<Rightarrow> nat" where
  "posDegrees deg = (\<Sum>k\<in>fset (fmdom deg). nat (goget 0 deg k))"

lemma posDegrees_dec:
  "posDegrees (fmupd v (goget 0 deg v - 1) deg)
     + (if goget 0 deg v - 1 = 0 then 1 else 0) \<le> posDegrees deg"
proof -
  let ?A = "fset (fmdom deg)" and ?f = "\<lambda>k. nat (goget 0 deg k)"
  let ?g = "\<lambda>k. nat (goget 0 (fmupd v (goget 0 deg v - 1) deg) k)"
  have "sum ?g (insert v ?A) = ?g v + sum ?g (?A - {v})"
    by (subst sum.insert_remove) simp_all
  moreover have "sum ?g (?A - {v}) = sum ?f (?A - {v})" by (rule sum.cong) auto
  moreover have "sum ?f ?A = ?f v + sum ?f (?A - {v})"
  proof (cases "v \<in> ?A")
    case True
    then show ?thesis by (simp add: sum.remove)
  next
    case False
    then show ?thesis by (simp add: goget_notin)
  qed
  moreover have "nat (x - 1) + (if x - 1 = 0 then 1 else 0) \<le> nat x" for x :: int by auto
  ultimately show ?thesis by (simp add: posDegrees_def)
qed

lemma kahnRelax_measure:
  "posDegrees (fst (kahnRelax vs deg q)) + length (snd (kahnRelax vs deg q))
     \<le> posDegrees deg + length q"
proof (induction vs arbitrary: deg q)
  case (Cons v vs)
  let ?d = "goget 0 deg v - 1"
  show ?case
    using Cons[of "fmupd v ?d deg" "if ?d = 0 then q @ [v] else q"] posDegrees_dec[of v deg]
    by (simp add: Let_def split: if_splits)
qed simp

function kahnLoop :: "Plan \<Rightarrow> (nat, int) fmap \<Rightarrow> nat list \<Rightarrow> nat \<Rightarrow> nat" where
  "kahnLoop p deg [] processed = processed"
| "kahnLoop p deg (u # queue) processed =
     kahnLoop p (fst (kahnRelax (Dependents p u) deg queue))
       (snd (kahnRelax (Dependents p u) deg queue)) (processed + 1)"
  by pat_completeness auto
termination
  by (relation "measure (\<lambda>(p, deg, q, c). posDegrees deg + length q)")
     (auto intro: le_less_trans[OF kahnRelax_measure])

definition isCyclic :: "Plan \<Rightarrow> bool" where
  "isCyclic p \<longleftrightarrow>
     kahnLoop p (initDegrees p) (filter (\<lambda>i. goget 0 (initDegrees p) i = 0) (p_nodes p)) 0
       \<noteq> length (p_nodes p)"

definition buildEdges :: "Plan \<Rightarrow> (PlanError, Plan) result" where
  "buildEdges p = (case addAllDeps (p_nodes p) p of
      Inl e \<Rightarrow> Err e
    | Inr p' \<Rightarrow> if isCyclic p' then Err ErrCyclicPlan else Ok p')"

definition NewPlan :: "nat \<Rightarrow> int \<Rightarrow> Step list \<Rightarrow> (PlanError, Plan) result \<times> nat" where
  "NewPlan next now steps =
     (let (p, next') = initNodes next (map (\<lambda>s. NewNode s zeroNodeState) steps) (emptyPlan now)
      in (buildEdges p, next'))"

definition NewPlanFromNodes :: "nat \<Rightarrow> int \<Rightarrow> Node list \<Rightarrow> (PlanError, Plan) result \<times> nat" where
  "NewPlanFromNodes next now nodes =
     (let (p, next') = initNodes next nodes (emptyPlan now) in (buildEdges p, next'))"

end
