(* ===== verification/Plan_Graph.thy ===== *)
theory Plan_Graph
  imports Exec_Plan
begin

text \<open>
  Correctness of the plan constructors: the adjacency lists of a built plan are
  inverse to each other, and Kahn's algorithm (\<open>isCyclic\<close>) decides whether the
  dependency graph has a cycle, also with repeated edges.
\<close>

section \<open>The dependency graph and the plan invariant\<close>

definition planEdges :: "Plan \<Rightarrow> (nat \<times> nat) set" where
  "planEdges p = {(u, v). v \<in> set (Dependents p u)}"

definition wfPlan :: "Plan \<Rightarrow> bool" where
  "wfPlan p \<longleftrightarrow> distinct (p_nodes p) \<and> fset (fmdom (p_nodeByID p)) = set (p_nodes p)
     \<and> (\<forall>u v. count_list (Dependencies p v) u = count_list (Dependents p u) v)
     \<and> planEdges p \<subseteq> set (p_nodes p) \<times> set (p_nodes p)"

lemma wfPlan_D:
  assumes "wfPlan p"
  shows "distinct (p_nodes p)" "fset (fmdom (p_nodeByID p)) = set (p_nodes p)"
    "count_list (Dependencies p v) u = count_list (Dependents p u) v"
    "planEdges p \<subseteq> set (p_nodes p) \<times> set (p_nodes p)"
  using assms by (simp_all add: wfPlan_def)

lemma wfPlan_mem:
  assumes "wfPlan p"
  shows "u \<in> set (Dependencies p v) \<longleftrightarrow> v \<in> set (Dependents p u)"
  using wfPlan_D(3)[OF assms, of v u] by (metis count_list_0_iff)

lemma finite_planEdges: "wfPlan p \<Longrightarrow> finite (planEdges p)"
  by (rule finite_subset[OF wfPlan_D(4)]) simp_all

lemma length_sum_count:
  "set xs \<subseteq> A \<Longrightarrow> finite A \<Longrightarrow> length xs = (\<Sum>u\<in>A. count_list xs u)"
  by (simp add: sum_count_set)

lemma wfPlan_indegree:
  assumes "wfPlan p"
  shows "length (Dependencies p v) = (\<Sum>u\<in>set (p_nodes p). count_list (Dependents p u) v)"
proof -
  have "set (Dependencies p v) \<subseteq> set (p_nodes p)"
    using wfPlan_mem[OF assms] wfPlan_D(4)[OF assms] by (auto simp: planEdges_def)
  then show ?thesis
    using length_sum_count[of "Dependencies p v" "set (p_nodes p)"]
    by (simp add: wfPlan_D(3)[OF assms])
qed

section \<open>Kahn's algorithm\<close>

lemma kahnRelax_spec:
  assumes "\<And>w. int (count_list vs w) \<le> goget 0 deg w"
  shows "(\<forall>w. goget 0 (fst (kahnRelax vs deg q)) w = goget 0 deg w - int (count_list vs w))
    \<and> (\<exists>new. snd (kahnRelax vs deg q) = q @ new \<and> distinct new
          \<and> set new = {w \<in> set vs. goget 0 deg w = int (count_list vs w)})"
  using assms
proof (induction vs arbitrary: deg q)
  case Nil
  then show ?case by simp
next
  case (Cons v vs)
  let ?d = "goget 0 deg v - 1" and ?q = "if goget 0 deg v - 1 = 0 then q @ [v] else q"
  let ?deg = "fmupd v ?d deg"
  have le: "int (count_list vs w) \<le> goget 0 ?deg w" for w
    using Cons.prems[of w] by auto
  obtain new where IH: "\<forall>w. goget 0 (fst (kahnRelax vs ?deg ?q)) w = goget 0 ?deg w - int (count_list vs w)"
    "snd (kahnRelax vs ?deg ?q) = ?q @ new" "distinct new"
    "set new = {w \<in> set vs. goget 0 ?deg w = int (count_list vs w)}"
    using Cons.IH[OF le, of ?q] by blast
  have v: "?d = 0 \<Longrightarrow> v \<notin> set vs" using le[of v] by (simp add: count_list_0_iff)
  have v': "?d \<noteq> 0 \<Longrightarrow> ?d = int (count_list vs v) \<Longrightarrow> v \<in> set vs"
    by (metis count_list_0_iff of_nat_0)
  have "\<exists>new. snd (kahnRelax (v # vs) deg q) = q @ new \<and> distinct new
          \<and> set new = {w \<in> set (v # vs). goget 0 deg w = int (count_list (v # vs) w)}"
  proof (cases "?d = 0")
    case True
    have c: "count_list vs v = 0" using v[OF True] by (simp add: count_list_0_iff)
    have "w \<in> set (v # new) \<longleftrightarrow> w \<in> set (v # vs) \<and> goget 0 deg w = int (count_list (v # vs) w)" for w
      using True c v[OF True] unfolding list.set IH(4) by (cases "w = v") simp_all
    then have "set (v # new) = {w \<in> set (v # vs). goget 0 deg w = int (count_list (v # vs) w)}"
      by blast
    moreover have "distinct (v # new)" using IH(3,4) v True by auto
    moreover have "snd (kahnRelax (v # vs) deg q) = q @ (v # new)"
      using IH(2) True by (simp add: Let_def)
    ultimately show ?thesis by blast
  next
    case False
    have "w \<in> set new \<longleftrightarrow> w \<in> set (v # vs) \<and> goget 0 deg w = int (count_list (v # vs) w)" for w
      using v'[OF False] unfolding IH(4) by (cases "w = v") auto
    then have "set new = {w \<in> set (v # vs). goget 0 deg w = int (count_list (v # vs) w)}"
      by blast
    with IH(2,3) False show ?thesis by (auto simp: Let_def)
  qed
  with IH(1) show ?case by (auto simp: Let_def)
qed

text \<open>
  The loop invariant: \<open>P\<close> holds the nodes taken from the queue so far; the
  in-degree table counts the edges that leave the remaining nodes; a node has
  in-degree 0 exactly when it is processed or queued; the processed nodes carry
  a rank that grows along edges.
\<close>

definition kahnInv :: "Plan \<Rightarrow> nat set \<Rightarrow> (nat, int) fmap \<Rightarrow> nat list \<Rightarrow> bool" where
  "kahnInv p P deg q \<longleftrightarrow> distinct q \<and> set q \<inter> P = {} \<and> set q \<union> P \<subseteq> set (p_nodes p)
     \<and> (\<forall>v. goget 0 deg v = (\<Sum>u\<in>set (p_nodes p) - P. int (count_list (Dependents p u) v)))
     \<and> (\<forall>v\<in>set (p_nodes p). goget 0 deg v = 0 \<longleftrightarrow> v \<in> set q \<union> P)
     \<and> (\<exists>f. \<forall>(u, v)\<in>planEdges p. v \<in> P \<longrightarrow> u \<in> P \<and> f u < (f v :: nat))"

lemma kahnInv_no_pred:
  assumes "kahnInv p P deg q" "v \<in> set (p_nodes p)" "v \<in> set q \<union> P" "u \<in> set (p_nodes p)" "u \<notin> P"
  shows "v \<notin> set (Dependents p u)"
proof -
  have "(\<Sum>u\<in>set (p_nodes p) - P. int (count_list (Dependents p u) v)) = 0"
    using assms(1-3) by (auto simp: kahnInv_def)
  then have "\<forall>u\<in>set (p_nodes p) - P. int (count_list (Dependents p u) v) = 0"
    by (simp add: sum_nonneg_eq_0_iff)
  with assms(4,5) show ?thesis by (simp add: count_list_0_iff)
qed

lemma kahnInv_step:
  assumes wf: "wfPlan p" and inv: "kahnInv p P deg (u # q)"
  shows "kahnInv p (insert u P) (fst (kahnRelax (Dependents p u) deg q))
           (snd (kahnRelax (Dependents p u) deg q))"
proof -
  let ?V = "set (p_nodes p)" and ?c = "\<lambda>u v. int (count_list (Dependents p u) v)"
  have u: "u \<in> ?V" "u \<notin> P" and P: "P \<subseteq> ?V" and dist: "distinct q" "u \<notin> set q" "set q \<inter> P = {}"
    and deg: "\<And>v. goget 0 deg v = (\<Sum>u\<in>?V - P. ?c u v)"
    and zero: "\<And>v. v \<in> ?V \<Longrightarrow> goget 0 deg v = 0 \<longleftrightarrow> v \<in> set (u # q) \<union> P"
    using inv by (auto simp: kahnInv_def)
  have split: "goget 0 deg v = ?c u v + (\<Sum>u\<in>?V - insert u P. ?c u v)" for v
    unfolding deg using u
    by (subst sum.remove[of _ u]) (auto simp: Diff_insert2[symmetric] intro!: arg_cong2[where f="(+)"] sum.cong)
  have le: "?c u v \<le> goget 0 deg v" for v unfolding split by (simp add: sum_nonneg)
  obtain new where deg': "\<And>w. goget 0 (fst (kahnRelax (Dependents p u) deg q)) w = goget 0 deg w - ?c u w"
    and q': "snd (kahnRelax (Dependents p u) deg q) = q @ new" and new: "distinct new"
      "set new = {w \<in> set (Dependents p u). goget 0 deg w = ?c u w}"
    using kahnRelax_spec[OF le] by blast
  have newV: "set new \<subseteq> ?V" using new(2) wfPlan_D(4)[OF wf] by (auto simp: planEdges_def)
  have pos: "goget 0 deg w \<noteq> 0" if "w \<in> set new" for w
    using that new(2) by (auto simp: count_list_0_iff)
  have fresh: "w \<notin> set (u # q) \<union> P" if "w \<in> set new" for w
    using pos[OF that] zero[of w] newV that by auto
  have z: "goget 0 deg v - ?c u v = 0 \<longleftrightarrow> v \<in> set (q @ new) \<union> insert u P" if "v \<in> ?V" for v
  proof (cases "goget 0 deg v = 0")
    case True
    then have "?c u v = 0" using le[of v] by simp
    with True zero[OF that] show ?thesis by auto
  next
    case False
    then have "goget 0 deg v = ?c u v \<Longrightarrow> v \<in> set (Dependents p u)"
      by (metis count_list_0_iff of_nat_0)
    then have "v \<in> set new \<longleftrightarrow> goget 0 deg v = ?c u v" unfolding new(2) by blast
    with zero[OF that] False show ?thesis by simp
  qed
  obtain f where f: "\<forall>(x, v)\<in>planEdges p. v \<in> P \<longrightarrow> x \<in> P \<and> f x < (f v :: nat)"
    using inv by (auto simp: kahnInv_def)
  let ?f = "f(u := Suc (Max (insert 0 (f ` P))))"
  have fin: "finite P" using P finite_subset by blast
  have "v \<in> insert u P \<longrightarrow> x \<in> insert u P \<and> ?f x < ?f v" if e: "(x, v) \<in> planEdges p" for x v
  proof (cases "v = u")
    case True
    have "x \<in> ?V" using e wfPlan_D(4)[OF wf] by auto
    then have x: "x \<in> P"
      using kahnInv_no_pred[OF inv u(1), of x] e True by (auto simp: planEdges_def)
    then have "f x \<le> Max (insert 0 (f ` P))" using fin by (intro Max_ge) auto
    with x u True show ?thesis by auto
  next
    case False
    have "v \<in> P \<longrightarrow> x \<in> P \<and> f x < f v" using f e by blast
    with False u(2) show ?thesis by auto
  qed
  then have "\<exists>f. \<forall>(x, v)\<in>planEdges p. v \<in> insert u P \<longrightarrow> x \<in> insert u P \<and> f x < (f v :: nat)"
    by (intro exI[of _ ?f]) blast
  moreover have "distinct (q @ new)" "set (q @ new) \<inter> insert u P = {}"
    using dist new(1) fresh by auto
  moreover have "goget 0 deg v - ?c u v = (\<Sum>u\<in>?V - insert u P. ?c u v)" for v
    using split[of v] by simp
  ultimately show ?thesis
    unfolding kahnInv_def q' deg' using z newV u(1) P inv by (auto simp: kahnInv_def)
qed

lemma kahnLoop_result:
  assumes "wfPlan p" "kahnInv p P deg q" "c = card P"
  shows "\<exists>P' deg'. kahnLoop p deg q c = card P' \<and> kahnInv p P' deg' []"
  using assms
proof (induction p deg q c arbitrary: P rule: kahnLoop.induct)
  case (1 p deg c)
  then show ?case by auto
next
  case (2 p deg u q c)
  have "P \<subseteq> set (p_nodes p)" "u \<notin> P" using 2(3) by (auto simp: kahnInv_def)
  then have "c + 1 = card (insert u P)" using 2(4) by (simp add: finite_subset)
  from 2(1)[OF 2(2) kahnInv_step[OF 2(2,3)] this] show ?case by simp
qed

lemma kahnInv_init:
  assumes "wfPlan p"
  shows "kahnInv p {} (initDegrees p) (filter (\<lambda>i. goget 0 (initDegrees p) i = 0) (p_nodes p))"
proof -
  have "goget 0 (initDegrees p) v = int (length (Dependencies p v))" for v
    by (simp add: initDegrees_def goget_def Dependencies_def split: option.splits)
  then show ?thesis
    using wfPlan_indegree[OF assms] wfPlan_D(1)[OF assms] by (simp add: kahnInv_def)
qed

lemma kahnInv_final:
  assumes wf: "wfPlan p" and inv: "kahnInv p P deg []"
  shows "card P = length (p_nodes p) \<longleftrightarrow> acyclic (planEdges p)"
proof -
  let ?V = "set (p_nodes p)"
  have P: "P \<subseteq> ?V" using inv by (simp add: kahnInv_def)
  have "card ?V = length (p_nodes p)" using wfPlan_D(1)[OF wf] by (rule distinct_card)
  then have all: "card P = length (p_nodes p) \<longleftrightarrow> P = ?V"
    using P by (metis card_subset_eq List.finite_set)
  show ?thesis
  proof
    assume "card P = length (p_nodes p)"
    with all have PV: "P = ?V" by simp
    obtain f where f: "\<forall>(u, v)\<in>planEdges p. v \<in> P \<longrightarrow> u \<in> P \<and> f u < (f v :: nat)"
      using inv unfolding kahnInv_def by blast
    have "planEdges p \<subseteq> measure f" using f wfPlan_D(4)[OF wf] PV by auto
    then show "acyclic (planEdges p)" by (rule acyclic_subset[OF wf_acyclic[OF wf_measure]])
  next
    assume "acyclic (planEdges p)"
    then have wfE: "wf (planEdges p)" using finite_planEdges[OF wf] by (simp add: finite_acyclic_wf)
    have "?V - P = {}"
    proof (rule ccontr)
      assume "?V - P \<noteq> {}"
      then obtain z where z: "z \<in> ?V - P" "\<And>y. (y, z) \<in> planEdges p \<Longrightarrow> y \<notin> ?V - P"
        using wfE by (metis wf_eq_minimal ex_in_conv)
      then have "goget 0 deg z \<noteq> 0" using inv by (auto simp: kahnInv_def)
      then have "(\<Sum>u\<in>?V - P. int (count_list (Dependents p u) z)) \<noteq> 0"
        using inv by (simp add: kahnInv_def)
      then obtain u where "u \<in> ?V - P" "int (count_list (Dependents p u) z) \<noteq> 0"
        by (meson sum.neutral)
      with z(2)[of u] show False by (auto simp: planEdges_def count_list_0_iff)
    qed
    with P all show "card P = length (p_nodes p)" by auto
  qed
qed

lemma isCyclic_correct:
  assumes "wfPlan p"
  shows "isCyclic p \<longleftrightarrow> \<not> acyclic (planEdges p)"
proof -
  obtain P deg where "kahnLoop p (initDegrees p)
      (filter (\<lambda>i. goget 0 (initDegrees p) i = 0) (p_nodes p)) 0 = card P" "kahnInv p P deg []"
    using kahnLoop_result[OF assms kahnInv_init[OF assms], of 0] by auto
  with kahnInv_final[OF assms, of P deg] show ?thesis by (simp add: isCyclic_def)
qed

section \<open>Adding nodes\<close>

text \<open>The nodes of a plan built from nodes without an ID.\<close>

fun freshNodes :: "nat \<Rightarrow> Node list \<Rightarrow> Node list" where
  "freshNodes k [] = []"
| "freshNodes k (n # ns) = n\<lparr>n_id := k\<rparr> # freshNodes (Suc k) ns"

lemma length_freshNodes [simp]: "length (freshNodes k ns) = length ns"
  by (induction ns arbitrary: k) auto

lemma map_id_freshNodes [simp]: "map n_id (freshNodes k ns) = [k..<k + length ns]"
  by (induction ns arbitrary: k) (simp_all add: upt_conv_Cons del: upt_Suc)

lemma set_id_freshNodes: "n_id ` set (freshNodes k ns) = {k..<k + length ns}"
  by (metis map_id_freshNodes set_map set_upt)

lemma map_step_freshNodes [simp]: "map n_Step (freshNodes k ns) = map n_Step ns"
  by (induction ns arbitrary: k) auto

lemma map_state_freshNodes [simp]: "map n_State (freshNodes k ns) = map n_State ns"
  by (induction ns arbitrary: k) auto

lemma initNodes_fresh:
  "0 < k \<Longrightarrow> list_all (\<lambda>n. n_id n = 0) ns \<Longrightarrow>
     initNodes k ns p = (fold addNode (freshNodes k ns) p, k + length ns)"
  by (induction ns arbitrary: k p) (auto simp: Node_Init_def)

lemma addNode_simps [simp]:
  "p_nodes (addNode n p) = p_nodes p @ [n_id n]"
  "p_nodeByID (addNode n p) = fmupd (n_id n) n (p_nodeByID p)"
  "p_nodeByName (addNode n p) = fmupd (n_Name n) (n_id n) (p_nodeByName p)"
  "p_DependencyMap (addNode n p) = p_DependencyMap p"
  "p_DependantMap (addNode n p) = p_DependantMap p"
  "p_startedAt (addNode n p) = p_startedAt p" "p_finishedAt (addNode n p) = p_finishedAt p"
  by (simp_all add: addNode_def)

lemma fold_addNode_nodes [simp]: "p_nodes (fold addNode ns p) = p_nodes p @ map n_id ns"
  by (induction ns arbitrary: p) auto

lemma fold_addNode_maps [simp]:
  "p_DependencyMap (fold addNode ns p) = p_DependencyMap p"
  "p_DependantMap (fold addNode ns p) = p_DependantMap p"
  by (induction ns arbitrary: p) auto

lemma fold_addNode_lookup_other:
  "i \<notin> n_id ` set ns \<Longrightarrow> GetNode (fold addNode ns p) i = GetNode p i"
  by (induction ns arbitrary: p) (auto simp: GetNode_def)

lemma fold_addNode_lookup:
  "distinct (map n_id ns) \<Longrightarrow> n \<in> set ns \<Longrightarrow> GetNode (fold addNode ns p) (n_id n) = Some n"
proof (induction ns arbitrary: p)
  case (Cons m ns)
  show ?case
  proof (cases "n = m")
    case True
    with Cons.prems show ?thesis
      using fold_addNode_lookup_other[of "n_id m" ns "addNode m p"] by (simp add: GetNode_def)
  next
    case False
    with Cons show ?thesis by simp
  qed
qed simp

lemma fold_addNode_name_other:
  "s \<notin> n_Name ` set ns \<Longrightarrow> GetNodeByName (fold addNode ns p) s = GetNodeByName p s"
  by (induction ns arbitrary: p) (auto simp: GetNodeByName_def)

lemma fold_addNode_name:
  "distinct (map n_Name ns) \<Longrightarrow> n \<in> set ns
     \<Longrightarrow> GetNodeByName (fold addNode ns p) (n_Name n) = Some (n_id n)"
proof (induction ns arbitrary: p)
  case (Cons m ns)
  show ?case
  proof (cases "n = m")
    case True
    with Cons.prems show ?thesis
      using fold_addNode_name_other[of "n_Name m" ns "addNode m p"] by (simp add: GetNodeByName_def)
  next
    case False
    with Cons show ?thesis by simp
  qed
qed simp

lemma fold_addNode_name_dom:
  "GetNodeByName (fold addNode ns p) s = Some i \<Longrightarrow>
     GetNodeByName p s = Some i \<or> (\<exists>n\<in>set ns. n_id n = i \<and> n_Name n = s)"
  by (induction ns arbitrary: p) (fastforce simp: GetNodeByName_def split: if_splits)+

lemma fold_addNode_dom:
  "fset (fmdom (p_nodeByID (fold addNode ns p))) = fset (fmdom (p_nodeByID p)) \<union> n_id ` set ns"
  by (induction ns arbitrary: p) auto

section \<open>Adding edges\<close>

text \<open>The IDs that a node's \<open>Depends\<close> list resolves to.\<close>

definition dependsOf :: "Plan \<Rightarrow> nat \<Rightarrow> string list" where
  "dependsOf p i = (case GetNode p i of None \<Rightarrow> [] | Some n \<Rightarrow> st_Depends (n_Step n))"

definition resolveIDs :: "Plan \<Rightarrow> string list \<Rightarrow> nat list" where
  "resolveIDs p ds = map (\<lambda>d. the (GetNodeByName p d)) ds"

lemma addEdge_simps [simp]:
  "Dependents (addEdge a b p) u = (if u = a then Dependents p a @ [b] else Dependents p u)"
  "Dependencies (addEdge a b p) v = (if v = b then Dependencies p b @ [a] else Dependencies p v)"
  "GetNode (addEdge a b p) = GetNode p" "GetNodeByName (addEdge a b p) = GetNodeByName p"
  "p_nodes (addEdge a b p) = p_nodes p" "p_nodeByID (addEdge a b p) = p_nodeByID p"
  "p_nodeByName (addEdge a b p) = p_nodeByName p"
  by (simp_all add: addEdge_def Dependents_def Dependencies_def GetNode_def GetNodeByName_def fun_eq_iff)

lemma addDeps_frame:
  "addDeps i ds p = Inr p' \<Longrightarrow> p_nodes p' = p_nodes p \<and> p_nodeByID p' = p_nodeByID p
     \<and> p_nodeByName p' = p_nodeByName p \<and> p_startedAt p' = p_startedAt p
     \<and> p_finishedAt p' = p_finishedAt p"
  by (induction i ds p rule: addDeps.induct) (auto simp: addEdge_def split: option.splits)

lemma addDeps_edges:
  "addDeps i ds p = Inr p' \<Longrightarrow>
     (\<forall>v. Dependencies p' v = Dependencies p v @ (if v = i then resolveIDs p ds else []))
   \<and> (\<forall>u. Dependents p' u = Dependents p u @ replicate (count_list (resolveIDs p ds) u) i)"
proof (induction i ds p rule: addDeps.induct)
  case (2 i d ds p)
  from 2(2) obtain dep where d: "GetNodeByName p d = Some dep"
    and ok: "addDeps i ds (addEdge dep i p) = Inr p'"
    by (auto split: option.splits)
  have r: "resolveIDs (addEdge dep i p) ds = resolveIDs p ds" by (simp add: resolveIDs_def)
  have c: "resolveIDs p (d # ds) = dep # resolveIDs p ds" using d by (simp add: resolveIDs_def)
  have rep: "[i] @ replicate n i = replicate (Suc n) i" for n by simp
  show ?case using 2(1)[OF d ok] unfolding r c by (auto simp: replicate_append_same)
qed (simp add: resolveIDs_def)

lemma addDeps_ok: "(\<exists>p'. addDeps i ds p = Inr p') \<longleftrightarrow> (\<forall>d\<in>set ds. GetNodeByName p d \<noteq> None)"
  by (induction i ds p rule: addDeps.induct) (auto split: option.splits)

lemma addDeps_missing:
  "addDeps i ds p = Inl e \<Longrightarrow> \<exists>d\<in>set ds. e = ErrMissingNode d \<and> GetNodeByName p d = None"
  by (induction i ds p rule: addDeps.induct) (auto split: option.splits)

lemma addDeps_get:
  assumes "addDeps i ds p = Inr p'"
  shows "GetNode p' = GetNode p" "GetNodeByName p' = GetNodeByName p"
    "dependsOf p' = dependsOf p" "resolveIDs p' = resolveIDs p"
  using addDeps_frame[OF assms]
  by (simp_all add: GetNode_def GetNodeByName_def dependsOf_def resolveIDs_def fun_eq_iff)

lemma addAllDeps_frame:
  "addAllDeps is p = Inr p' \<Longrightarrow> p_nodes p' = p_nodes p \<and> p_nodeByID p' = p_nodeByID p
     \<and> p_nodeByName p' = p_nodeByName p \<and> p_startedAt p' = p_startedAt p
     \<and> p_finishedAt p' = p_finishedAt p"
  by (induction "is" arbitrary: p) (auto split: sum.splits dest!: addDeps_frame)

lemma addAllDeps_edges:
  "addAllDeps is p = Inr p' \<Longrightarrow>
     (\<forall>v. Dependencies p' v = Dependencies p v
        @ concat (map (\<lambda>i. if v = i then resolveIDs p (dependsOf p i) else []) is))
   \<and> (\<forall>u. Dependents p' u = Dependents p u
        @ concat (map (\<lambda>i. replicate (count_list (resolveIDs p (dependsOf p i)) u) i) is))"
proof (induction "is" arbitrary: p)
  case (Cons i "is")
  from Cons.prems obtain q where q: "addDeps i (dependsOf p i) p = Inr q"
    and ok: "addAllDeps is q = Inr p'"
    by (auto simp: dependsOf_def split: sum.splits)
  show ?case using Cons.IH[OF ok, unfolded addDeps_get[OF q]] addDeps_edges[OF q] by simp
qed simp

lemma addAllDeps_ok:
  "(\<exists>p'. addAllDeps is p = Inr p') \<longleftrightarrow>
     (\<forall>i\<in>set is. \<forall>d\<in>set (dependsOf p i). GetNodeByName p d \<noteq> None)"
proof (induction "is" arbitrary: p)
  case (Cons i "is")
  show ?case
  proof (cases "addDeps i (dependsOf p i) p")
    case (Inl e)
    then show ?thesis using addDeps_ok[of i "dependsOf p i" p] by (auto simp: dependsOf_def)
  next
    case (Inr q)
    have "\<forall>d\<in>set (dependsOf p i). GetNodeByName p d \<noteq> None"
      using addDeps_ok[of i "dependsOf p i" p] Inr by blast
    then show ?thesis
      using Inr Cons.IH[of q] addDeps_get[OF Inr] by (simp add: dependsOf_def)
  qed
qed simp

lemma addAllDeps_missing:
  "addAllDeps is p = Inl e \<Longrightarrow>
     \<exists>i\<in>set is. \<exists>d\<in>set (dependsOf p i). e = ErrMissingNode d \<and> GetNodeByName p d = None"
proof (induction "is" arbitrary: p)
  case (Cons i "is")
  show ?case
  proof (cases "addDeps i (dependsOf p i) p")
    case (Inl e')
    then show ?thesis using Cons.prems addDeps_missing[OF Inl] by (auto simp: dependsOf_def)
  next
    case (Inr q)
    have "addAllDeps is q = Inl e" using Cons.prems Inr by (simp add: dependsOf_def)
    from Cons.IH[OF this] show ?thesis unfolding addDeps_get[OF Inr] by auto
  qed
qed simp

section \<open>Built plans are well-formed\<close>

lemma count_list_pos_iff: "0 < count_list xs x \<longleftrightarrow> x \<in> set xs"
  using count_list_0_iff[of xs x] by auto

lemma count_list_replicate_eq: "count_list (replicate n x) v = (if v = x then n else 0)"
  by (induction n) auto

lemma count_list_concat_replicate:
  "distinct is \<Longrightarrow> count_list (concat (map (\<lambda>i. replicate (c i) i) is)) v =
     (if v \<in> set is then c v else 0)"
  by (induction "is") (auto simp: count_list_replicate_eq)

lemma concat_select:
  "distinct is \<Longrightarrow> concat (map (\<lambda>i. if v = i then f i else []) is) = (if v \<in> set is then f v else [])"
  by (induction "is") auto

definition nodesPlan :: "int \<Rightarrow> Node list \<Rightarrow> Plan" where
  "nodesPlan now ns = fold addNode ns (emptyPlan now)"

lemma nodesPlan_simps [simp]:
  "p_nodes (nodesPlan now ns) = map n_id ns"
  "fset (fmdom (p_nodeByID (nodesPlan now ns))) = n_id ` set ns"
  "Dependents (nodesPlan now ns) u = []" "Dependencies (nodesPlan now ns) u = []"
  by (simp_all add: nodesPlan_def emptyPlan_def fold_addNode_dom Dependents_def Dependencies_def)

lemma nodesPlan_name_dom:
  "GetNodeByName (nodesPlan now ns) d = Some i \<Longrightarrow> i \<in> n_id ` set ns"
  using fold_addNode_name_dom[of ns "emptyPlan now" d i]
  by (auto simp: nodesPlan_def emptyPlan_def GetNodeByName_def)

lemma built_edges:
  assumes "distinct (map n_id ns)" "addAllDeps (map n_id ns) (nodesPlan now ns) = Inr p"
  shows "Dependencies p v = (if v \<in> n_id ` set ns
      then resolveIDs (nodesPlan now ns) (dependsOf (nodesPlan now ns) v) else [])"
    and "count_list (Dependents p u) v = (if v \<in> n_id ` set ns
      then count_list (resolveIDs (nodesPlan now ns) (dependsOf (nodesPlan now ns) v)) u else 0)"
  using addAllDeps_edges[OF assms(2)] assms(1)
  by (simp_all add: concat_select count_list_concat_replicate del: map_map)

lemma built_wf:
  assumes d: "distinct (map n_id ns)"
    and ok: "addAllDeps (map n_id ns) (nodesPlan now ns) = Inr p"
  shows "wfPlan p"
proof -
  let ?q = "nodesPlan now ns"
  have named: "\<forall>v\<in>set (map n_id ns). \<forall>d\<in>set (dependsOf ?q v). GetNodeByName ?q d \<noteq> None"
    using addAllDeps_ok[of "map n_id ns" ?q] ok by blast
  have c: "count_list (Dependencies p v) u = count_list (Dependents p u) v" for u v
    using built_edges[OF d ok] by simp
  have "u \<in> n_id ` set ns \<and> v \<in> n_id ` set ns" if "v \<in> set (Dependents p u)" for u v
  proof -
    have "count_list (Dependents p u) v \<noteq> 0" using that by (simp add: count_list_0_iff)
    then have v: "v \<in> n_id ` set ns" and "u \<in> set (resolveIDs ?q (dependsOf ?q v))"
      unfolding built_edges(2)[OF d ok] by (auto simp: count_list_pos_iff split: if_splits)
    then obtain e where e: "e \<in> set (dependsOf ?q v)" "u = the (GetNodeByName ?q e)"
      by (auto simp: resolveIDs_def)
    with named v nodesPlan_name_dom[of now ns e] show ?thesis by fastforce
  qed
  with c addAllDeps_frame[OF ok] d show ?thesis by (auto simp: wfPlan_def planEdges_def)
qed

lemma buildEdges_wf: "distinct (map n_id ns) \<Longrightarrow> buildEdges (nodesPlan now ns) = Inr p
    \<Longrightarrow> wfPlan p \<and> acyclic (planEdges p) \<and> addAllDeps (map n_id ns) (nodesPlan now ns) = Inr p"
  using built_wf[of ns now] isCyclic_correct[of p]
  by (auto simp: buildEdges_def split: sum.splits if_splits)

lemma initNodes_nodesPlan:
  assumes "0 < k" "list_all (\<lambda>n. n_id n = 0) ns"
  shows "initNodes k ns (emptyPlan now) = (nodesPlan now (freshNodes k ns), k + length ns)"
  using initNodes_fresh[OF assms] by (simp add: nodesPlan_def)

lemma NewPlan_eq:
  assumes "0 < k"
  shows "NewPlan k now steps =
    (buildEdges (nodesPlan now (freshNodes k (map (\<lambda>s. NewNode s zeroNodeState) steps))),
     k + length steps)"
  using initNodes_nodesPlan[OF assms, of "map (\<lambda>s. NewNode s zeroNodeState) steps" now]
  by (simp add: NewPlan_def NewNode_def list_all_iff)

section \<open>Acyclicity at the level of step names\<close>

definition stepEdges :: "Step list \<Rightarrow> (string \<times> string) set" where
  "stepEdges steps = {(d, st_Name s) | d s. s \<in> set steps \<and> d \<in> set (st_Depends s)}"

lemma trancl_map_prod:
  "(a, b) \<in> r\<^sup>+ \<Longrightarrow> (f a, f b) \<in> (map_prod f f ` r)\<^sup>+"
  by (induction rule: trancl_induct) (auto intro: trancl_into_trancl)

lemma trancl_in_Field: "(a, b) \<in> r\<^sup>+ \<Longrightarrow> a \<in> Field r \<and> b \<in> Field r"
  by (auto simp: Field_def dest: tranclD tranclD2)

lemma trancl_map_prod_inj:
  assumes "inj_on f (Field r)" "(x, y) \<in> (map_prod f f ` r)\<^sup>+"
  shows "\<exists>a b. x = f a \<and> y = f b \<and> (a, b) \<in> r\<^sup>+"
  using assms(2)
proof (induction rule: trancl_induct)
  case (step y z)
  then obtain a b c d where "x = f a" "y = f b" "(a, b) \<in> r\<^sup>+" "y = f c" "z = f d" "(c, d) \<in> r"
    by auto
  moreover from this have "b = c"
    using assms(1) by (auto simp: inj_on_def Field_def dest!: tranclD2)
  ultimately show ?case by (auto intro: trancl_into_trancl)
qed auto

lemma acyclic_map_prod:
  assumes "inj_on f (Field r)"
  shows "acyclic (map_prod f f ` r) \<longleftrightarrow> acyclic r"
proof
  assume "acyclic (map_prod f f ` r)"
  then show "acyclic r" unfolding acyclic_def by (blast dest: trancl_map_prod)
next
  assume a: "acyclic r"
  have "(x, x) \<notin> (map_prod f f ` r)\<^sup>+" for x
  proof
    assume "(x, x) \<in> (map_prod f f ` r)\<^sup>+"
    from trancl_map_prod_inj[OF assms this] obtain c d where
      "f c = f d" "(c, d) \<in> r\<^sup>+" by metis
    moreover from this have "c = d"
      using assms trancl_in_Field[of c d r] by (auto dest: inj_onD)
    ultimately show False using a by (auto simp: acyclic_def)
  qed
  then show "acyclic (map_prod f f ` r)" by (simp add: acyclic_def)
qed

abbreviation stepNodes :: "nat \<Rightarrow> Step list \<Rightarrow> Node list" where
  "stepNodes k steps \<equiv> freshNodes k (map (\<lambda>s. NewNode s zeroNodeState) steps)"

lemma stepNodes_steps: "map n_Step (stepNodes k steps) = steps"
  by (simp add: o_def NewNode_def)

lemma stepNodes_mem: "n \<in> set (stepNodes k steps) \<Longrightarrow> n_Step n \<in> set steps"
  using stepNodes_steps[of k steps] by (metis image_eqI set_map)

lemma stepNodes_ex: "s \<in> set steps \<Longrightarrow> \<exists>n\<in>set (stepNodes k steps). n_Step n = s"
  using stepNodes_steps[of k steps] by (metis (no_types, lifting) imageE set_map)

lemma stepNodes_name_ex:
  assumes "a \<in> st_Name ` set steps"
  obtains n where "n \<in> set (stepNodes k steps)" "n_Name n = a"
  using assms stepNodes_ex[of _ steps k] by blast

lemma stepNodes_names: "map n_Name (stepNodes k steps) = map st_Name steps"
  by (metis (no_types) stepNodes_steps map_map comp_apply map_eq_conv)

lemma step_idOf:
  assumes names: "distinct (map st_Name steps)" and n: "n \<in> set (stepNodes k steps)"
  shows "GetNodeByName (nodesPlan now (stepNodes k steps)) (n_Name n) = Some (n_id n)"
  unfolding nodesPlan_def
  by (rule fold_addNode_name[OF _ n]) (simp only: stepNodes_names names)

lemma step_nodeOf:
  assumes "n \<in> set (stepNodes k steps)"
  shows "GetNode (nodesPlan now (stepNodes k steps)) (n_id n) = Some n"
  unfolding nodesPlan_def by (rule fold_addNode_lookup[OF _ assms]) simp

lemma step_named:
  assumes "distinct (map st_Name steps)"
  shows "GetNodeByName (nodesPlan now (stepNodes k steps)) d \<noteq> None \<longleftrightarrow> d \<in> st_Name ` set steps"
proof -
  have 1: "d \<notin> n_Name ` set (stepNodes k steps) \<Longrightarrow>
      GetNodeByName (nodesPlan now (stepNodes k steps)) d = None"
    unfolding nodesPlan_def
    by (subst fold_addNode_name_other) (auto simp: emptyPlan_def GetNodeByName_def)
  have 2: "n_Name ` set (stepNodes k steps) = st_Name ` set steps"
    using stepNodes_names[of k steps] by (metis set_map)
  have 3: "GetNodeByName (nodesPlan now (stepNodes k steps)) d \<noteq> None"
    if "d \<in> n_Name ` set (stepNodes k steps)"
    using step_idOf[OF assms] that by auto
  show ?thesis using 1 3 unfolding 2 by (cases "d \<in> st_Name ` set steps") simp_all
qed

lemma step_idOf_inj:
  assumes "distinct (map st_Name steps)"
  shows "inj_on (\<lambda>d. the (GetNodeByName (nodesPlan now (stepNodes k steps)) d)) (st_Name ` set steps)"
proof (rule inj_onI)
  let ?g = "\<lambda>d. the (GetNodeByName (nodesPlan now (stepNodes k steps)) d)"
  fix a b assume a: "a \<in> st_Name ` set steps" and b: "b \<in> st_Name ` set steps"
    and eq: "?g a = ?g b"
  obtain m where m: "m \<in> set (stepNodes k steps)" "n_Name m = a" by (rule stepNodes_name_ex[OF a])
  obtain n where n: "n \<in> set (stepNodes k steps)" "n_Name n = b" by (rule stepNodes_name_ex[OF b])
  have mn: "m \<in> set (stepNodes k steps)" "n_Name m = a"
    "n \<in> set (stepNodes k steps)" "n_Name n = b" using m n by auto
  then have "n_id m = n_id n" using eq step_idOf[OF assms] by auto
  then have "m = n"
    using mn(1,3) distinct_map[of n_id "stepNodes k steps"] by (auto dest: inj_onD)
  with mn show "a = b" by simp
qed

lemma step_planEdges:
  assumes names: "distinct (map st_Name steps)"
    and built: "addAllDeps (map n_id (stepNodes k steps)) (nodesPlan now (stepNodes k steps)) = Inr p"
  shows "planEdges p = map_prod (\<lambda>d. the (GetNodeByName (nodesPlan now (stepNodes k steps)) d))
      (\<lambda>d. the (GetNodeByName (nodesPlan now (stepNodes k steps)) d)) ` stepEdges steps"
    (is "_ = map_prod ?g ?g ` _")
proof -
  let ?ns = "stepNodes k steps" and ?q = "nodesPlan now (stepNodes k steps)"
  have d: "distinct (map n_id ?ns)" by simp
  have e: "(u, v) \<in> planEdges p \<longleftrightarrow> v \<in> n_id ` set ?ns \<and> u \<in> set (resolveIDs ?q (dependsOf ?q v))" for u v
  proof -
    have "(u, v) \<in> planEdges p \<longleftrightarrow> 0 < count_list (Dependents p u) v"
      by (simp add: planEdges_def count_list_pos_iff)
    then show ?thesis unfolding built_edges(2)[OF d built] by (simp add: count_list_pos_iff)
  qed
  have deps: "dependsOf ?q (n_id n) = st_Depends (n_Step n)" if "n \<in> set ?ns" for n
    using step_nodeOf[OF that] by (simp add: dependsOf_def)
  show ?thesis
  proof (rule set_eqI, clarify)
    fix u v
    have "(u, v) \<in> planEdges p \<longleftrightarrow> (\<exists>n\<in>set ?ns. v = n_id n \<and> u \<in> ?g ` set (st_Depends (n_Step n)))"
      using e[of u v] deps by (auto simp: resolveIDs_def)
    also have "\<dots> \<longleftrightarrow> (\<exists>n\<in>set ?ns. v = ?g (n_Name n) \<and> u \<in> ?g ` set (st_Depends (n_Step n)))"
      using step_idOf[OF names] by simp
    also have "\<dots> \<longleftrightarrow> (\<exists>s\<in>set (map n_Step ?ns). v = ?g (st_Name s) \<and> u \<in> ?g ` set (st_Depends s))"
      unfolding set_map by blast
    also have "\<dots> \<longleftrightarrow> (\<exists>s\<in>set steps. v = ?g (st_Name s) \<and> u \<in> ?g ` set (st_Depends s))"
      unfolding stepNodes_steps ..
    also have "\<dots> \<longleftrightarrow> (u, v) \<in> map_prod ?g ?g ` stepEdges steps"
      by (auto simp: stepEdges_def image_iff)
    finally show "(u, v) \<in> planEdges p \<longleftrightarrow> (u, v) \<in> map_prod ?g ?g ` stepEdges steps" .
  qed
qed

definition dependsNamed :: "Step list \<Rightarrow> bool" where
  "dependsNamed steps \<longleftrightarrow> (\<forall>s\<in>set steps. set (st_Depends s) \<subseteq> st_Name ` set steps)"

lemma step_addAllDeps_ok:
  assumes "distinct (map st_Name steps)"
  shows "(\<exists>p. addAllDeps (map n_id (stepNodes k steps)) (nodesPlan now (stepNodes k steps)) = Inr p)
           \<longleftrightarrow> dependsNamed steps"
proof -
  let ?ns = "stepNodes k steps" and ?q = "nodesPlan now (stepNodes k steps)"
  have "dependsOf ?q (n_id n) = st_Depends (n_Step n)" if "n \<in> set ?ns" for n
    using step_nodeOf[OF that] by (simp add: dependsOf_def)
  then have "(\<forall>i\<in>set (map n_id ?ns). \<forall>d\<in>set (dependsOf ?q i). GetNodeByName ?q d \<noteq> None)
      \<longleftrightarrow> (\<forall>n\<in>set ?ns. \<forall>d\<in>set (st_Depends (n_Step n)). d \<in> st_Name ` set steps)"
    by (simp add: step_named[OF assms] del: map_id_freshNodes not_None_eq)
  also have "\<dots> \<longleftrightarrow> (\<forall>s\<in>set (map n_Step ?ns). \<forall>d\<in>set (st_Depends s). d \<in> st_Name ` set steps)"
    unfolding set_map by blast
  also have "\<dots> \<longleftrightarrow> dependsNamed steps"
    unfolding stepNodes_steps dependsNamed_def by blast
  finally show ?thesis unfolding addAllDeps_ok .
qed

lemma step_acyclic:
  assumes names: "distinct (map st_Name steps)" and named: "dependsNamed steps"
    and built: "addAllDeps (map n_id (stepNodes k steps)) (nodesPlan now (stepNodes k steps)) = Inr p"
  shows "acyclic (planEdges p) \<longleftrightarrow> acyclic (stepEdges steps)"
proof -
  have "Field (stepEdges steps) \<subseteq> st_Name ` set steps"
    using named by (auto simp: stepEdges_def Field_def dependsNamed_def)
  then show ?thesis
    unfolding step_planEdges[OF names built]
    by (intro acyclic_map_prod inj_on_subset[OF step_idOf_inj[OF names]])
qed

lemma NewPlan_cases:
  assumes "0 < k" "distinct (map st_Name steps)"
  obtains (missing) d where "fst (NewPlan k now steps) = Err (ErrMissingNode d)"
      "\<not> dependsNamed steps"
  | (cyclic) "fst (NewPlan k now steps) = Err ErrCyclicPlan" "dependsNamed steps"
      "\<not> acyclic (stepEdges steps)"
  | (ok) p where "fst (NewPlan k now steps) = Ok p" "dependsNamed steps"
      "acyclic (stepEdges steps)" "wfPlan p" "acyclic (planEdges p)"
      "addAllDeps (map n_id (stepNodes k steps)) (nodesPlan now (stepNodes k steps)) = Inr p"
proof -
  let ?ns = "stepNodes k steps" and ?q = "nodesPlan now (stepNodes k steps)"
  have eq: "fst (NewPlan k now steps) = buildEdges ?q" using NewPlan_eq[OF assms(1)] by simp
  show ?thesis
  proof (cases "addAllDeps (map n_id ?ns) ?q")
    case (Inl e)
    then obtain d where "e = ErrMissingNode d" using addAllDeps_missing[OF Inl] by auto
    with Inl missing step_addAllDeps_ok[OF assms(2), of k now] show ?thesis
      by (simp add: eq buildEdges_def)
  next
    case (Inr p)
    then have named: "dependsNamed steps" using step_addAllDeps_ok[OF assms(2), of k now] by blast
    have wf: "wfPlan p" using built_wf[OF _ Inr] by simp
    note ac = step_acyclic[OF assms(2) named Inr]
    show ?thesis
    proof (cases "isCyclic p")
      case True
      with Inr have "fst (NewPlan k now steps) = Err ErrCyclicPlan" by (simp add: eq buildEdges_def)
      with cyclic named ac isCyclic_correct[OF wf] True show ?thesis by blast
    next
      case False
      with Inr have "fst (NewPlan k now steps) = Ok p" by (simp add: eq buildEdges_def)
      with ok[OF this named _ wf _ Inr] ac isCyclic_correct[OF wf] False show ?thesis by blast
    qed
  qed
qed

text \<open>C30: \<open>NewPlan\<close> builds a plan exactly when every dependency names a step and the dependency
  relation of the step names has no cycle, and reports a cycle exactly when there is one.\<close>

theorem NewPlan_detects_cycles:
  assumes "0 < k" "distinct (map st_Name steps)"
  shows "((\<exists>p. fst (NewPlan k now steps) = Ok p) \<longleftrightarrow> dependsNamed steps \<and> acyclic (stepEdges steps))
    \<and> (fst (NewPlan k now steps) = Err ErrCyclicPlan
           \<longleftrightarrow> dependsNamed steps \<and> \<not> acyclic (stepEdges steps))"
  by (cases rule: NewPlan_cases[OF assms, of now]) auto

definition chainSteps :: "Step list" where
  "chainSteps = [zeroStep\<lparr>st_Name := ''a'', st_Depends := [''b'']\<rparr>,
                 zeroStep\<lparr>st_Name := ''b''\<rparr>]"

definition loopSteps :: "Step list" where
  "loopSteps = [zeroStep\<lparr>st_Name := ''a'', st_Depends := [''b'']\<rparr>,
                zeroStep\<lparr>st_Name := ''b'', st_Depends := [''a'']\<rparr>]"

theorem NewPlan_detects_cycles_witness:
  "distinct (map st_Name chainSteps) \<and> acyclic (stepEdges chainSteps)
   \<and> distinct (map st_Name loopSteps) \<and> \<not> acyclic (stepEdges loopSteps)"
proof -
  have d: "distinct (map st_Name chainSteps)" "distinct (map st_Name loopSteps)"
    by (simp_all add: chainSteps_def loopSteps_def)
  have "\<not> isl (fst (NewPlan 1 5 chainSteps))" by code_simp
  then have "\<exists>p. fst (NewPlan 1 5 chainSteps) = Ok p" by (cases "fst (NewPlan 1 5 chainSteps)") auto
  moreover have "(case fst (NewPlan 1 5 loopSteps) of Inl ErrCyclicPlan \<Rightarrow> True | _ \<Rightarrow> False)"
    by code_simp
  then have "fst (NewPlan 1 5 loopSteps) = Err ErrCyclicPlan"
    by (simp split: sum.splits PlanError.splits)
  ultimately show ?thesis
    using NewPlan_detects_cycles[OF _ d(1), of 1 5] NewPlan_detects_cycles[OF _ d(2), of 1 5] d by simp
qed

end
