(* ===== verification/Plan_Retry.thy ===== *)
theory Plan_Retry
  imports Plan_Graph
begin

text \<open>
  Retry plans of \<open>internal/runtime/plan.go\<close>: \<open>CreateRetryPlan\<close> resets the failed
  nodes of an earlier run with everything downstream of them, and
  \<open>CreateStepRetryPlan\<close> resets a single step.  The breadth-first loop of
  \<open>setupRetry\<close> keeps no set of visited nodes and would run forever on a cyclic
  graph, so it is a \<open>partial_function\<close>: not returning is \<open>None\<close>.
\<close>

section \<open>Operations\<close>

definition stepsByName :: "Step list \<Rightarrow> string \<rightharpoonup> Step" where
  "stepsByName steps = fold (\<lambda>s m. m(st_Name s \<mapsto> s)) steps Map.empty"

fun rebindRetryNodesToSteps ::
  "(string \<rightharpoonup> Step) \<Rightarrow> Node list \<Rightarrow> (PlanError, Node list) result" where
  "rebindRetryNodesToSteps steps [] = Ok []"
| "rebindRetryNodesToSteps steps (n # ns) = (case steps (n_Name n) of
      None \<Rightarrow> Err (ErrMissingNode (n_Name n))
    | Some st \<Rightarrow> (case rebindRetryNodesToSteps steps ns of
          Inl e \<Rightarrow> Err e
        | Inr ns' \<Rightarrow> Ok (SetStep st n # ns')))"

definition retryableStatus :: "NodeStatus \<Rightarrow> bool" where
  "retryableStatus s \<longleftrightarrow> s = NodeFailed \<or> s = NodeRetrying \<or> s = NodeAborted \<or> s = NodeRejected"

text \<open>One visit of the loop: plan, nodes marked for retry, next frontier.\<close>

definition retryVisit ::
  "(string \<rightharpoonup> Step) \<Rightarrow> (nat \<Rightarrow> NodeStatus) \<Rightarrow> nat \<Rightarrow> Plan \<times> nat set \<times> nat list
     \<Rightarrow> (PlanError, Plan \<times> nat set \<times> nat list) result" where
  "retryVisit steps nodeStatus u = (\<lambda>(p, toRetry, next).
     let propagate = (\<lambda>p toRetry.
           (p, (if u \<in> toRetry then toRetry \<union> set (Dependents p u) else toRetry),
            next @ Dependents p u))
     in if u \<in> toRetry \<or> retryableStatus (nodeStatus u) then
          (case GetNode p u of
             None \<Rightarrow> Ok (propagate p (insert u toRetry))
           | Some n \<Rightarrow>
               (case steps (n_Name n) of
                  None \<Rightarrow> Err (ErrMissingNode (n_Name n))
                | Some st \<Rightarrow> Ok (propagate (updNode u (ClearState st) p) (insert u toRetry))))
        else Ok (propagate p toRetry))"

fun retryLevel ::
  "(string \<rightharpoonup> Step) \<Rightarrow> (nat \<Rightarrow> NodeStatus) \<Rightarrow> nat list \<Rightarrow> Plan \<times> nat set \<times> nat list
     \<Rightarrow> (PlanError, Plan \<times> nat set \<times> nat list) result" where
  "retryLevel steps nodeStatus [] st = Ok st"
| "retryLevel steps nodeStatus (u # us) st = (case retryVisit steps nodeStatus u st of
      Inl e \<Rightarrow> Err e
    | Inr st' \<Rightarrow> retryLevel steps nodeStatus us st')"

partial_function (option) retryLoop ::
  "(string \<rightharpoonup> Step) \<Rightarrow> (nat \<Rightarrow> NodeStatus) \<Rightarrow> nat list \<Rightarrow> Plan \<Rightarrow> nat set
     \<Rightarrow> (PlanError, Plan) result option" where
  "retryLoop steps nodeStatus frontier p toRetry =
     (if frontier = [] then Some (Ok p)
      else (case retryLevel steps nodeStatus frontier (p, toRetry, []) of
              Inl e \<Rightarrow> Some (Err e)
            | Inr (p', toRetry', next) \<Rightarrow> retryLoop steps nodeStatus next p' toRetry'))"

declare retryLoop.simps [code]

definition setupRetry :: "(string \<rightharpoonup> Step) \<Rightarrow> Plan \<Rightarrow> (PlanError, Plan) result option" where
  "setupRetry steps p =
     retryLoop steps (statusOf p) (filter (\<lambda>i. Dependencies p i = []) (p_nodes p)) p {}"

definition CreateRetryPlan ::
  "nat \<Rightarrow> int \<Rightarrow> Step list \<Rightarrow> Node list \<Rightarrow> (PlanError, Plan) result option" where
  "CreateRetryPlan next now dagSteps nodes =
     (let steps = stepsByName dagSteps
      in case rebindRetryNodesToSteps steps nodes of
           Inl e \<Rightarrow> Some (Err e)
         | Inr nodes' \<Rightarrow>
            (case buildEdges (fst (initNodes next nodes' (emptyPlan now))) of
               Inl e \<Rightarrow> Some (Err e)
             | Inr p \<Rightarrow> setupRetry steps p))"

definition CreateStepRetryPlan ::
  "nat \<Rightarrow> int \<Rightarrow> Step list \<Rightarrow> Node list \<Rightarrow> string \<Rightarrow> (PlanError, Plan) result" where
  "CreateStepRetryPlan next now dagSteps nodes stepName =
     (let steps = stepsByName dagSteps
      in case rebindRetryNodesToSteps steps nodes of
           Inl e \<Rightarrow> Err e
         | Inr nodes' \<Rightarrow>
            (case buildEdges (fst (initNodes next nodes' (emptyPlan now))) of
               Inl e \<Rightarrow> Err e
             | Inr p \<Rightarrow>
                (case GetNodeByName p stepName of
                   None \<Rightarrow> Err (ErrMissingNode stepName)
                 | Some i \<Rightarrow>
                    (let target = the (GetNode p i);
                         preserveRetryBudget = (n_Status target = NodeRetrying)
                     in case steps (n_Name target) of
                          None \<Rightarrow> Err (ErrMissingNode (n_Name target))
                        | Some st \<Rightarrow>
                           (let retryCount = ns_RetryCount (n_State target);
                                cleared = SetRetryCount retryCount (ClearState st target);
                                final = (if preserveRetryBudget then cleared
                                         else cleared\<lparr>n_retryPolicy := zeroNodeRetryPolicy\<rparr>)
                            in Ok (updNode i (\<lambda>_. final) p))))))"

section \<open>What the retry loop computes\<close>

definition clearNodes :: "(string \<rightharpoonup> Step) \<Rightarrow> nat set \<Rightarrow> Plan \<Rightarrow> Plan" where
  "clearNodes steps C p = p\<lparr>p_nodeByID :=
     fmmap_keys (\<lambda>i n. if i \<in> C then ClearState (the (steps (n_Name n))) n else n) (p_nodeByID p)\<rparr>"

text \<open>The DAG definition knows every node of the plan by its name.\<close>

definition stepsCover :: "(string \<rightharpoonup> Step) \<Rightarrow> Plan \<Rightarrow> bool" where
  "stepsCover steps p \<longleftrightarrow> (\<forall>i n. GetNode p i = Some n \<longrightarrow>
     (\<exists>st. steps (n_Name n) = Some st \<and> st_Name st = n_Name n))"

definition retryRoots :: "Plan \<Rightarrow> nat set" where
  "retryRoots p = {i \<in> set (p_nodes p). retryableStatus (statusOf p i)}"

definition retryClosure :: "Plan \<Rightarrow> nat set" where
  "retryClosure p = (planEdges p)\<^sup>* `` retryRoots p"

lemma clearNodes_get:
  "GetNode (clearNodes steps C p) i = map_option
     (\<lambda>n. if i \<in> C then ClearState (the (steps (n_Name n))) n else n) (GetNode p i)"
  by (simp add: GetNode_def clearNodes_def)

lemma clearNodes_simps [simp]:
  "Dependents (clearNodes steps C p) = Dependents p"
  "Dependencies (clearNodes steps C p) = Dependencies p"
  "p_nodes (clearNodes steps C p) = p_nodes p"
  "p_nodeByName (clearNodes steps C p) = p_nodeByName p"
  by (simp_all add: clearNodes_def Dependents_def Dependencies_def fun_eq_iff)

lemma clearNodes_empty [simp]: "clearNodes steps {} p = p"
proof -
  have "fmmap_keys (\<lambda>i n. n) m = m" for m :: "(nat, Node) fmap"
    by (rule fmap_ext) (simp add: option.map_ident)
  then show ?thesis by (simp add: clearNodes_def)
qed

lemma clearNodes_upd:
  assumes cov: "stepsCover steps p" and n: "GetNode (clearNodes steps C p) u = Some n"
    and st: "steps (n_Name n) = Some st"
  shows "updNode u (ClearState st) (clearNodes steps C p) = clearNodes steps (insert u C) p"
proof -
  obtain m where m: "GetNode p u = Some m"
    and nm: "n = (if u \<in> C then ClearState (the (steps (n_Name m))) m else m)"
    using n by (auto simp: clearNodes_get)
  obtain st' where st': "steps (n_Name m) = Some st'" "st_Name st' = n_Name m"
    using cov m by (auto simp: stepsCover_def)
  have "n_Name n = n_Name m" using nm st' by simp
  then have "st = st'" using st st' by simp
  have c: "ClearState st n = ClearState st' m"
    using nm st' \<open>st = st'\<close> by (simp add: ClearState_def)
  have "fmupd u (ClearState st' m) (p_nodeByID (clearNodes steps C p))
      = p_nodeByID (clearNodes steps (insert u C) p)"
    using m st' by (intro fmap_ext) (auto simp: clearNodes_def GetNode_def)
  then show ?thesis
    using n c by (simp add: updNode_def) (simp add: clearNodes_def)
qed

lemma retryVisit_spec:
  assumes cov: "stepsCover steps p" and wf: "wfPlan p" and u: "u \<in> set (p_nodes p)"
  shows "retryVisit steps (statusOf p) u (clearNodes steps C p, T, N) =
    (if u \<in> T \<or> u \<in> retryRoots p
     then Ok (clearNodes steps (insert u C) p, insert u T \<union> set (Dependents p u), N @ Dependents p u)
     else Ok (clearNodes steps C p, T, N @ Dependents p u))"
proof -
  obtain m where m: "GetNode p u = Some m"
    using wfPlan_D(2)[OF wf] u by (metis GetNode_def fmdomE)
  obtain st where st: "steps (n_Name m) = Some st" "st_Name st = n_Name m"
    using cov m by (auto simp: stepsCover_def)
  obtain n where n: "GetNode (clearNodes steps C p) u = Some n" "n_Name n = n_Name m"
    using m st by (auto simp: clearNodes_get)
  have up: "updNode u (ClearState st) (clearNodes steps C p) = clearNodes steps (insert u C) p"
    using clearNodes_upd[OF cov n(1)] n(2) st by simp
  show ?thesis
    using u n st up by (auto simp: retryVisit_def Let_def retryRoots_def)
qed

lemma retryClosure_step:
  "x \<in> retryClosure p \<Longrightarrow> y \<in> set (Dependents p x) \<Longrightarrow> y \<in> retryClosure p"
  by (auto simp: retryClosure_def planEdges_def intro: rtrancl_into_rtrancl)

lemma retryRoots_closure: "retryRoots p \<subseteq> retryClosure p"
  by (auto simp: retryClosure_def)

lemma retryLevel_spec:
  assumes cov: "stepsCover steps p" and wf: "wfPlan p" and us: "set us \<subseteq> set (p_nodes p)"
    and sound: "C \<union> T \<subseteq> retryClosure p"
  shows "\<exists>C' T'. retryLevel steps (statusOf p) us (clearNodes steps C p, T, N) =
        Ok (clearNodes steps C' p, T', N @ concat (map (Dependents p) us))
      \<and> C \<subseteq> C' \<and> T \<subseteq> T' \<and> C' \<union> T' \<subseteq> retryClosure p
      \<and> (\<forall>u\<in>set us. u \<in> T \<or> u \<in> retryRoots p \<longrightarrow> u \<in> C')
      \<and> (\<forall>x\<in>C'. x \<in> C \<or> x \<in> set us \<and> set (Dependents p x) \<subseteq> T')"
  using us sound
proof (induction us arbitrary: C T N)
  case Nil
  then show ?case by auto
next
  case (Cons u us)
  have u: "u \<in> set (p_nodes p)" using Cons.prems by simp
  show ?case
  proof (cases "u \<in> T \<or> u \<in> retryRoots p")
    case True
    let ?C = "insert u C" and ?T = "insert u T \<union> set (Dependents p u)"
    have "u \<in> retryClosure p" using True Cons.prems retryRoots_closure by auto
    then have "?C \<union> ?T \<subseteq> retryClosure p" using Cons.prems retryClosure_step by auto
    from Cons.IH[OF _ this, of "N @ Dependents p u"] Cons.prems obtain C' T' where
      r: "retryLevel steps (statusOf p) us (clearNodes steps ?C p, ?T, N @ Dependents p u) =
        Ok (clearNodes steps C' p, T', (N @ Dependents p u) @ concat (map (Dependents p) us))"
      "?C \<subseteq> C'" "?T \<subseteq> T'" "C' \<union> T' \<subseteq> retryClosure p"
      "\<forall>u\<in>set us. u \<in> ?T \<or> u \<in> retryRoots p \<longrightarrow> u \<in> C'"
      "\<forall>x\<in>C'. x \<in> ?C \<or> x \<in> set us \<and> set (Dependents p x) \<subseteq> T'"
      by auto
    have "retryLevel steps (statusOf p) (u # us) (clearNodes steps C p, T, N) =
        Ok (clearNodes steps C' p, T', N @ concat (map (Dependents p) (u # us)))"
      using r(1) True by (simp add: retryVisit_spec[OF cov wf u])
    moreover have "\<forall>w\<in>set (u # us). w \<in> T \<or> w \<in> retryRoots p \<longrightarrow> w \<in> C'"
      using r(2,5) by simp
    moreover have "\<forall>x\<in>C'. x \<in> C \<or> x \<in> set (u # us) \<and> set (Dependents p x) \<subseteq> T'"
      using r(3,6) by auto
    ultimately show ?thesis using r(2,3,4) by (intro exI[of _ C'] exI[of _ T']) simp
  next
    case False
    from Cons.IH[of C T "N @ Dependents p u"] Cons.prems obtain C' T' where
      r: "retryLevel steps (statusOf p) us (clearNodes steps C p, T, N @ Dependents p u) =
        Ok (clearNodes steps C' p, T', (N @ Dependents p u) @ concat (map (Dependents p) us))"
      "C \<subseteq> C'" "T \<subseteq> T'" "C' \<union> T' \<subseteq> retryClosure p"
      "\<forall>u\<in>set us. u \<in> T \<or> u \<in> retryRoots p \<longrightarrow> u \<in> C'"
      "\<forall>x\<in>C'. x \<in> C \<or> x \<in> set us \<and> set (Dependents p x) \<subseteq> T'"
      by auto
    show ?thesis
      using r False by (intro exI[of _ C'] exI[of _ T']) (auto simp: retryVisit_spec[OF cov wf u])
  qed
qed

text \<open>A rank that grows along the edges of an acyclic graph.\<close>

lemma acyclic_rank:
  assumes "finite V" "E \<subseteq> V \<times> V" "acyclic E"
  obtains f :: "'a \<Rightarrow> nat" where "\<And>u v. (u, v) \<in> E \<Longrightarrow> f u < f v" "\<And>u. u \<in> V \<Longrightarrow> f u < card V"
proof
  let ?anc = "\<lambda>u. {w \<in> V. (w, u) \<in> E\<^sup>+}"
  show "card (?anc u) < card (?anc v)" if e: "(u, v) \<in> E" for u v
  proof (rule psubset_card_mono)
    have "u \<in> ?anc v" using e assms(2) by auto
    moreover have "u \<notin> ?anc u" using assms(3) by (simp add: acyclic_def)
    moreover have "?anc u \<subseteq> ?anc v" using e by (auto intro: trancl_into_trancl)
    ultimately show "?anc u \<subset> ?anc v" by blast
  qed (simp add: assms(1))
  show "card (?anc u) < card V" if "u \<in> V" for u
  proof (rule psubset_card_mono)
    have "u \<notin> ?anc u" using assms(3) by (simp add: acyclic_def)
    with that show "?anc u \<subset> V" by blast
  qed (rule assms(1))
qed

lemma retry_closed:
  assumes "C \<union> T \<subseteq> retryClosure p" "retryRoots p \<subseteq> C"
    "\<And>x y. x \<in> C \<Longrightarrow> y \<in> set (Dependents p x) \<Longrightarrow> y \<in> C"
  shows "C = retryClosure p"
proof
  show "C \<subseteq> retryClosure p" using assms(1) by simp
  have "y \<in> C" if "(x, y) \<in> (planEdges p)\<^sup>*" "x \<in> retryRoots p" for x y
    using that by (induction rule: rtrancl_induct) (use assms in \<open>auto simp: planEdges_def\<close>)
  then show "retryClosure p \<subseteq> C" by (auto simp: retryClosure_def)
qed

lemma frontier_next:
  assumes "s \<in> (planEdges p)\<^sup>* `` set F" "s \<notin> set F"
  shows "s \<in> (planEdges p)\<^sup>* `` set (concat (map (Dependents p) F))"
proof -
  obtain w where w: "w \<in> set F" "(w, s) \<in> (planEdges p)\<^sup>*" using assms(1) by auto
  then have "w \<noteq> s" using assms(2) by auto
  with w(2) obtain x where "(w, x) \<in> planEdges p" "(x, s) \<in> (planEdges p)\<^sup>*"
    by (meson converse_rtranclE)
  with w(1) show ?thesis by (auto simp: planEdges_def)
qed

lemma retryLoop_spec:
  assumes cov: "stepsCover steps p" and wf: "wfPlan p"
    and f: "\<And>u v. (u, v) \<in> planEdges p \<Longrightarrow> f u < (f v :: nat)"
      "\<And>u. u \<in> set (p_nodes p) \<Longrightarrow> f u < b"
    and F: "set F \<subseteq> set (p_nodes p)" "\<And>u. u \<in> set F \<Longrightarrow> b - d \<le> f u"
    and sound: "C \<union> T \<subseteq> retryClosure p"
    and B: "\<And>s. s \<in> retryRoots p \<Longrightarrow> s \<in> C \<or> s \<in> (planEdges p)\<^sup>* `` set F"
    and D: "\<And>x y. x \<in> C \<Longrightarrow> y \<in> set (Dependents p x) \<Longrightarrow> y \<in> C \<or> y \<in> T \<and> y \<in> set F"
  shows "retryLoop steps (statusOf p) F (clearNodes steps C p) T
           = Some (Ok (clearNodes steps (retryClosure p) p))"
  using F sound B D
proof (induction d arbitrary: F C T)
  case 0
  have "F = []"
    using 0(2)[of "hd F"] f(2)[of "hd F"] 0(1) hd_in_set[of F] by fastforce
  then have "C = retryClosure p" using retry_closed[OF 0(3)] 0(4,5) by auto
  with \<open>F = []\<close> show ?case by (simp add: retryLoop.simps)
next
  case (Suc d)
  show ?case
  proof (cases "F = []")
    case True
    then have "C = retryClosure p" using retry_closed[OF Suc.prems(3)] Suc.prems(4,5) by auto
    with True show ?thesis by (simp add: retryLoop.simps)
  next
    case False
    let ?F = "concat (map (Dependents p) F)"
    obtain C' T' where
      r: "retryLevel steps (statusOf p) F (clearNodes steps C p, T, []) =
        Ok (clearNodes steps C' p, T', ?F)"
      and mono: "C \<subseteq> C'" "T \<subseteq> T'" and sound': "C' \<union> T' \<subseteq> retryClosure p"
      and visited: "\<forall>u\<in>set F. u \<in> T \<or> u \<in> retryRoots p \<longrightarrow> u \<in> C'"
      and new: "\<forall>x\<in>C'. x \<in> C \<or> x \<in> set F \<and> set (Dependents p x) \<subseteq> T'"
      using retryLevel_spec[OF cov wf Suc.prems(1,3), of "[]"] by auto
    have "retryLoop steps (statusOf p) ?F (clearNodes steps C' p) T'
        = Some (Ok (clearNodes steps (retryClosure p) p))"
    proof (rule Suc.IH[OF _ _ sound'])
      show "set ?F \<subseteq> set (p_nodes p)" using wfPlan_D(4)[OF wf] by (auto simp: planEdges_def)
    next
      fix v assume "v \<in> set ?F"
      then obtain u where u: "u \<in> set F" "(u, v) \<in> planEdges p" by (auto simp: planEdges_def)
      with f(1)[OF u(2)] Suc.prems(2)[OF u(1)] show "b - d \<le> f v" by simp
    next
      fix s assume s: "s \<in> retryRoots p"
      show "s \<in> C' \<or> s \<in> (planEdges p)\<^sup>* `` set ?F"
        using Suc.prems(4)[OF s] mono(1) visited s frontier_next[of s p F] by blast
    next
      fix x y assume x: "x \<in> C'" and y: "y \<in> set (Dependents p x)"
      show "y \<in> C' \<or> y \<in> T' \<and> y \<in> set ?F"
      proof (cases "x \<in> C")
        case True
        with Suc.prems(5)[OF True y] mono(1) visited show ?thesis by blast
      next
        case False
        with new x have "x \<in> set F" "set (Dependents p x) \<subseteq> T'" by auto
        with y show ?thesis by auto
      qed
    qed
    with r False show ?thesis by (subst retryLoop.simps) simp
  qed
qed

lemma root_reaches:
  assumes wf: "wfPlan p" and ac: "acyclic (planEdges p)" and s: "s \<in> set (p_nodes p)"
  shows "s \<in> (planEdges p)\<^sup>* `` set (filter (\<lambda>i. Dependencies p i = []) (p_nodes p))"
proof -
  have "wf (planEdges p)" using ac finite_planEdges[OF wf] by (simp add: finite_acyclic_wf)
  then show ?thesis using s
  proof (induction s rule: wf_induct_rule)
    case (less s)
    show ?case
    proof (cases "Dependencies p s")
      case Nil
      with less(2) show ?thesis by auto
    next
      case (Cons u us)
      then have e: "(u, s) \<in> planEdges p" using wfPlan_mem[OF wf, of u s] by (simp add: planEdges_def)
      then have "u \<in> set (p_nodes p)" using wfPlan_D(4)[OF wf] by auto
      from less(1)[OF e this] e show ?thesis by (auto intro: rtrancl_into_rtrancl)
    qed
  qed
qed

lemma setupRetry_spec:
  assumes cov: "stepsCover steps p" and wf: "wfPlan p" and ac: "acyclic (planEdges p)"
  shows "setupRetry steps p = Some (Ok (clearNodes steps (retryClosure p) p))"
proof -
  obtain f :: "nat \<Rightarrow> nat" where f: "\<And>u v. (u, v) \<in> planEdges p \<Longrightarrow> f u < f v"
    "\<And>u. u \<in> set (p_nodes p) \<Longrightarrow> f u < card (set (p_nodes p))"
    using acyclic_rank[OF _ wfPlan_D(4)[OF wf] ac] by auto
  have "retryLoop steps (statusOf p) (filter (\<lambda>i. Dependencies p i = []) (p_nodes p))
      (clearNodes steps {} p) {} = Some (Ok (clearNodes steps (retryClosure p) p))"
    by (rule retryLoop_spec[OF cov wf f, where d = "card (set (p_nodes p))"])
       (use root_reaches[OF wf ac] in \<open>auto simp: retryRoots_def\<close>)
  then show ?thesis by (simp add: setupRetry_def)
qed

section \<open>Retry plans\<close>

lemma stepsByName_Some: "stepsByName steps a = Some st \<Longrightarrow> st_Name st = a \<and> st \<in> set steps"
  unfolding stepsByName_def by (induction steps rule: rev_induct) (auto split: if_splits)

lemma rebind_Ok:
  "rebindRetryNodesToSteps steps ns = Inr ns' \<Longrightarrow>
     (\<forall>n\<in>set ns. steps (n_Name n) \<noteq> None)
     \<and> ns' = map (\<lambda>n. SetStep (the (steps (n_Name n))) n) ns"
  by (induction ns arbitrary: ns') (auto split: option.splits sum.splits)

lemma rebind_ids:
  "rebindRetryNodesToSteps steps ns = Inr ns' \<Longrightarrow> list_all (\<lambda>n. n_id n = 0) ns
     \<Longrightarrow> list_all (\<lambda>n. n_id n = 0) ns'"
  using rebind_Ok[of steps ns ns'] by (simp add: list_all_iff SetStep_def)

lemma freshNodes_nth: "i < length ns \<Longrightarrow> freshNodes k ns ! i = (ns ! i)\<lparr>n_id := k + i\<rparr>"
  by (induction ns arbitrary: k i) (auto simp: nth_Cons split: nat.splits)

lemma nodesPlan_name_ex:
  "GetNodeByName (nodesPlan now ns) d = Some i \<Longrightarrow> \<exists>n\<in>set ns. n_id n = i \<and> n_Name n = d"
  using fold_addNode_name_dom[of ns "emptyPlan now" d i]
  by (auto simp: nodesPlan_def emptyPlan_def GetNodeByName_def)

lemma nodesPlan_get_fresh:
  assumes "i < length ns"
  shows "GetNode (nodesPlan now (freshNodes k ns)) (k + i) = Some ((ns ! i)\<lparr>n_id := k + i\<rparr>)"
proof -
  have "freshNodes k ns ! i \<in> set (freshNodes k ns)" using assms by simp
  from fold_addNode_lookup[OF _ this, of "emptyPlan now"] freshNodes_nth[OF assms] show ?thesis
    by (simp add: nodesPlan_def)
qed

lemma stepsCover_built:
  assumes r: "rebindRetryNodesToSteps (stepsByName dag) ns = Inr ns'"
    and b: "p_nodeByID p = p_nodeByID (nodesPlan now (freshNodes k ns'))"
  shows "stepsCover (stepsByName dag) p"
proof -
  have "\<exists>st. stepsByName dag (n_Name n) = Some st \<and> st_Name st = n_Name n"
    if g: "GetNode p i = Some n" for i n
  proof -
    have "i \<in> n_id ` set (freshNodes k ns')"
      using g b nodesPlan_simps(2)[of now "freshNodes k ns'"] by (metis GetNode_def fmdomI)
    then obtain j where j: "i = k + j" "j < length ns'"
      by (auto simp: set_id_freshNodes le_iff_add)
    have l: "length ns' = length ns" using rebind_Ok[OF r] by simp
    have "n = (ns' ! j)\<lparr>n_id := k + j\<rparr>"
      using g b nodesPlan_get_fresh[OF j(2), of now k] j(1) by (simp add: GetNode_def)
    then have "n_Step n = the (stepsByName dag (n_Name (ns ! j)))"
      using rebind_Ok[OF r] j(2) l by (simp add: SetStep_def)
    moreover obtain st where "stepsByName dag (n_Name (ns ! j)) = Some st"
      using rebind_Ok[OF r] j(2) l by (metis nth_mem not_None_eq)
    moreover from this have "st_Name st = n_Name (ns ! j)" using stepsByName_Some by blast
    ultimately show ?thesis by simp
  qed
  then show ?thesis by (auto simp: stepsCover_def)
qed

lemma CreateRetryPlan_cases:
  assumes k: "0 < k" and ids: "list_all (\<lambda>n. n_id n = 0) nodes"
  obtains (err) e where "CreateRetryPlan k now dag nodes = Some (Err e)"
  | (ok) p ns' where "rebindRetryNodesToSteps (stepsByName dag) nodes = Inr ns'"
      "buildEdges (nodesPlan now (freshNodes k ns')) = Inr p" "wfPlan p"
      "p_nodes p = [k..<k + length nodes]"
      "p_nodeByID p = p_nodeByID (nodesPlan now (freshNodes k ns'))"
      "CreateRetryPlan k now dag nodes = Some (Ok (clearNodes (stepsByName dag) (retryClosure p) p))"
proof (cases "rebindRetryNodesToSteps (stepsByName dag) nodes")
  case (Inl e)
  then show ?thesis using err by (simp add: CreateRetryPlan_def)
next
  case (Inr ns')
  have eq: "fst (initNodes k ns' (emptyPlan now)) = nodesPlan now (freshNodes k ns')"
    using initNodes_nodesPlan[OF k rebind_ids[OF Inr ids], of now] by simp
  show ?thesis
  proof (cases "buildEdges (nodesPlan now (freshNodes k ns'))")
    case (Inl e)
    then show ?thesis using err Inr eq by (simp add: CreateRetryPlan_def)
  next
    case b: (Inr p)
    have wf: "wfPlan p" "acyclic (planEdges p)"
      "addAllDeps (map n_id (freshNodes k ns')) (nodesPlan now (freshNodes k ns')) = Inr p"
      using buildEdges_wf[OF _ b] by auto
    have fr: "p_nodes p = [k..<k + length nodes]"
      "p_nodeByID p = p_nodeByID (nodesPlan now (freshNodes k ns'))"
      using addAllDeps_frame[OF wf(3)] rebind_Ok[OF Inr] by auto
    have "setupRetry (stepsByName dag) p =
        Some (Ok (clearNodes (stepsByName dag) (retryClosure p) p))"
      by (rule setupRetry_spec[OF stepsCover_built[OF Inr fr(2)] wf(1,2)])
    with ok[OF Inr b wf(1) fr] b Inr eq show ?thesis by (simp add: CreateRetryPlan_def)
  qed
qed

text \<open>C32: creating a retry plan always returns: the breadth-first reset ends on every node list,
  although it keeps no record of the nodes it has visited.\<close>

theorem CreateRetryPlan_returns:
  assumes "0 < k" "list_all (\<lambda>n. n_id n = 0) nodes"
  shows "CreateRetryPlan k now dag nodes \<noteq> None"
  by (cases rule: CreateRetryPlan_cases[OF assms, of now dag]) auto

definition retryDag :: "Step list" where
  "retryDag = [zeroStep\<lparr>st_Name := ''a''\<rparr>, zeroStep\<lparr>st_Name := ''b''\<rparr>,
               zeroStep\<lparr>st_Name := ''c'', st_Depends := [''a'', ''b'']\<rparr>]"

definition retryNodes :: "Node list" where
  "retryNodes = map2 (\<lambda>s x. NewNode s (zeroNodeState\<lparr>ns_Status := x, ns_DoneCount := 1\<rparr>)) retryDag
     [NodeFailed, NodeSucceeded, NodeAborted]"

theorem CreateRetryPlan_returns_witness:
  "list_all (\<lambda>n. n_id n = 0) retryNodes \<and> CreateRetryPlan 1 5 retryDag retryNodes \<noteq> None"
proof -
  have "list_all (\<lambda>n. n_id n = 0) retryNodes" by (simp add: retryNodes_def retryDag_def NewNode_def)
  with CreateRetryPlan_returns[OF _ this, of 1 5 retryDag] show ?thesis by simp
qed

lemma clearNodes_edges [simp]: "planEdges (clearNodes steps C p) = planEdges p"
  by (simp add: planEdges_def)

lemma retryClosure_fresh:
  assumes wf: "wfPlan p" and nodes: "p_nodes p = [k..<k + length ns]"
    and get: "\<And>j. j < length ns \<Longrightarrow> statusOf p (k + j) = n_Status (ns ! j)"
  shows "i \<in> retryClosure p \<longleftrightarrow>
    (\<exists>j<length ns. retryableStatus (n_Status (ns ! j)) \<and> (k + j, i) \<in> (planEdges p)\<^sup>*)"
proof -
  have "retryRoots p = {k + j | j. j < length ns \<and> retryableStatus (n_Status (ns ! j))}"
    unfolding retryRoots_def nodes using get by (auto simp: le_iff_add)
  then show ?thesis by (auto simp: retryClosure_def)
qed

text \<open>C31: a retry plan resets exactly the nodes that failed, were aborted, rejected or were waiting
  for a retry, and everything downstream of them; every other node keeps its state.  Node
  \<open>k + i\<close> of the plan is the \<open>i\<close>-th persisted node.\<close>

theorem CreateRetryPlan_resets:
  assumes "0 < k" "list_all (\<lambda>n. n_id n = 0) nodes"
    and ok: "CreateRetryPlan k now dag nodes = Some (Ok p)" and i: "i < length nodes"
  shows "\<exists>n. GetNode p (k + i) = Some n
    \<and> n_State n = (if \<exists>j<length nodes. retryableStatus (n_Status (nodes ! j))
                        \<and> (k + j, k + i) \<in> (planEdges p)\<^sup>*
                   then zeroNodeState else n_State (nodes ! i))"
proof (rule CreateRetryPlan_cases[OF assms(1,2), of now dag])
  fix e assume "CreateRetryPlan k now dag nodes = Some (Err e)"
  with ok show ?thesis by simp
next
  fix q ns' assume ok: "rebindRetryNodesToSteps (stepsByName dag) nodes = Inr ns'"
    "buildEdges (nodesPlan now (freshNodes k ns')) = Inr q" "wfPlan q"
    "p_nodes q = [k..<k + length nodes]"
    "p_nodeByID q = p_nodeByID (nodesPlan now (freshNodes k ns'))"
    "CreateRetryPlan k now dag nodes = Some (Ok (clearNodes (stepsByName dag) (retryClosure q) q))"
  have p: "p = clearNodes (stepsByName dag) (retryClosure q) q"
    using ok(6) assms(3) by simp
  have l: "length ns' = length nodes" using rebind_Ok[OF ok(1)] by simp
  have get: "GetNode q (k + j) = Some ((ns' ! j)\<lparr>n_id := k + j\<rparr>)"
    and st: "n_State (ns' ! j) = n_State (nodes ! j)" if "j < length nodes" for j
    using nodesPlan_get_fresh[of j ns' now k] ok(5) that l rebind_Ok[OF ok(1)]
    by (simp_all add: GetNode_def SetStep_def)
  have s: "statusOf q (k + j) = n_Status (nodes ! j)" if "j < length nodes" for j
    using get[OF that] st[OF that] by (simp add: statusOf_def)
  have "\<exists>n. GetNode p (k + i) = Some n
      \<and> n_State n = (if k + i \<in> retryClosure q then zeroNodeState else n_State (nodes ! i))"
    using get[OF i] st[OF i] by (simp add: p clearNodes_get ClearState_def)
  moreover have "k + i \<in> retryClosure q \<longleftrightarrow>
      (\<exists>j<length nodes. retryableStatus (n_Status (nodes ! j)) \<and> (k + j, k + i) \<in> (planEdges p)\<^sup>*)"
    unfolding p clearNodes_edges by (rule retryClosure_fresh[OF ok(3,4)]) (rule s)
  ultimately show ?thesis by (simp only:)
qed

theorem CreateRetryPlan_resets_witness:
  "\<exists>p. CreateRetryPlan 1 5 retryDag retryNodes = Some (Ok p)
     \<and> n_State (the (GetNode p 1)) = zeroNodeState
     \<and> n_State (the (GetNode p 2)) = n_State (retryNodes ! 1)"
proof -
  have ids: "list_all (\<lambda>n. n_id n = 0) retryNodes" by (simp add: retryNodes_def retryDag_def NewNode_def)
  have "\<not> isl (the (CreateRetryPlan 1 5 retryDag retryNodes))
      \<and> CreateRetryPlan 1 5 retryDag retryNodes \<noteq> None
      \<and> Dependents (projr (the (CreateRetryPlan 1 5 retryDag retryNodes))) 1 = [3]
      \<and> Dependents (projr (the (CreateRetryPlan 1 5 retryDag retryNodes))) 3 = []"
    by code_simp
  then obtain p where p: "CreateRetryPlan 1 5 retryDag retryNodes = Some (Ok p)"
    "Dependents p 1 = [3]" "Dependents p 3 = []"
    by (metis not_None_eq option.sel sum.collapse(2))
  have len: "length retryNodes = 3" by (simp add: retryNodes_def retryDag_def)
  have st: "n_Status (retryNodes ! 0) = NodeFailed" "n_Status (retryNodes ! 1) = NodeSucceeded"
    "n_Status (retryNodes ! 2) = NodeAborted"
    by (simp_all add: retryNodes_def retryDag_def NewNode_def)
  have nr: "\<not> (\<exists>j<length retryNodes. retryableStatus (n_Status (retryNodes ! j))
      \<and> (1 + j, 1 + 1) \<in> (planEdges p)\<^sup>*)"
  proof -
    have 3: "(3, y) \<in> (planEdges p)\<^sup>* \<Longrightarrow> y = 3" for y
      using p(3) by (auto simp: planEdges_def elim: converse_rtranclE)
    have 1: "(1, y) \<in> (planEdges p)\<^sup>* \<Longrightarrow> y = 1 \<or> y = 3" for y
      using p(2) 3 by (auto simp: planEdges_def elim: converse_rtranclE)
    show ?thesis
    proof
      assume "\<exists>j<length retryNodes. retryableStatus (n_Status (retryNodes ! j))
        \<and> (1 + j, 1 + 1) \<in> (planEdges p)\<^sup>*"
      then obtain j where j: "j < 3" "retryableStatus (n_Status (retryNodes ! j))"
        "(1 + j, 2) \<in> (planEdges p)\<^sup>*" using len by (auto simp: numeral_2_eq_2)
      from j(1) consider "j = 0" | "j = 1" | "j = 2" by linarith
      then show False by cases (use 1[of 2] 3[of 2] st j in \<open>simp_all add: retryableStatus_def eval_nat_numeral\<close>)
    qed
  qed
  have r: "\<exists>j<length retryNodes. retryableStatus (n_Status (retryNodes ! j))
      \<and> (1 + j, 1 + 0) \<in> (planEdges p)\<^sup>*"
    using st len by (intro exI[of _ 0]) (simp add: retryableStatus_def)
  have "\<exists>n. GetNode p (1 + 0) = Some n \<and> n_State n = zeroNodeState"
    using CreateRetryPlan_resets[OF _ ids p(1), of 0] len unfolding if_P[OF r] by simp
  moreover have "\<exists>n. GetNode p (1 + 1) = Some n \<and> n_State n = n_State (retryNodes ! 1)"
    using CreateRetryPlan_resets[OF _ ids p(1), of 1] len unfolding if_not_P[OF nr] by simp
  ultimately show ?thesis using p(1) by (auto simp: numeral_2_eq_2)
qed

section \<open>Retrying a single step\<close>

lemma updNode_get:
  "GetNode (updNode i f p) j = (if j = i then map_option f (GetNode p i) else GetNode p j)"
  by (auto simp: updNode_def GetNode_def split: option.splits)

lemma updNode_simps [simp]:
  "p_nodes (updNode i f p) = p_nodes p" "Dependents (updNode i f p) = Dependents p"
  "Dependencies (updNode i f p) = Dependencies p"
  "p_nodeByName (updNode i f p) = p_nodeByName p"
  "p_startedAt (updNode i f p) = p_startedAt p" "p_finishedAt (updNode i f p) = p_finishedAt p"
  by (simp_all add: updNode_def Dependents_def Dependencies_def fun_eq_iff split: option.splits)

lemma CreateStepRetryPlan_Ok:
  assumes k: "0 < k" and ids: "list_all (\<lambda>n. n_id n = 0) nodes"
    and ok: "CreateStepRetryPlan k now dag nodes name = Ok p"
  obtains q ns' i st where "rebindRetryNodesToSteps (stepsByName dag) nodes = Inr ns'"
    "buildEdges (nodesPlan now (freshNodes k ns')) = Inr q"
    "GetNodeByName q name = Some i" "stepsByName dag (n_Name (the (GetNode q i))) = Some st"
    "p = updNode i (\<lambda>_.
       (SetRetryCount (ns_RetryCount (n_State (the (GetNode q i)))) (ClearState st (the (GetNode q i))))
       \<lparr>n_retryPolicy := (if n_Status (the (GetNode q i)) = NodeRetrying
                          then n_retryPolicy (the (GetNode q i)) else zeroNodeRetryPolicy)\<rparr>) q"
proof -
  obtain ns' where r: "rebindRetryNodesToSteps (stepsByName dag) nodes = Inr ns'"
    using ok by (auto simp: CreateStepRetryPlan_def Let_def split: sum.splits)
  have eq: "fst (initNodes k ns' (emptyPlan now)) = nodesPlan now (freshNodes k ns')"
    using initNodes_nodesPlan[OF k rebind_ids[OF r ids], of now] by simp
  obtain q i st where q: "buildEdges (nodesPlan now (freshNodes k ns')) = Inr q"
    "GetNodeByName q name = Some i" "stepsByName dag (n_Name (the (GetNode q i))) = Some st"
    using ok by (auto simp: CreateStepRetryPlan_def r eq Let_def split: sum.splits option.splits)
  have "n\<lparr>n_retryPolicy := n_retryPolicy n\<rparr> = n" for n :: Node by simp
  then have "p = updNode i (\<lambda>_.
       (SetRetryCount (ns_RetryCount (n_State (the (GetNode q i)))) (ClearState st (the (GetNode q i))))
       \<lparr>n_retryPolicy := (if n_Status (the (GetNode q i)) = NodeRetrying
                          then n_retryPolicy (the (GetNode q i)) else zeroNodeRetryPolicy)\<rparr>) q"
    using ok q by (simp add: CreateStepRetryPlan_def r eq Let_def setter_defs split: if_splits)
  with that r q show ?thesis by blast
qed

text \<open>Retrying one step resets exactly that step to its initial state, except that the number
  of retries already made is kept, whatever the step's status was; every other node keeps its
  state.  A manual retry therefore starts with the retries that are left, not with a fresh
  budget.\<close>

theorem CreateStepRetryPlan_resets:
  assumes "0 < k" "list_all (\<lambda>n. n_id n = 0) nodes" "distinct (map n_Name nodes)"
    and ok: "CreateStepRetryPlan k now dag nodes name = Ok p" and i: "i < length nodes"
  shows "\<exists>n. GetNode p (k + i) = Some n \<and> n_Name n = n_Name (nodes ! i)
    \<and> n_State n = (if n_Name (nodes ! i) = name
         then zeroNodeState\<lparr>ns_RetryCount := ns_RetryCount (n_State (nodes ! i))\<rparr>
         else n_State (nodes ! i))"
proof -
  obtain q ns' t st where r: "rebindRetryNodesToSteps (stepsByName dag) nodes = Inr ns'"
    and q: "buildEdges (nodesPlan now (freshNodes k ns')) = Inr q"
    and t: "GetNodeByName q name = Some t" "stepsByName dag (n_Name (the (GetNode q t))) = Some st"
    and p: "p = updNode t (\<lambda>_.
       (SetRetryCount (ns_RetryCount (n_State (the (GetNode q t)))) (ClearState st (the (GetNode q t))))
       \<lparr>n_retryPolicy := (if n_Status (the (GetNode q t)) = NodeRetrying
                          then n_retryPolicy (the (GetNode q t)) else zeroNodeRetryPolicy)\<rparr>) q"
    by (rule CreateStepRetryPlan_Ok[OF assms(1,2) ok])
  have fr: "p_nodeByID q = p_nodeByID (nodesPlan now (freshNodes k ns'))"
    "p_nodeByName q = p_nodeByName (nodesPlan now (freshNodes k ns'))"
    using buildEdges_wf[OF _ q] addAllDeps_frame by (metis distinct_upt map_id_freshNodes)+
  have ns': "ns' = map (\<lambda>n. SetStep (the (stepsByName dag (n_Name n))) n) nodes"
    "\<forall>n\<in>set nodes. stepsByName dag (n_Name n) \<noteq> None" using rebind_Ok[OF r] by auto
  have get: "GetNode q (k + j) = Some ((ns' ! j)\<lparr>n_id := k + j\<rparr>)" if "j < length nodes" for j
    using nodesPlan_get_fresh[of j ns' now k] fr that ns' by (simp add: GetNode_def)
  have nm: "n_Name (ns' ! j) = n_Name (nodes ! j)" "n_State (ns' ! j) = n_State (nodes ! j)"
    if "j < length nodes" for j
    using ns' that stepsByName_Some[of dag "n_Name (nodes ! j)"] nth_mem[OF that]
    by (auto simp: SetStep_def)
  have names: "map n_Name (freshNodes k ns') = map n_Name nodes"
    using nm ns'(1) by (intro nth_equalityI) (auto simp: freshNodes_nth)
  have tj: "t = k + j" if "j < length nodes" "n_Name (nodes ! j) = name" for j
  proof -
    have "freshNodes k ns' ! j \<in> set (freshNodes k ns')" using that ns' by simp
    from fold_addNode_name[OF _ this, of "emptyPlan now"] names assms(3) show ?thesis
      using t(1) fr(2) that nm[OF that(1)] ns'
      by (simp add: GetNodeByName_def nodesPlan_def freshNodes_nth)
  qed
  have "GetNodeByName (nodesPlan now (freshNodes k ns')) name = Some t"
    using t(1) fr(2) by (simp add: GetNodeByName_def)
  then obtain n where "n \<in> set (freshNodes k ns')" "n_id n = t" "n_Name n = name"
    using nodesPlan_name_ex by blast
  then obtain j where j: "j < length nodes" "t = k + j" "n_Name (nodes ! j) = name"
    using nm ns'(1) by (auto simp: in_set_conv_nth freshNodes_nth)
  show ?thesis
  proof (cases "n_Name (nodes ! i) = name")
    case True
    have "st_Name st = name"
      using t(2) stepsByName_Some[of dag _ st] get[OF i] nm[OF i] tj[OF i True] True by simp
    with True show ?thesis
      by (simp add: p updNode_get tj[OF i True] get[OF i] nm[OF i] setter_defs)
  next
    case False
    then have "k + i \<noteq> t" using j by auto
    with False show ?thesis by (simp add: p updNode_get get[OF i] nm[OF i])
  qed
qed

theorem CreateStepRetryPlan_resets_witness:
  "\<exists>p. CreateStepRetryPlan 1 5 retryDag retryNodes ''c'' = Ok p
     \<and> n_Status (the (GetNode p 3)) = NodeNotStarted
     \<and> n_State (the (GetNode p 1)) = n_State (retryNodes ! 0)"
proof -
  have ids: "list_all (\<lambda>n. n_id n = 0) retryNodes" and d: "distinct (map n_Name retryNodes)"
    by (simp_all add: retryNodes_def retryDag_def NewNode_def)
  have "\<not> isl (CreateStepRetryPlan 1 5 retryDag retryNodes ''c'')" by code_simp
  then obtain p where p: "CreateStepRetryPlan 1 5 retryDag retryNodes ''c'' = Ok p"
    by (cases "CreateStepRetryPlan 1 5 retryDag retryNodes ''c''") auto
  have nodes: "length retryNodes = 3" "n_Name (retryNodes ! 0) = ''a''" "n_Name (retryNodes ! 2) = ''c''"
    by (simp_all add: retryNodes_def retryDag_def NewNode_def)
  from CreateStepRetryPlan_resets[OF _ ids d p, of 0] CreateStepRetryPlan_resets[OF _ ids d p, of 2]
  show ?thesis using p nodes by (auto simp: zeroNodeState_def numeral_3_eq_3)
qed

end
