(* ===== verification/Env_Scope.thy ===== *)
theory Env_Scope
  imports Plan_Retry
begin

text \<open>
  Environment scopes (\<open>internal/cmn/eval/envscope.go\<close>) and how the runner fills the
  scope of a step with the outputs of its predecessors
  (\<open>setupVariables\<close> in \<open>internal/runtime/runner.go\<close>).  A scope is the list of its
  layers, innermost first; the nil scope is the empty list.
\<close>

section \<open>Scopes\<close>

datatype EnvSource = EnvSourceOS | EnvSourceDAGEnv | EnvSourceDotEnv | EnvSourceParam
  | EnvSourceOutput | EnvSourcePresolved | EnvSourceSecret | EnvSourceStepEnv

record EnvEntry =
  en_Key :: string
  en_Value :: string
  en_Source :: EnvSource
  en_Origin :: string

type_synonym EnvScope = "(string, EnvEntry) fmap list"

definition mkEntry :: "string \<Rightarrow> string \<Rightarrow> EnvSource \<Rightarrow> string \<Rightarrow> EnvEntry" where
  "mkEntry k v s o' = \<lparr>en_Key = k, en_Value = v, en_Source = s, en_Origin = o'\<rparr>"

definition internalSecretPrefix :: string where
  "internalSecretPrefix = ''_AYATSURI_PRESOLVED_SECRET_''"

definition internalBuildEnvFileKey :: string where
  "internalBuildEnvFileKey = ''_AYATSURI_PRESOLVED_BUILD_ENV_FILE''"

definition osEntry :: "string \<Rightarrow> (string, EnvEntry) fmap \<Rightarrow> (string, EnvEntry) fmap" where
  "osEntry env m = (case cutEq env of None \<Rightarrow> m
     | Some (k, v) \<Rightarrow>
        if hasPrefix internalSecretPrefix k \<or> k = internalBuildEnvFileKey then m
        else fmupd k (mkEntry k v EnvSourceOS '''') m)"

definition NewEnvScope :: "EnvScope \<Rightarrow> bool \<Rightarrow> string list \<Rightarrow> EnvScope" where
  "NewEnvScope parent includeOS environ =
     (if includeOS then fold osEntry environ fmempty else fmempty) # parent"

definition WithEntryOrigin :: "string \<Rightarrow> string \<Rightarrow> EnvSource \<Rightarrow> string \<Rightarrow> EnvScope \<Rightarrow> EnvScope" where
  "WithEntryOrigin k v s o' e = fmupd k (mkEntry k v s o') fmempty # e"

definition WithEntry :: "string \<Rightarrow> string \<Rightarrow> EnvSource \<Rightarrow> EnvScope \<Rightarrow> EnvScope" where
  "WithEntry k v s = WithEntryOrigin k v s ''''"

definition WithEntries :: "(string, string) fmap \<Rightarrow> EnvSource \<Rightarrow> EnvScope \<Rightarrow> EnvScope" where
  "WithEntries es s e = (if es = fmempty then e
     else fmmap_keys (\<lambda>k v. mkEntry k v s '''') es # e)"

definition WithStepOutputs :: "(string, string) fmap \<Rightarrow> string \<Rightarrow> EnvScope \<Rightarrow> EnvScope" where
  "WithStepOutputs outputs stepID e = (if outputs = fmempty then e
     else fmmap_keys (\<lambda>k v. mkEntry k v EnvSourceOutput stepID) outputs # e)"

fun GetEntry :: "EnvScope \<Rightarrow> string \<Rightarrow> EnvEntry option" where
  "GetEntry [] k = None"
| "GetEntry (l # ls) k = (case fmlookup l k of Some en \<Rightarrow> Some en | None \<Rightarrow> GetEntry ls k)"

definition Scope_Get :: "EnvScope \<Rightarrow> string \<Rightarrow> string option" where
  "Scope_Get e k = map_option en_Value (GetEntry e k)"

fun collectScope :: "(EnvEntry \<Rightarrow> bool) \<Rightarrow> EnvScope \<Rightarrow> (string, string) fmap" where
  "collectScope include [] = fmempty"
| "collectScope include (l # ls) = fmadd (collectScope include ls)
     (fmmap en_Value (fmfilter (\<lambda>k. case fmlookup l k of Some en \<Rightarrow> include en | None \<Rightarrow> False) l))"

definition ToMap :: "EnvScope \<Rightarrow> (string, string) fmap" where
  "ToMap = collectScope (\<lambda>_. True)"

definition AllBySource :: "EnvSource \<Rightarrow> EnvScope \<Rightarrow> (string, string) fmap" where
  "AllBySource s = collectScope (\<lambda>en. en_Source en = s)"

definition AllSecrets :: "EnvScope \<Rightarrow> (string, string) fmap" where
  "AllSecrets = AllBySource EnvSourceSecret"

definition AllUserEnvs :: "EnvScope \<Rightarrow> (string, string) fmap" where
  "AllUserEnvs = collectScope (\<lambda>en. en_Source en \<noteq> EnvSourceOS)"

section \<open>Variables of a step\<close>

text \<open>\<open>OutputVariablesMap\<close>: the stored \<open>key=value\<close> strings without their key part.\<close>

definition OutputVariablesMap :: "Node \<Rightarrow> (string, string) fmap" where
  "OutputVariablesMap n = (case ns_OutputVariables (n_State n) of None \<Rightarrow> fmempty
     | Some m \<Rightarrow> fmmap (\<lambda>kv. snd (the (cutEq kv)))
         (fmfilter (\<lambda>k. case fmlookup m k of Some kv \<Rightarrow> cutEq kv \<noteq> None | None \<Rightarrow> False) m))"

definition loadOutputs :: "Plan \<Rightarrow> nat \<Rightarrow> EnvScope \<Rightarrow> EnvScope" where
  "loadOutputs p i sc = (case GetNode p i of None \<Rightarrow> sc
     | Some n \<Rightarrow>
        (if OutputVariablesMap n \<noteq> fmempty
         then WithStepOutputs (OutputVariablesMap n)
                (if st_ID (n_Step n) = '''' then st_Name (n_Step n) else st_ID (n_Step n)) sc
         else sc))"

function loadPredecessors ::
  "Plan \<Rightarrow> nat list \<Rightarrow> nat list \<Rightarrow> EnvScope \<Rightarrow> nat list \<times> EnvScope" where
  "loadPredecessors p [] visited sc = (visited, sc)"
| "loadPredecessors p (i # queue) visited sc =
     (if i \<in> set visited then loadPredecessors p queue visited sc
      else loadPredecessors p (queue @ Dependencies p i) (visited @ [i]) (loadOutputs p i sc))"
  by pat_completeness auto
termination
proof (relation "measures [\<lambda>(p, q, vis, sc). card (fset (fmdom (p_DependencyMap p)) - set vis),
    \<lambda>(p, q, vis, sc). length q]", goal_cases)
  case (3 p i queue vis sc)
  let ?D = "fset (fmdom (p_DependencyMap p))"
  show ?case
  proof (cases "i \<in> ?D")
    case True
    have "card (?D - set (vis @ [i])) < card (?D - set vis)"
      using True 3 by (intro psubset_card_mono) auto
    then show ?thesis by simp
  next
    case False
    then have "Dependencies p i = []" by (simp add: Dependencies_def goget_notin)
    moreover have "?D - set (vis @ [i]) = ?D - set vis" using False by auto
    ultimately show ?thesis by simp
  qed
qed simp_all

text \<open>The step's own \<open>env\<close> entries; \<open>evalString\<close> is the expression evaluator.\<close>

definition addEnvVar ::
  "(EnvScope \<Rightarrow> string \<Rightarrow> (string, string) result) \<Rightarrow> EnvScope \<Rightarrow> string
     \<Rightarrow> (string, string) fmap \<Rightarrow> (string, string) fmap" where
  "addEnvVar evalString sc v m = (case cutEq v of None \<Rightarrow> m
     | Some (key, value) \<Rightarrow> (case evalString sc value of Inl err \<Rightarrow> m | Inr x \<Rightarrow> fmupd key x m))"

definition setupVariables ::
  "(EnvScope \<Rightarrow> string \<Rightarrow> (string, string) result) \<Rightarrow> EnvScope \<Rightarrow> Plan \<Rightarrow> nat \<Rightarrow> string list \<Rightarrow> EnvScope" where
  "setupVariables evalString base p i envList =
     (let sc = snd (loadPredecessors p (Dependencies p i) [] base);
          evaluated = fold (addEnvVar evalString sc) envList fmempty
      in if evaluated \<noteq> fmempty then WithEntries evaluated EnvSourceStepEnv sc else sc)"

section \<open>Looking up layered values\<close>

text \<open>
  The contract of a layered environment: looking up a key after adding a layer
  finds the layer's value, or what was visible before.
\<close>

locale layered_env =
  fixes get :: "'e \<Rightarrow> 'k \<Rightarrow> 'v option"
    and push :: "'l \<Rightarrow> 'e \<Rightarrow> 'e"
    and look :: "'l \<Rightarrow> 'k \<Rightarrow> 'v option"
  assumes get_push: "get (push l e) k = (case look l k of Some v \<Rightarrow> Some v | None \<Rightarrow> get e k)"
begin

lemma get_fold_last:
  "look l k = Some v \<Longrightarrow> (\<forall>m\<in>set ms. look m k = None) \<Longrightarrow> get (fold push (ls @ l # ms) e) k = Some v"
  by (induction ms rule: rev_induct) (simp_all add: get_push)

lemma get_fold_none:
  "(\<forall>m\<in>set ms. look m k = None) \<Longrightarrow> get (fold push ms e) k = get e k"
  by (induction ms rule: rev_induct) (simp_all add: get_push)

lemma get_fold_origin:
  "get (fold push ms e) k = Some v \<Longrightarrow> (\<exists>m\<in>set ms. look m k = Some v) \<or> get e k = Some v"
  by (induction ms rule: rev_induct) (auto simp: get_push split: option.splits)

end

lemma Scope_Get_Cons:
  "Scope_Get (l # e) k = (case fmlookup l k of Some en \<Rightarrow> Some (en_Value en) | None \<Rightarrow> Scope_Get e k)"
  by (simp add: Scope_Get_def split: option.splits)

interpretation entries: layered_env Scope_Get "\<lambda>m. WithEntries m s" fmlookup for s
proof
  show "Scope_Get (WithEntries l s e) k =
      (case fmlookup l k of None \<Rightarrow> Scope_Get e k | Some v \<Rightarrow> Some v)" for l e k
    by (simp add: WithEntries_def Scope_Get_Cons mkEntry_def split: option.splits)
qed

definition nodeOutput :: "Plan \<Rightarrow> nat \<Rightarrow> string \<Rightarrow> string option" where
  "nodeOutput p i k = (case GetNode p i of None \<Rightarrow> None | Some n \<Rightarrow> fmlookup (OutputVariablesMap n) k)"

interpretation outputs: layered_env Scope_Get "loadOutputs p" "nodeOutput p" for p
proof
  show "Scope_Get (loadOutputs p l e) k =
      (case nodeOutput p l k of None \<Rightarrow> Scope_Get e k | Some v \<Rightarrow> Some v)" for l e k
    by (simp add: loadOutputs_def nodeOutput_def WithStepOutputs_def Scope_Get_Cons mkEntry_def
        split: option.splits)
qed

lemma fmlookup_collectScope:
  "fmlookup (collectScope (\<lambda>_. True) e) k = Scope_Get e k"
proof (induction e)
  case Nil
  then show ?case by (simp add: Scope_Get_def)
next
  case (Cons l ls)
  then show ?case
    by (cases "fmlookup l k") (auto simp: Scope_Get_Cons fmdomI fmdom_notI)
qed

text \<open>Flattening a scope and looking it up give the same value: inner layers override outer ones
  in \<open>ToMap\<close> exactly as they do in \<open>Get\<close>.\<close>

theorem ToMap_is_Get: "fmlookup (ToMap e) k = Scope_Get e k"
  by (simp add: ToMap_def fmlookup_collectScope)

section \<open>Which predecessors a step sees\<close>

lemma loadPredecessors_fold:
  "\<exists>new. loadPredecessors p q vis sc = (vis @ new, fold (loadOutputs p) new sc)
     \<and> (distinct vis \<longrightarrow> distinct (vis @ new))"
proof (induction p q vis sc rule: loadPredecessors.induct)
  case (2 p i q vis sc)
  show ?case
  proof (cases "i \<in> set vis")
    case False
    from 2(2)[OF False] obtain new where
      "loadPredecessors p (q @ Dependencies p i) (vis @ [i]) (loadOutputs p i sc) =
        ((vis @ [i]) @ new, fold (loadOutputs p) new (loadOutputs p i sc))"
      "distinct (vis @ [i]) \<longrightarrow> distinct ((vis @ [i]) @ new)" by blast
    then show ?thesis using False by (intro exI[of _ "i # new"]) auto
  qed (use 2(1) in simp)
qed simp

lemma loadPredecessors_super:
  "set vis \<union> set q \<subseteq> set (fst (loadPredecessors p q vis sc))"
proof (induction p q vis sc rule: loadPredecessors.induct)
  case (2 p i q vis sc)
  then show ?case by (cases "i \<in> set vis") auto
qed simp

lemma loadPredecessors_closed:
  assumes "\<forall>x\<in>set vis. set (Dependencies p x) \<subseteq> set vis \<union> set q"
  shows "\<forall>x\<in>set (fst (loadPredecessors p q vis sc)).
           set (Dependencies p x) \<subseteq> set (fst (loadPredecessors p q vis sc))"
  using assms
proof (induction p q vis sc rule: loadPredecessors.induct)
  case (2 p i q vis sc)
  show ?case
  proof (cases "i \<in> set vis")
    case True
    then have "\<forall>x\<in>set vis. set (Dependencies p x) \<subseteq> set vis \<union> set q" using 2(3) by auto
    with 2(1)[OF True] True show ?thesis by simp
  next
    case False
    have "\<forall>x\<in>set (vis @ [i]). set (Dependencies p x) \<subseteq> set (vis @ [i]) \<union> set (q @ Dependencies p i)"
      using 2(3) by auto
    with 2(2)[OF False] False show ?thesis by simp
  qed
qed simp

lemma loadPredecessors_sound:
  assumes "set vis \<union> set q \<subseteq> S" "\<And>x. x \<in> S \<Longrightarrow> set (Dependencies p x) \<subseteq> S"
  shows "set (fst (loadPredecessors p q vis sc)) \<subseteq> S"
  using assms
proof (induction p q vis sc rule: loadPredecessors.induct)
  case (2 p i q vis sc)
  show ?case
  proof (cases "i \<in> set vis")
    case True
    with 2(1)[OF True] 2(3,4) show ?thesis by simp
  next
    case False
    have "set (vis @ [i]) \<union> set (q @ Dependencies p i) \<subseteq> S" using 2(3) 2(4)[of i] by auto
    from 2(2)[OF False this 2(4)] False show ?thesis by simp
  qed
qed simp

lemma loadPredecessors_ancestors:
  assumes "wfPlan p"
  shows "set (fst (loadPredecessors p (Dependencies p i) [] sc)) = {u. (u, i) \<in> (planEdges p)\<^sup>+}"
proof
  have mem: "u \<in> set (Dependencies p v) \<longleftrightarrow> (u, v) \<in> planEdges p" for u v
    using wfPlan_mem[OF assms, of u v] by (simp add: planEdges_def)
  show "set (fst (loadPredecessors p (Dependencies p i) [] sc)) \<subseteq> {u. (u, i) \<in> (planEdges p)\<^sup>+}"
    by (rule loadPredecessors_sound) (auto simp: mem intro: trancl_into_trancl2)
  let ?S = "set (fst (loadPredecessors p (Dependencies p i) [] sc))"
  have closed: "\<And>x u. x \<in> ?S \<Longrightarrow> (u, x) \<in> planEdges p \<Longrightarrow> u \<in> ?S"
    using loadPredecessors_closed[of "[]" p "Dependencies p i" sc] mem by auto
  have "u \<in> ?S" if "(u, i) \<in> (planEdges p)\<^sup>+" for u
    using that
  proof (induction rule: converse_trancl_induct)
    case (base u)
    then show ?case using loadPredecessors_super[of "[]" "Dependencies p i" p sc] mem by auto
  next
    case (step u v)
    then show ?case using closed by blast
  qed
  then show "{u. (u, i) \<in> (planEdges p)\<^sup>+} \<subseteq> ?S" by blast
qed

lemma setupVariables_no_env:
  "setupVariables ev base p i [] = snd (loadPredecessors p (Dependencies p i) [] base)"
  by (simp add: setupVariables_def)

lemma last_match:
  assumes "\<exists>x\<in>set xs. P x"
  obtains ys x zs where "xs = ys @ x # zs" "P x" "\<forall>z\<in>set zs. \<not> P z"
  using split_list_last_prop[OF assms] by blast


definition outputNode :: "string \<Rightarrow> string list \<Rightarrow> string \<Rightarrow> Node" where
  "outputNode name deps value = setVariable ''X'' value
     (NewNode (zeroStep\<lparr>st_Name := name, st_Depends := deps\<rparr>) (zeroNodeState\<lparr>ns_Status := NodeSucceeded\<rparr>))"

definition outputChain :: "Plan" where
  "outputChain = projr (fst (NewPlanFromNodes 1 5
     [outputNode ''a'' [] ''old'', outputNode ''b'' [''a''] ''new'', outputNode ''c'' [''b''] '''']))"

lemma outputChain_wf: "wfPlan outputChain"
proof -
  have "\<not> isl (fst (NewPlanFromNodes 1 5
     [outputNode ''a'' [] ''old'', outputNode ''b'' [''a''] ''new'', outputNode ''c'' [''b''] '''']))"
    by code_simp
  moreover have "list_all (\<lambda>n. n_id n = 0)
     [outputNode ''a'' [] ''old'', outputNode ''b'' [''a''] ''new'', outputNode ''c'' [''b''] '''']"
    by (simp add: outputNode_def setVariable_def Let_def NewNode_def)
  from initNodes_nodesPlan[OF _ this, of 1 5] have "fst (NewPlanFromNodes 1 5
     [outputNode ''a'' [] ''old'', outputNode ''b'' [''a''] ''new'', outputNode ''c'' [''b''] ''''])
     = buildEdges (nodesPlan 5 (freshNodes 1
     [outputNode ''a'' [] ''old'', outputNode ''b'' [''a''] ''new'', outputNode ''c'' [''b''] '''']))"
    by (simp add: NewPlanFromNodes_def)
  ultimately have "buildEdges (nodesPlan 5 (freshNodes 1
     [outputNode ''a'' [] ''old'', outputNode ''b'' [''a''] ''new'', outputNode ''c'' [''b''] '''']))
     = Inr outputChain"
    unfolding outputChain_def by (metis sum.collapse(2))
  from buildEdges_wf[OF _ this] show ?thesis by simp
qed


text \<open>With two ancestors on a path that produce the same variable, the step sees the value of
  the more distant one: on the chain a, b, c the step c gets the value of a although b
  produced a newer one.\<close>

theorem setupVariables_shadowing:
  "nodeOutput outputChain 1 ''X'' = Some ''old'' \<and> nodeOutput outputChain 2 ''X'' = Some ''new''
   \<and> Dependencies outputChain 3 = [2] \<and> Dependencies outputChain 2 = [1]
   \<and> Scope_Get (setupVariables (\<lambda>_ s. Inr s) [] outputChain 3 []) ''X'' = Some ''old''"
  by code_simp

end
