(* ===== verification/Node_Exec.thy ===== *)
theory Node_Exec
  imports Node_Data
begin

text \<open>
  Executing a node: \<open>Prepare\<close>, \<open>Execute\<close>, \<open>Signal\<close>, \<open>Cancel\<close>, \<open>Teardown\<close> and the
  retry and repeat policies of \<open>internal/runtime/node.go\<close>, with \<open>Setup\<close> of
  \<open>data.go\<close> and the conditions of \<open>condition.go\<close>.  What the file system, the
  expression evaluator and the executor do in one call is an argument: the
  records \<open>PrepareIO\<close> and \<open>ExecOutcome\<close>, and the function \<open>intString\<close> for
  \<open>eval.IntString\<close>.
\<close>

section \<open>Policies\<close>

definition ShouldRetry :: "NodeRetryPolicy \<Rightarrow> int \<Rightarrow> bool" where
  "ShouldRetry r exitCode =
     (if nrp_ExitCodes r \<noteq> [] then exitCode \<in> set (nrp_ExitCodes r) else exitCode \<noteq> 0)"

type_synonym intEvaluator = "string \<Rightarrow> (string, int) result"

definition setupRetryPolicy :: "intEvaluator \<Rightarrow> Node \<Rightarrow> (GoError, Node) result" where
  "setupRetryPolicy intString n =
     (let step = n_Step n;
          rp = st_RetryPolicy step;
          limit0 = (if rp_Limit rp > 0 then rp_Limit rp else 0);
          interval0 = (if rp_Interval rp > 0 then rp_Interval rp else 0);
          exitCodes = rp_ExitCodes rp
      in result_bind
           (if rp_LimitStr rp \<noteq> '''' then
              (case intString (rp_LimitStr rp) of Inl e \<Rightarrow> Err (ErrText e) | Inr v \<Rightarrow> Ok v)
            else Ok limit0)
         (\<lambda>limit. result_bind
           (if rp_IntervalSecStr rp \<noteq> '''' then
              (case intString (rp_IntervalSecStr rp) of Inl e \<Rightarrow> Err (ErrText e) | Inr v \<Rightarrow> Ok (v * second))
            else Ok interval0)
         (\<lambda>interval. Ok (n\<lparr>n_retryPolicy := \<lparr>nrp_Limit = limit, nrp_Interval = interval,
                                                nrp_ExitCodes = exitCodes\<rparr>,
              n_Step := step\<lparr>st_RetryPolicy := rp\<lparr>rp_Limit := limit, rp_Interval := interval,
                                                   rp_ExitCodes := exitCodes\<rparr>\<rparr>\<rparr>))))"

definition setupRepeatPolicy :: "intEvaluator \<Rightarrow> Node \<Rightarrow> (GoError, Node) result" where
  "setupRepeatPolicy intString n =
     (let step = n_Step n; rp = st_RepeatPolicy step;
          evalOr = (\<lambda>s d unit. if s \<noteq> '''' then
              (case intString s of Inl e \<Rightarrow> Err (ErrText e) | Inr v \<Rightarrow> Ok (v * unit)) else Ok d)
      in result_bind (evalOr (rep_LimitStr rp) (rep_Limit rp) 1)
         (\<lambda>limit. result_bind (evalOr (rep_IntervalStr rp) (rep_Interval rp) second)
         (\<lambda>interval. result_bind (evalOr (rep_MaxIntervalStr rp) (rep_MaxInterval rp) second)
         (\<lambda>maxInterval. Ok (n\<lparr>n_Step := step\<lparr>st_RepeatPolicy :=
              rp\<lparr>rep_Limit := limit, rep_Interval := interval, rep_MaxInterval := maxInterval\<rparr>\<rparr>\<rparr>)))))"

section \<open>Preparation\<close>

record PrepareIO =
  pio_mkdirErr :: "GoError option"
  pio_logFile :: string
  pio_merged :: bool
  pio_setupErr :: "GoError option"
  pio_outputsErr :: "GoError option"
  pio_now :: int

definition Data_Setup :: "PrepareIO \<Rightarrow> Node \<Rightarrow> Node" where
  "Data_Setup io n = n\<lparr>n_State := (n_State n)\<lparr>
     ns_Stdout := pio_logFile io @ (if pio_merged io then ''.log'' else ''.out''),
     ns_Stderr := pio_logFile io @ (if pio_merged io then ''.log'' else ''.err''),
     ns_StartedAt := pio_now io\<rparr>\<rparr>"

text \<open>The node as it is left behind, and the error if there was one.\<close>

definition Prepare :: "intEvaluator \<Rightarrow> PrepareIO \<Rightarrow> Node \<Rightarrow> GoError option \<times> Node" where
  "Prepare intString io n =
     (case pio_mkdirErr io of Some e \<Rightarrow> (Some e, n)
      | None \<Rightarrow>
        (let n1 = Data_Setup io n
         in case pio_setupErr io of Some e \<Rightarrow> (Some e, n1)
            | None \<Rightarrow> (case pio_outputsErr io of Some e \<Rightarrow> (Some e, n1)
              | None \<Rightarrow> (case setupRetryPolicy intString n1 of Inl e \<Rightarrow> (Some e, n1)
                | Inr n2 \<Rightarrow> (case setupRepeatPolicy intString n2 of Inl e \<Rightarrow> (Some e, n2)
                  | Inr n3 \<Rightarrow> (None, n3))))))"

definition Teardown :: "GoError option \<Rightarrow> Node \<Rightarrow> GoError option \<times> Node" where
  "Teardown closeErr n =
     (if n_done n then (None, n)
      else case closeErr of None \<Rightarrow> (None, n\<lparr>n_done := True\<rparr>)
           | Some e \<Rightarrow> (Some e, SetError (Some e) (n\<lparr>n_done := True\<rparr>)))"

section \<open>Execution\<close>

record ExecOutcome =
  eo_setupErr :: "GoError option"
  eo_runErr :: "GoError option"
  eo_deadline :: bool
  eo_exitCoder :: "int option"
  eo_subRuns :: "SubDAGRun list option"
  eo_captured :: "(GoError, string) result"
  eo_schemaErr :: "GoError option"
  eo_nodeStatus :: "(GoError, NodeStatus) result option"

definition setupExecutor :: "ExecOutcome \<Rightarrow> Node \<Rightarrow> GoError option \<times> Node" where
  "setupExecutor o' n =
     (let n1 = (ResetError (ClearVariable (continueOnKey n) n))\<lparr>n_done := False\<rparr>
      in case eo_setupErr o' of Some e \<Rightarrow> (Some e, n1) | None \<Rightarrow> (None, n1\<lparr>n_cmdSet := True\<rparr>))"

definition handleTimeout :: "Node \<Rightarrow> int \<times> GoError option \<times> Node" where
  "handleTimeout n = (124, Some DeadlineExceeded,
     SetStatus NodeFailed (SetError (Some DeadlineExceeded) n))"

definition handleCommandError :: "ExecOutcome \<Rightarrow> GoError \<Rightarrow> Node \<Rightarrow> int \<times> GoError option \<times> Node" where
  "handleCommandError o' err n =
     (let n1 = SetError (Some err) n
      in case eo_exitCoder o' of Some c \<Rightarrow> (c, Some err, n1)
         | None \<Rightarrow> (case exitCodeFromError (Some err) of Some c \<Rightarrow> (c, Some err, n1)
                    | None \<Rightarrow> (1, Some err, n1)))"

definition runCommand :: "ExecOutcome \<Rightarrow> Node \<Rightarrow> int \<times> GoError option \<times> Node" where
  "runCommand o' n = (case eo_runErr o' of
      None \<Rightarrow> (0, None, n)
    | Some err \<Rightarrow>
        if st_Timeout (n_Step n) > 0 \<and> eo_deadline o' then handleTimeout n
        else handleCommandError o' err n)"

definition captureOutput :: "ExecOutcome \<Rightarrow> Node \<Rightarrow> GoError option \<times> Node" where
  "captureOutput o' n =
     (if st_Output (n_Step n) = '''' then (None, n)
      else case eo_captured o' of Inl e \<Rightarrow> (Some e, n)
           | Inr v \<Rightarrow> (None, setVariable (st_Output (n_Step n)) v n))"

definition determineNodeStatus :: "ExecOutcome \<Rightarrow> Node \<Rightarrow> GoError option \<times> Node" where
  "determineNodeStatus o' n = (case eo_nodeStatus o' of None \<Rightarrow> (None, n)
     | Some (Inl e) \<Rightarrow> (Some e, n)
     | Some (Inr s) \<Rightarrow> (None, SetStatus s n))"

definition recordSubRuns :: "ExecOutcome \<Rightarrow> Node \<Rightarrow> Node" where
  "recordSubRuns o' n = (case eo_subRuns o' of None \<Rightarrow> n
     | Some rs \<Rightarrow>
        (let n1 = (if ns_Repeated (n_State n) \<and> ns_SubRuns (n_State n) \<noteq> []
                   then AddSubRunsRepeated (ns_SubRuns (n_State n)) n else n)
         in SetSubRuns rs n1))"

definition Node_Execute :: "ExecOutcome \<Rightarrow> Node \<Rightarrow> GoError option \<times> Node" where
  "Node_Execute o' n =
     (case setupExecutor o' n of
        (Some e, n1) \<Rightarrow> (Some e, SetError (Some e) n1)
      | (None, n1) \<Rightarrow>
         (let (exitCode, err, n2) = runCommand o' n1;
              n3 = recordSubRuns o' (SetExitCode exitCode (SetError err n2))
          in case captureOutput o' n3 of
               (Some e, n4) \<Rightarrow> (Some e, n4)
             | (None, n4) \<Rightarrow>
                (if ns_Error (n_State n4) = None \<and> eo_schemaErr o' \<noteq> None
                 then (eo_schemaErr o', SetError (eo_schemaErr o') (SetExitCode 1 n4))
                 else
                   (let (statusErr, n5) = determineNodeStatus o' n4
                    in case ns_Error (n_State n5) of Some e \<Rightarrow> (Some e, n5)
                       | None \<Rightarrow> (statusErr, n5)))))"

section \<open>Signals\<close>

definition Node_Signal :: "bool \<Rightarrow> Node \<Rightarrow> Node" where
  "Node_Signal isTermination n =
     (if isTermination \<and> n_Status n = NodeRunning then SetStatus NodeAborted n else n)"

definition Node_Cancel :: "Node \<Rightarrow> Node" where
  "Node_Cancel n = (if n_Status n = NodeRunning then SetStatus NodeAborted n else n)"

section \<open>Conditions\<close>

text \<open>
  \<open>EvalCondition\<close> on the result of the matching or of the command: \<open>None\<close> for met.
\<close>

definition EvalCondition :: "(Condition \<Rightarrow> GoError option) \<Rightarrow> Condition \<Rightarrow> GoError option" where
  "EvalCondition evalPlain c =
     (let err = evalPlain c
      in if cond_Negate c
         then (if err = None then Some ErrConditionNotMet
               else if err = Some ErrConditionNotMet then None else err)
         else err)"

fun evalEach :: "(Condition \<Rightarrow> GoError option) \<Rightarrow> Condition list \<Rightarrow> Condition list \<times> GoError option" where
  "evalEach evalPlain [] = ([], None)"
| "evalEach evalPlain (c # cs) =
     (let (cs', rest) = evalEach evalPlain cs
      in case EvalCondition evalPlain c of
           None \<Rightarrow> (c # cs', rest)
         | Some e \<Rightarrow> (c\<lparr>cond_errorMessage := errorString e\<rparr> # cs',
                      (case rest of None \<Rightarrow> Some e | Some e' \<Rightarrow> Some e')))"

definition EvalConditions ::
  "(Condition \<Rightarrow> GoError option) \<Rightarrow> Condition list \<Rightarrow> Condition list \<times> GoError option" where
  "EvalConditions evalPlain cs =
     (let (cs', lastErr) = evalEach evalPlain cs
      in if lastErr = None then (cs', None)
         else (map (\<lambda>c. if cond_errorMessage c \<noteq> '''' then c
                         else c\<lparr>cond_errorMessage := ''other condition was not met''\<rparr>) cs', lastErr))"

section \<open>What execution leaves alone\<close>

text \<open>The parts of a node that no executor outcome changes.\<close>

definition sameFrame :: "Node \<Rightarrow> Node \<Rightarrow> bool" where
  "sameFrame n m \<longleftrightarrow> n_id m = n_id n \<and> n_Step m = n_Step n \<and> n_retryPolicy m = n_retryPolicy n
     \<and> ns_RetryCount (n_State m) = ns_RetryCount (n_State n)
     \<and> ns_DoneCount (n_State m) = ns_DoneCount (n_State n)"

lemma sameFrame_refl [simp]: "sameFrame n n"
  by (simp add: sameFrame_def)

lemma sameFrame_trans: "sameFrame n m \<Longrightarrow> sameFrame m k \<Longrightarrow> sameFrame n k"
  by (simp add: sameFrame_def)

lemma sameFrame_setters [simp]:
  "sameFrame n (SetStatus s m) = sameFrame n m" "sameFrame n (SetError e m) = sameFrame n m"
  "sameFrame n (SetExitCode c m) = sameFrame n m" "sameFrame n (ResetError m) = sameFrame n m"
  "sameFrame n (MarkError e m) = sameFrame n m" "sameFrame n (SetSubRuns rs m) = sameFrame n m"
  "sameFrame n (AddSubRunsRepeated rs m) = sameFrame n m"
  "sameFrame n (setVariable k v m) = sameFrame n m" "sameFrame n (setBoolVariable k b m) = sameFrame n m"
  "sameFrame n (SetRepeated b m) = sameFrame n m"
  "sameFrame n (m\<lparr>n_done := d\<rparr>) = sameFrame n m" "sameFrame n (m\<lparr>n_cmdSet := d\<rparr>) = sameFrame n m"
  by (simp_all add: sameFrame_def setter_defs setVariable_def setBoolVariable_def Let_def)

lemma sameFrame_ClearVariable [simp]: "sameFrame n (ClearVariable k m) = sameFrame n m"
  by (simp add: sameFrame_def ClearVariable_def split: option.split)

lemma sameFrame_ShouldContinue [simp]: "sameFrame n (snd (ShouldContinue lc n))"
proof (cases rule: ShouldContinue_cases[of lc n])
  case same
  then show ?thesis by simp
next
  case cached
  show ?thesis unfolding cached(1) by simp
qed

lemma setupExecutor_frame: "sameFrame n (snd (setupExecutor o' n))"
  by (simp add: setupExecutor_def Let_def split: option.split)

lemma setupExecutor_status [simp]: "n_Status (snd (setupExecutor o' n)) = n_Status n"
  by (simp add: setupExecutor_def Let_def ResetError_def ClearVariable_def split: option.split)

lemma runCommand_frame: "sameFrame n (snd (snd (runCommand o' n)))"
  by (simp add: runCommand_def handleTimeout_def handleCommandError_def Let_def split: option.split)

lemma recordSubRuns_frame: "sameFrame n m \<Longrightarrow> sameFrame n (recordSubRuns o' m)"
  by (simp add: recordSubRuns_def Let_def split: option.split)

lemma captureOutput_frame: "sameFrame n m \<Longrightarrow> sameFrame n (snd (captureOutput o' m))"
  by (simp add: captureOutput_def split: sum.split)

lemma determineNodeStatus_frame: "sameFrame n m \<Longrightarrow> sameFrame n (snd (determineNodeStatus o' m))"
  by (simp add: determineNodeStatus_def split: sum.split option.split)

lemma Node_Execute_frame: "sameFrame n (snd (Node_Execute o' n))"
proof -
  obtain e n1 where s: "setupExecutor o' n = (e, n1)" by (cases "setupExecutor o' n")
  have f1: "sameFrame n n1" using setupExecutor_frame[of n o'] s by simp
  obtain c err n2 where r: "runCommand o' n1 = (c, err, n2)" by (cases "runCommand o' n1") auto
  have f2: "sameFrame n n2" using runCommand_frame[of n1 o'] r f1 by (auto intro: sameFrame_trans)
  let ?n3 = "recordSubRuns o' (SetExitCode c (SetError err n2))"
  have f3: "sameFrame n ?n3" using f2 by (simp add: recordSubRuns_frame)
  obtain ce n4 where c: "captureOutput o' ?n3 = (ce, n4)" by (cases "captureOutput o' ?n3")
  have f4: "sameFrame n n4" using captureOutput_frame[OF f3, of o'] c by simp
  obtain se n5 where d: "determineNodeStatus o' n4 = (se, n5)" by (cases "determineNodeStatus o' n4")
  have f5: "sameFrame n n5" using determineNodeStatus_frame[OF f4, of o'] d by simp
  show ?thesis
    using s r c d f1 f4 f5 by (simp add: Node_Execute_def Let_def split: option.split)
qed

text \<open>The status after an execution: unchanged, failed by the step timeout, or the executor's own.\<close>

lemma other_setters_status [simp]:
  "n_Status (SetExitCode c m) = n_Status m" "n_Status (SetSubRuns rs m) = n_Status m"
  "n_Status (AddSubRunsRepeated rs m) = n_Status m" "n_Status (setVariable k v m) = n_Status m"
  "n_Status (IncRetryCount m) = n_Status m" "n_Status (IncDoneCount m) = n_Status m"
  "n_Status (SetRetriedAt t m) = n_Status m" "n_Status (SetRepeated b m) = n_Status m"
  "n_Status (MarkError e m) = NodeFailed"
  by (simp_all add: setter_defs setVariable_def Let_def)

lemma runCommand_status:
  "n_Status (snd (snd (runCommand o' n))) = n_Status n
   \<or> n_Status (snd (snd (runCommand o' n))) = NodeFailed \<and> st_Timeout (n_Step n) > 0"
  by (simp add: runCommand_def handleTimeout_def handleCommandError_def Let_def split: option.split)

lemma recordSubRuns_status [simp]: "n_Status (recordSubRuns o' m) = n_Status m"
  by (simp add: recordSubRuns_def Let_def split: option.split)

lemma captureOutput_status [simp]: "n_Status (snd (captureOutput o' m)) = n_Status m"
  by (simp add: captureOutput_def split: sum.split)

lemma determineNodeStatus_status:
  "n_Status (snd (determineNodeStatus o' m)) = n_Status m
   \<or> eo_nodeStatus o' = Some (Inr (n_Status (snd (determineNodeStatus o' m))))"
  by (simp add: determineNodeStatus_def split: sum.split option.split)

lemma Node_Execute_status:
  "n_Status (snd (Node_Execute o' n)) = n_Status n
   \<or> n_Status (snd (Node_Execute o' n)) = NodeFailed \<and> st_Timeout (n_Step n) > 0
   \<or> eo_nodeStatus o' = Some (Inr (n_Status (snd (Node_Execute o' n))))"
proof -
  obtain e n1 where s: "setupExecutor o' n = (e, n1)" by (cases "setupExecutor o' n")
  have n1: "n_Status n1 = n_Status n" "n_Step n1 = n_Step n"
    using setupExecutor_status[of o' n] setupExecutor_frame[of n o'] s by (simp_all add: sameFrame_def)
  obtain c err n2 where r: "runCommand o' n1 = (c, err, n2)" by (cases "runCommand o' n1") auto
  let ?n3 = "recordSubRuns o' (SetExitCode c (SetError err n2))"
  obtain ce n4 where ce: "captureOutput o' ?n3 = (ce, n4)" by (cases "captureOutput o' ?n3")
  obtain se n5 where d: "determineNodeStatus o' n4 = (se, n5)" by (cases "determineNodeStatus o' n4")
  have n4: "n_Status n4 = n_Status n2" using captureOutput_status[of o' ?n3] ce by simp
  have n2: "n_Status n2 = n_Status n \<or> n_Status n2 = NodeFailed \<and> st_Timeout (n_Step n) > 0"
    using runCommand_status[of o' n1] r n1 by simp
  have n5: "n_Status n5 = n_Status n4 \<or> eo_nodeStatus o' = Some (Inr (n_Status n5))"
    using determineNodeStatus_status[of o' n4] d by simp
  have "n_Status (snd (Node_Execute o' n)) = n_Status n1 \<or>
      n_Status (snd (Node_Execute o' n)) = n_Status n4 \<or> n_Status (snd (Node_Execute o' n)) = n_Status n5"
    using s r ce d by (simp add: Node_Execute_def Let_def split: option.split)
  with n1 n2 n4 n5 show ?thesis by metis
qed

lemma ShouldMarkSuccess_frame: "sameFrame n (snd (ShouldMarkSuccess lc n))"
  by simp

end
