(* ===== verification/Runner_Node.thy ===== *)
theory Runner_Node
  imports Node_Exec
begin

text \<open>
  How the runner drives one node (\<open>internal/runtime/runner.go\<close>): the decision after
  an execution (\<open>handleNodeExecutionError\<close>, \<open>shouldRetryNode\<close>), the repeat policy,
  and \<open>runNodeExecution\<close>, the body of a node's goroutine after preparation.
  One pass of the execution loop takes its inputs (the executor's outcome, the
  clock, the value of the cancel flag at each point where it is read) from a
  record; running out of such records is the result \<open>None\<close>: the step is still
  executing.
\<close>

section \<open>Configuration\<close>

record RunnerConfig =
  rc_maxActiveRuns :: int
  rc_timeout :: int
  rc_dry :: bool
  rc_externalRetry :: bool
  rc_progress :: bool
  rc_forcedStatus :: "Status option"
  rc_logContains :: logReader
  rc_intString :: intEvaluator

definition isTimeout :: "RunnerConfig \<Rightarrow> int \<Rightarrow> int \<Rightarrow> bool" where
  "isTimeout cfg startedAt now \<longleftrightarrow> rc_timeout cfg > 0 \<and> now - startedAt > rc_timeout cfg"

section \<open>After an execution\<close>

definition shouldRetryNode ::
  "RunnerConfig \<Rightarrow> int \<Rightarrow> GoError \<Rightarrow> Node \<Rightarrow> GoError option \<Rightarrow> bool \<times> Node \<times> GoError option" where
  "shouldRetryNode cfg now execErr n lastError =
     (let exitCode = (case exitCodeFromError (Some execErr) of Some c \<Rightarrow> c | None \<Rightarrow> 1)
      in if \<not> ShouldRetry (n_retryPolicy n) exitCode
         then (False, MarkError (Some execErr) (SetStatus NodeFailed n), Some execErr)
         else if rc_externalRetry cfg
         then (False, SetStatus NodeRetrying (IncRetryCount n), lastError)
         else (True, SetStatus NodeRunning (SetRetriedAt now (IncRetryCount n)), lastError))"

definition handleNodeExecutionError ::
  "RunnerConfig \<Rightarrow> bool \<Rightarrow> int \<Rightarrow> int \<Rightarrow> GoError option \<Rightarrow> Node \<Rightarrow> GoError option
     \<Rightarrow> bool \<times> Node \<times> GoError option" where
  "handleNodeExecutionError cfg canceled startedAt now execErr n lastError =
     (case execErr of None \<Rightarrow> (False, n, lastError)
      | Some err \<Rightarrow>
         (let s = n_Status n
          in if s = NodeSucceeded \<or> s = NodeAborted \<or> s = NodePartiallySucceeded
             then (False, n, lastError)
             else if err = DeadlineExceeded
             then (if st_Timeout (n_Step n) > 0
                   then (False, SetStatus NodeFailed n, Some err)
                   else (False, SetStatus NodeAborted n, Some err))
             else if isTimeout cfg startedAt now
             then (False, SetStatus NodeAborted n, Some err)
             else if canceled
             then (False, n, Some err)
             else if nrp_Limit (n_retryPolicy n) > ns_RetryCount (n_State n)
             then shouldRetryNode cfg now err n lastError
             else
               (let n1 = SetStatus NodeFailed n;
                    (mark, n2) = ShouldMarkSuccess (rc_logContains cfg) n1
                in if mark then (False, SetStatus NodeSucceeded n2, lastError)
                   else (False, MarkError (Some err) n2, Some err))))"

section \<open>Repeating\<close>

definition evalWhileCondition :: "GoError option \<Rightarrow> Node \<Rightarrow> GoError option \<Rightarrow> bool" where
  "evalWhileCondition condErr n execErr =
     (let rp = st_RepeatPolicy (n_Step n)
      in if rep_Condition rp \<noteq> None then condErr = None
         else if rep_ExitCode rp \<noteq> [] then ns_ExitCode (n_State n) \<in> set (rep_ExitCode rp)
         else execErr = None)"

definition evalUntilCondition :: "GoError option \<Rightarrow> Node \<Rightarrow> GoError option \<Rightarrow> bool" where
  "evalUntilCondition condErr n execErr =
     (let rp = st_RepeatPolicy (n_Step n)
      in if rep_Condition rp \<noteq> None then condErr \<noteq> None
         else if rep_ExitCode rp \<noteq> [] then ns_ExitCode (n_State n) \<notin> set (rep_ExitCode rp)
         else execErr \<noteq> None)"

definition shouldRepeatNode :: "GoError option \<Rightarrow> Node \<Rightarrow> GoError option \<Rightarrow> bool" where
  "shouldRepeatNode condErr n execErr =
     (let rp = st_RepeatPolicy (n_Step n)
      in if rep_Limit rp > 0 \<and> ns_DoneCount (n_State n) \<ge> rep_Limit rp then False
         else if rep_RepeatMode rp = RepeatModeWhile then evalWhileCondition condErr n execErr
         else if rep_RepeatMode rp = RepeatModeUntil then evalUntilCondition condErr n execErr
         else False)"

definition prepareNodeForRepeat :: "Node \<Rightarrow> GoError option \<Rightarrow> Node \<times> GoError option" where
  "prepareNodeForRepeat n lastError =
     (SetRepeated True (SetStatus NodeRunning n),
      if lastError = ns_Error (n_State n) then None else lastError)"

section \<open>The execution loop\<close>

record IterIn =
  it_canceledHead :: bool
  it_outcome :: ExecOutcome
  it_canceledHandle :: bool
  it_startedAt :: int
  it_now :: int
  it_condErr :: "GoError option"
  it_canceledRepeat :: bool

definition execNode :: "RunnerConfig \<Rightarrow> ExecOutcome \<Rightarrow> Node \<Rightarrow> GoError option \<times> Node" where
  "execNode cfg o' n = (if rc_dry cfg then (None, n) else Node_Execute o' n)"

datatype LoopEnd = Returned | Broke

text \<open>One pass: go round again, or leave the loop.\<close>

datatype IterResult = Again Node "GoError option" | Leave LoopEnd Node "GoError option"

definition execIteration :: "RunnerConfig \<Rightarrow> IterIn \<Rightarrow> Node \<Rightarrow> GoError option \<Rightarrow> IterResult" where
  "execIteration cfg it n lastError =
     (if it_canceledHead it then Leave Broke n lastError
      else
        (let (execErr, n1) = execNode cfg (it_outcome it) n;
             (isRetriable, n2, last2) =
               handleNodeExecutionError cfg (it_canceledHandle it) (it_startedAt it) (it_now it)
                 execErr n1 lastError
         in if isRetriable then Again n2 last2
            else if n_Status n2 = NodeRetrying then Leave Returned n2 last2
            else
              (let n3 = (if n_Status n2 \<noteq> NodeAborted then IncDoneCount n2 else n2)
               in if shouldRepeatNode (it_condErr it) n3 execErr \<and> \<not> it_canceledRepeat it
                  then (let (n4, last4) = prepareNodeForRepeat n3 last2 in Again n4 last4)
                  else if execErr \<noteq> None \<and> rc_progress cfg then Leave Returned n3 last2
                  else Leave Broke n3 last2)))"

fun execLoop :: "RunnerConfig \<Rightarrow> IterIn list \<Rightarrow> Node \<Rightarrow> GoError option
    \<Rightarrow> (LoopEnd \<times> Node \<times> GoError option) option" where
  "execLoop cfg [] n lastError = None"
| "execLoop cfg (it # its) n lastError = (case execIteration cfg it n lastError of
      Again n' last' \<Rightarrow> execLoop cfg its n' last'
    | Leave e n' last' \<Rightarrow> Some (e, n', last'))"

definition finalStatus :: "bool \<Rightarrow> Node \<Rightarrow> Node" where
  "finalStatus canceled n =
     (let n1 = (if n_Status n = NodeRunning then
                  (if rep_RepeatMode (st_RepeatPolicy (n_Step n)) = '''' \<and> canceled
                   then SetStatus NodeAborted n
                   else if st_Approval (n_Step n) \<noteq> None then SetStatus NodeWaiting n
                   else SetStatus NodeSucceeded n)
                else n)
      in if n_Status n1 = NodeSucceeded \<and> st_Approval (n_Step n1) \<noteq> None
         then SetStatus NodeWaiting n1 else n1)"

definition teardownNode ::
  "RunnerConfig \<Rightarrow> GoError option \<Rightarrow> Node \<Rightarrow> GoError option \<Rightarrow> Node \<times> GoError option" where
  "teardownNode cfg closeErr n lastError =
     (if rc_dry cfg then (n, lastError)
      else case Teardown closeErr n of
             (None, n1) \<Rightarrow> (n1, lastError)
           | (Some e, n1) \<Rightarrow> (SetStatus NodeFailed n1, Some e))"

definition meetsPreconditions :: "GoError option \<Rightarrow> Node \<Rightarrow> bool \<times> Node" where
  "meetsPreconditions condErr n = (case condErr of None \<Rightarrow> (True, n)
     | Some e \<Rightarrow> (False, (if e = ErrConditionNotMet then SetStatus NodeSkipped n
                          else SetError (Some e) (SetStatus NodeSkipped n))))"

definition runNodeExecution ::
  "RunnerConfig \<Rightarrow> GoError option \<Rightarrow> IterIn list \<Rightarrow> bool \<Rightarrow> GoError option \<Rightarrow> Node \<Rightarrow> GoError option
     \<Rightarrow> (Node \<times> GoError option) option" where
  "runNodeExecution cfg preErr its canceledEnd closeErr n lastError =
     (case meetsPreconditions preErr n of
        (False, n1) \<Rightarrow> Some (n1, lastError)
      | (True, n1) \<Rightarrow> (case execLoop cfg its n1 lastError of
           None \<Rightarrow> None
         | Some (Returned, n2, last2) \<Rightarrow> Some (n2, last2)
         | Some (Broke, n2, last2) \<Rightarrow> Some (teardownNode cfg closeErr (finalStatus canceledEnd n2) last2)))"

section \<open>Facts about one pass\<close>

lemma sameFrame_D:
  assumes "sameFrame n m"
  shows "n_Step m = n_Step n" "n_retryPolicy m = n_retryPolicy n" "n_id m = n_id n"
    "ns_RetryCount (n_State m) = ns_RetryCount (n_State n)"
    "ns_DoneCount (n_State m) = ns_DoneCount (n_State n)"
  using assms by (simp_all add: sameFrame_def)

lemma handle_retry:
  assumes "handleNodeExecutionError cfg c st now e n l = (True, n', l')"
  shows "e \<noteq> None \<and> \<not> c \<and> \<not> isTimeout cfg st now
    \<and> nrp_Limit (n_retryPolicy n) > ns_RetryCount (n_State n)
    \<and> n' = SetStatus NodeRunning (SetRetriedAt now (IncRetryCount n)) \<and> l' = l"
  using assms
  by (auto simp: handleNodeExecutionError_def shouldRetryNode_def Let_def
      split: option.splits if_splits prod.splits)

lemma handle_stop:
  assumes "handleNodeExecutionError cfg c st now e n l = (False, n', l')"
  shows "sameFrame n n' \<or>
    (n' = SetStatus NodeRetrying (IncRetryCount n) \<and> rc_externalRetry cfg
      \<and> nrp_Limit (n_retryPolicy n) > ns_RetryCount (n_State n))"
proof (cases e)
  case None
  then show ?thesis using assms by (simp add: handleNodeExecutionError_def)
next
  case (Some err)
  let ?m = "ShouldMarkSuccess (rc_logContains cfg) (SetStatus NodeFailed n)"
  have "sameFrame n (snd ?m)"
    using sameFrame_trans[of n "SetStatus NodeFailed n" "snd ?m"] ShouldMarkSuccess_frame by simp
  then show ?thesis
    using assms Some
    by (auto simp: handleNodeExecutionError_def shouldRetryNode_def Let_def split_beta
        split: if_splits)
qed

lemma execNode_frame: "sameFrame n (snd (execNode cfg o' n))"
  by (simp add: execNode_def Node_Execute_frame)

lemma frame_shouldRepeat:
  "n_Step m = n_Step n \<Longrightarrow> ns_DoneCount (n_State m) = ns_DoneCount (n_State n)
    \<Longrightarrow> ns_ExitCode (n_State m) = ns_ExitCode (n_State n)
    \<Longrightarrow> shouldRepeatNode ce m e = shouldRepeatNode ce n e"
  by (simp add: shouldRepeatNode_def evalWhileCondition_def evalUntilCondition_def Let_def)

text \<open>The ways a pass goes round again: an inline retry, or a repeat.\<close>

lemma execIteration_again:
  assumes "execIteration cfg it n l = Again n' l'"
  obtains (retry) "nrp_Limit (n_retryPolicy n) > ns_RetryCount (n_State n)"
      "ns_RetryCount (n_State n') = ns_RetryCount (n_State n) + 1"
      "ns_DoneCount (n_State n') = ns_DoneCount (n_State n)"
      "n_Step n' = n_Step n" "n_retryPolicy n' = n_retryPolicy n" "n_Status n' = NodeRunning"
  | (repeat) n2 where "n_Step n' = n_Step n" "n_retryPolicy n' = n_retryPolicy n"
      "n_Status n' = NodeRunning"
      "ns_RetryCount (n_State n') = ns_RetryCount (n_State n)"
      "sameFrame n n2"
      "ns_DoneCount (n_State n') =
         (if n_Status n2 = NodeAborted then ns_DoneCount (n_State n) else ns_DoneCount (n_State n) + 1)"
      "handleNodeExecutionError cfg (it_canceledHandle it) (it_startedAt it) (it_now it)
         (fst (execNode cfg (it_outcome it) n)) (snd (execNode cfg (it_outcome it) n)) l = (False, n2, snd (snd
         (handleNodeExecutionError cfg (it_canceledHandle it) (it_startedAt it) (it_now it)
         (fst (execNode cfg (it_outcome it) n)) (snd (execNode cfg (it_outcome it) n)) l)))"
      "rep_RepeatMode (st_RepeatPolicy (n_Step n)) \<noteq> []"
      "rep_Limit (st_RepeatPolicy (n_Step n)) > 0 \<longrightarrow>
         ns_DoneCount (n_State n') < rep_Limit (st_RepeatPolicy (n_Step n))"
proof -
  obtain err n1 where e: "execNode cfg (it_outcome it) n = (err, n1)" by (cases "execNode cfg (it_outcome it) n")
  have f1: "sameFrame n n1" using execNode_frame[of n cfg "it_outcome it"] e by simp
  obtain r n2 l2 where h: "handleNodeExecutionError cfg (it_canceledHandle it) (it_startedAt it)
      (it_now it) err n1 l = (r, n2, l2)" by (cases "handleNodeExecutionError cfg (it_canceledHandle it)
        (it_startedAt it) (it_now it) err n1 l") auto
  show ?thesis
  proof (cases r)
    case True
    then have n': "n' = n2" using assms e h by (simp add: execIteration_def Let_def split: if_splits)
    show ?thesis
      by (rule retry) (use handle_retry[of cfg "it_canceledHandle it" "it_startedAt it" "it_now it" err n1 l n2 l2]
          h True n' f1 in \<open>auto simp: setter_defs sameFrame_def\<close>)
  next
    case False
    let ?n3 = "if n_Status n2 \<noteq> NodeAborted then IncDoneCount n2 else n2"
    have a: "\<not> it_canceledHead it" "n_Status n2 \<noteq> NodeRetrying" "shouldRepeatNode (it_condErr it) ?n3 err"
      "n' = fst (prepareNodeForRepeat ?n3 l2)"
      using assms e h False by (auto simp: execIteration_def Let_def split_beta split: if_splits)
    have "sameFrame n1 n2" using handle_stop[of cfg "it_canceledHandle it" "it_startedAt it" "it_now it" err n1 l n2 l2]
        h False a(2) by auto
    then have f2: "sameFrame n n2" using f1 sameFrame_trans by blast
    have st: "n_Step ?n3 = n_Step n" using f2 by (simp add: sameFrame_def IncDoneCount_def)
    show ?thesis
      by (rule repeat[of n2])
         (use a f2 st e h False in \<open>auto simp: prepareNodeForRepeat_def setter_defs sameFrame_def
            shouldRepeatNode_def RepeatModeWhile_def RepeatModeUntil_def Let_def split: if_splits\<close>)
  qed
qed

section \<open>How often a step is executed\<close>

lemma execLoop_retry_bound:
  assumes "rep_RepeatMode (st_RepeatPolicy (n_Step n)) = []"
    and "nat (nrp_Limit (n_retryPolicy n) - ns_RetryCount (n_State n)) < length its"
  shows "\<exists>e n' l'. execLoop cfg its n l = Some (e, n', l')"
  using assms
proof (induction its arbitrary: n l)
  case (Cons it its)
  show ?case
  proof (cases "execIteration cfg it n l")
    case (Again n' l')
    from Again show ?thesis
    proof (cases rule: execIteration_again)
      case retry
      have "\<exists>e m k. execLoop cfg its n' l' = Some (e, m, k)"
        by (rule Cons.IH) (use retry Cons.prems in simp_all)
      then show ?thesis using Again by simp
    qed (use Cons.prems in simp)
  qed simp
qed simp

text \<open>C38: a step without a repeat policy is executed at most once more than it has retries left:
  the execution loop ends after \<open>limit - retryCount + 1\<close> passes whatever the executor, the clock
  and the cancel flag do.\<close>

theorem execLoop_ends_within_retry_limit:
  assumes "rep_RepeatMode (st_RepeatPolicy (n_Step n)) = []"
    and "length its = nat (nrp_Limit (n_retryPolicy n) - ns_RetryCount (n_State n)) + 1"
  shows "\<exists>e n' l'. execLoop cfg its n l = Some (e, n', l')"
  using assms by (intro execLoop_retry_bound) simp_all

text \<open>No pass leaves the node aborted: no timeout of the DAG, no deadline error, no executor that
  reports an aborted node.\<close>

definition abortFree :: "IterIn \<Rightarrow> bool" where
  "abortFree it \<longleftrightarrow> eo_nodeStatus (it_outcome it) \<noteq> Some (Inr NodeAborted)
     \<and> eo_setupErr (it_outcome it) \<noteq> Some DeadlineExceeded
     \<and> eo_runErr (it_outcome it) \<noteq> Some DeadlineExceeded
     \<and> eo_captured (it_outcome it) \<noteq> Inl DeadlineExceeded
     \<and> eo_schemaErr (it_outcome it) \<noteq> Some DeadlineExceeded
     \<and> eo_nodeStatus (it_outcome it) \<noteq> Some (Inl DeadlineExceeded)"

lemma Node_Execute_no_deadline:
  assumes "abortFree it" "fst (Node_Execute (it_outcome it) n) = Some DeadlineExceeded"
  shows "st_Timeout (n_Step n) > 0"
proof -
  let ?o = "it_outcome it"
  obtain e n1 where s: "setupExecutor ?o n = (e, n1)" by (cases "setupExecutor ?o n")
  have st: "n_Step n1 = n_Step n" and e: "e \<noteq> Some DeadlineExceeded"
    using setupExecutor_frame[of n ?o] s assms(1)
    by (auto simp: sameFrame_def setupExecutor_def abortFree_def Let_def split: option.splits)
  obtain c err n2 where r: "runCommand ?o n1 = (c, err, n2)" by (cases "runCommand ?o n1") auto
  have err: "err = Some DeadlineExceeded \<Longrightarrow> st_Timeout (n_Step n) > 0"
    using r st assms(1) by (auto simp: runCommand_def handleCommandError_def handleTimeout_def
        abortFree_def Let_def split: option.splits if_splits)
  let ?n3 = "recordSubRuns ?o (SetExitCode c (SetError err n2))"
  have e3: "ns_Error (n_State ?n3) = err"
    by (simp add: recordSubRuns_def setter_defs Let_def split: option.split)
  obtain ce n4 where ce: "captureOutput ?o ?n3 = (ce, n4)" by (cases "captureOutput ?o ?n3")
  have e4: "ns_Error (n_State n4) = err" "ce \<noteq> Some DeadlineExceeded"
    using ce e3 assms(1) by (auto simp: captureOutput_def setVariable_def abortFree_def Let_def
        split: if_splits sum.splits)
  obtain se n5 where d: "determineNodeStatus ?o n4 = (se, n5)" by (cases "determineNodeStatus ?o n4")
  have e5: "ns_Error (n_State n5) = err" "se \<noteq> Some DeadlineExceeded"
    using d e4 assms(1) by (auto simp: determineNodeStatus_def SetStatus_def abortFree_def
        split: option.splits sum.splits)
  show ?thesis
    using assms s r ce d e e3 e4 e5 err
    by (auto simp: Node_Execute_def abortFree_def Let_def split: option.splits if_splits)
qed

lemma handle_not_aborted:
  assumes "handleNodeExecutionError cfg c st now e n l = (False, n', l')"
    and "n_Status n \<noteq> NodeAborted" "\<not> isTimeout cfg st now"
    and "e = Some DeadlineExceeded \<Longrightarrow> st_Timeout (n_Step n) > 0"
  shows "n_Status n' \<noteq> NodeAborted"
  using assms
  by (auto simp: handleNodeExecutionError_def shouldRetryNode_def Let_def split_beta
      split: option.splits if_splits)

lemma execLoop_repeat_bound:
  assumes "rc_timeout cfg \<le> 0" "rep_Limit (st_RepeatPolicy (n_Step n)) > 0"
    and "\<forall>it\<in>set its. abortFree it" "n_Status n = NodeRunning"
    and "nat (nrp_Limit (n_retryPolicy n) - ns_RetryCount (n_State n))
         + nat (rep_Limit (st_RepeatPolicy (n_Step n)) - ns_DoneCount (n_State n)) < length its"
  shows "\<exists>e n' l'. execLoop cfg its n l = Some (e, n', l')"
  using assms
proof (induction its arbitrary: n l)
  case (Cons it its)
  show ?case
  proof (cases "execIteration cfg it n l")
    case (Again n' l')
    from Again show ?thesis
    proof (cases rule: execIteration_again)
      case retry
      have "\<exists>e m k. execLoop cfg its n' l' = Some (e, m, k)"
        by (rule Cons.IH) (use retry Cons.prems in simp_all)
      then show ?thesis using Again by simp
    next
      case (repeat n2)
      let ?e = "fst (execNode cfg (it_outcome it) n)" and ?n1 = "snd (execNode cfg (it_outcome it) n)"
      have st: "n_Step ?n1 = n_Step n" using execNode_frame[of n cfg] by (simp add: sameFrame_def)
      have "n_Status n2 \<noteq> NodeAborted"
      proof (rule handle_not_aborted[OF repeat(7)])
        show "n_Status ?n1 \<noteq> NodeAborted"
          using Node_Execute_status[of "it_outcome it" n] Cons.prems
          by (auto simp: execNode_def abortFree_def)
        show "\<not> isTimeout cfg (it_startedAt it) (it_now it)" using Cons.prems by (simp add: isTimeout_def)
        show "?e = Some DeadlineExceeded \<Longrightarrow> 0 < st_Timeout (n_Step ?n1)"
          using Node_Execute_no_deadline[of it n] Cons.prems st by (auto simp: execNode_def split: if_splits)
      qed
      then have dn: "ns_DoneCount (n_State n') = ns_DoneCount (n_State n) + 1" using repeat(6) by simp
      have "\<exists>e m k. execLoop cfg its n' l' = Some (e, m, k)"
        by (rule Cons.IH) (use repeat dn Cons.prems in simp_all)
      then show ?thesis using Again by simp
    qed
  qed simp
qed simp

text \<open>With a repeat limit, and no timeout of the whole DAG, a repeated step is executed at most
  \<open>retries left + repeats left + 1\<close> times.\<close>

theorem execLoop_ends_within_repeat_limit:
  assumes "rc_timeout cfg \<le> 0" "rep_Limit (st_RepeatPolicy (n_Step n)) > 0"
    and "\<forall>it\<in>set its. abortFree it" "n_Status n = NodeRunning"
    and "length its = nat (nrp_Limit (n_retryPolicy n) - ns_RetryCount (n_State n))
         + nat (rep_Limit (st_RepeatPolicy (n_Step n)) - ns_DoneCount (n_State n)) + 1"
  shows "\<exists>e n' l'. execLoop cfg its n l = Some (e, n', l')"
  using assms by (intro execLoop_repeat_bound) simp_all

text \<open>A pass in which the command fails after the DAG's timeout has expired.\<close>

definition timedOutPass :: "RunnerConfig \<Rightarrow> IterIn \<Rightarrow> bool" where
  "timedOutPass cfg it \<longleftrightarrow> isTimeout cfg (it_startedAt it) (it_now it)
     \<and> \<not> it_canceledHead it \<and> \<not> it_canceledRepeat it
     \<and> eo_setupErr (it_outcome it) = None \<and> eo_runErr (it_outcome it) \<noteq> None
     \<and> eo_nodeStatus (it_outcome it) = None"

definition repeatsUntilSuccess :: "Node \<Rightarrow> bool" where
  "repeatsUntilSuccess n \<longleftrightarrow> (let rp = st_RepeatPolicy (n_Step n)
     in rep_RepeatMode rp = RepeatModeUntil \<and> rep_Condition rp = None \<and> rep_ExitCode rp = []
        \<and> (rep_Limit rp \<le> 0 \<or> ns_DoneCount (n_State n) < rep_Limit rp))
     \<and> st_Timeout (n_Step n) = 0 \<and> st_Output (n_Step n) = [] \<and> n_Status n = NodeRunning"

lemma timedOutPass_exec:
  assumes "timedOutPass cfg it" "\<not> rc_dry cfg" "repeatsUntilSuccess n"
  shows "\<exists>n1 e. execNode cfg (it_outcome it) n = (Some e, n1) \<and> sameFrame n n1 \<and> n_Status n1 = NodeRunning"
proof -
  let ?o = "it_outcome it"
  obtain e where e: "eo_runErr ?o = Some e" using assms(1) by (auto simp: timedOutPass_def)
  obtain n1 where s: "setupExecutor ?o n = (None, n1)"
    using assms(1) by (simp add: setupExecutor_def timedOutPass_def Let_def)
  have n1: "n_Step n1 = n_Step n" "n_Status n1 = n_Status n"
    using setupExecutor_frame[of n ?o] setupExecutor_status[of ?o n] s by (simp_all add: sameFrame_def)
  have "\<exists>c. runCommand ?o n1 = (c, Some e, SetError (Some e) n1)"
    using e n1 assms(3)
    by (simp add: runCommand_def handleCommandError_def repeatsUntilSuccess_def Let_def split: option.split)
  then obtain c n2 where r: "runCommand ?o n1 = (c, Some e, n2)" "n_Status n2 = n_Status n"
    "n_Step n2 = n_Step n" using n1 by fastforce
  let ?n3 = "recordSubRuns ?o (SetExitCode c (SetError (Some e) n2))"
  have n3: "n_Step ?n3 = n_Step n" "ns_Error (n_State ?n3) = Some e"
    using r(3) by (simp_all add: recordSubRuns_def setter_defs Let_def split: option.split)
  then have c: "captureOutput ?o ?n3 = (None, ?n3)"
    using assms(3) by (simp add: captureOutput_def repeatsUntilSuccess_def)
  have d: "determineNodeStatus ?o ?n3 = (None, ?n3)"
    using assms(1) by (simp add: determineNodeStatus_def timedOutPass_def)
  have ex: "Node_Execute ?o n = (Some e, ?n3)"
    using s r c d n3 by (simp add: Node_Execute_def Let_def)
  moreover have "n_Status ?n3 = NodeRunning"
    using r assms(3) by (simp add: repeatsUntilSuccess_def)
  moreover have "sameFrame n ?n3" using Node_Execute_frame[of n ?o] ex by simp
  ultimately show ?thesis using assms(2) by (simp add: execNode_def)
qed

lemma timedOutPass_again:
  assumes "timedOutPass cfg it" "\<not> rc_dry cfg" "repeatsUntilSuccess n"
  shows "\<exists>n' l'. execIteration cfg it n l = Again n' l' \<and> repeatsUntilSuccess n'"
proof -
  obtain e n1 where x: "execNode cfg (it_outcome it) n = (Some e, n1)" "sameFrame n n1"
    "n_Status n1 = NodeRunning" using timedOutPass_exec[OF assms] by blast
  have t: "st_Timeout (n_Step n1) = 0" using assms(3) x(2) by (simp add: repeatsUntilSuccess_def sameFrame_def)
  have h: "handleNodeExecutionError cfg c (it_startedAt it) (it_now it) (Some e) n1 l
      = (False, SetStatus NodeAborted n1, Some e)" for c
    using assms(1) x(3) t by (simp add: handleNodeExecutionError_def timedOutPass_def Let_def)
  have rep: "shouldRepeatNode ce (SetStatus NodeAborted n1) (Some e)" for ce
    using assms(3) x(2)
    by (auto simp: shouldRepeatNode_def evalUntilCondition_def repeatsUntilSuccess_def sameFrame_def
        RepeatModeWhile_def RepeatModeUntil_def SetStatus_def Let_def)
  have "repeatsUntilSuccess (fst (prepareNodeForRepeat (SetStatus NodeAborted n1) (Some e)))"
    using assms(3) x(2)
    by (simp add: prepareNodeForRepeat_def repeatsUntilSuccess_def sameFrame_def setter_defs Let_def)
  then show ?thesis
    using assms(1) x(1) h rep
    by (auto simp: execIteration_def timedOutPass_def Let_def split_beta)
qed


section \<open>Examples\<close>

definition exampleCfg :: RunnerConfig where
  "exampleCfg = \<lparr>rc_maxActiveRuns = 0, rc_timeout = 0, rc_dry = False, rc_externalRetry = False,
     rc_progress = True, rc_forcedStatus = None, rc_logContains = (\<lambda>_ _. Inr False),
     rc_intString = (\<lambda>_. Inr 0)\<rparr>"

definition okOutcome :: ExecOutcome where
  "okOutcome = \<lparr>eo_setupErr = None, eo_runErr = None, eo_deadline = False, eo_exitCoder = None,
     eo_subRuns = None, eo_captured = Inr [], eo_schemaErr = None, eo_nodeStatus = None\<rparr>"

definition failOutcome :: "int \<Rightarrow> ExecOutcome" where
  "failOutcome c = okOutcome\<lparr>eo_runErr := Some (ExitError c)\<rparr>"

definition plainPass :: "ExecOutcome \<Rightarrow> IterIn" where
  "plainPass o' = \<lparr>it_canceledHead = False, it_outcome = o', it_canceledHandle = False,
     it_startedAt = 1, it_now = 2, it_condErr = None, it_canceledRepeat = False\<rparr>"

definition runningNode :: "Step \<Rightarrow> int \<Rightarrow> Node" where
  "runningNode st limit = (NewNode st (zeroNodeState\<lparr>ns_Status := NodeRunning\<rparr>))
     \<lparr>n_retryPolicy := \<lparr>nrp_Limit = limit, nrp_Interval = 0, nrp_ExitCodes = []\<rparr>\<rparr>"

theorem execLoop_ends_within_retry_limit_witness:
  "\<exists>e n' l'. execLoop exampleCfg (replicate 3 (plainPass (failOutcome 7)))
     (runningNode (zeroStep\<lparr>st_Name := ''a''\<rparr>) 2) None = Some (e, n', l')"
  by (rule execLoop_ends_within_retry_limit)
     (simp_all add: runningNode_def NewNode_def zeroStep_def zeroRepeatPolicy_def zeroNodeState_def)

definition repeatStep :: "int \<Rightarrow> Step" where
  "repeatStep limit = zeroStep\<lparr>st_Name := ''poll'', st_RepeatPolicy := zeroRepeatPolicy
     \<lparr>rep_RepeatMode := RepeatModeUntil, rep_Limit := limit\<rparr>\<rparr>"

theorem execLoop_ends_within_repeat_limit_witness:
  "\<exists>e n' l'. execLoop exampleCfg (replicate 4 (plainPass (failOutcome 7)))
     (runningNode (repeatStep 3) 0) None = Some (e, n', l')"
  by (rule execLoop_ends_within_repeat_limit)
     (simp_all add: runningNode_def NewNode_def repeatStep_def zeroStep_def zeroRepeatPolicy_def
       zeroNodeState_def exampleCfg_def abortFree_def plainPass_def failOutcome_def okOutcome_def)


section \<open>The final status of a step\<close>

lemma handle_succeeded:
  assumes "handleNodeExecutionError cfg c st now (Some e) n l = (r, n', l')"
    and "n_Status n' = NodeSucceeded"
  shows "n_Status n = NodeSucceeded \<or> co_MarkSuccess (st_ContinueOn (n_Step n))"
proof -
  have "fst (ShouldMarkSuccess lc (SetStatus NodeFailed n)) \<Longrightarrow> co_MarkSuccess (st_ContinueOn (n_Step n))" for lc
    by (simp add: fst_ShouldMarkSuccess)
  then show ?thesis
    using assms
    by (auto simp: handleNodeExecutionError_def shouldRetryNode_def Let_def split_beta split: if_splits)
qed

lemma Node_Execute_error_succeeded:
  assumes "Node_Execute o' n = (Some e, n1)" "n_Status n1 = NodeSucceeded" "n_Status n = NodeRunning"
    and "eo_nodeStatus o' = Some (Inr NodeSucceeded) \<Longrightarrow> eo_runErr o' = None"
  shows False
proof -
  have s: "eo_nodeStatus o' = Some (Inr NodeSucceeded)"
    using Node_Execute_status[of o' n] assms(1-3) by auto
  then have r: "eo_runErr o' = None" by (rule assms(4))
  obtain se m where m: "setupExecutor o' n = (se, m)" by (cases "setupExecutor o' n")
  have sm: "n_Status m = NodeRunning" using setupExecutor_status[of o' n] m assms(3) by simp
  let ?n3 = "recordSubRuns o' (SetExitCode 0 (SetError None m))"
  have e3: "ns_Error (n_State ?n3) = None" "n_Status ?n3 = NodeRunning"
    using sm by (simp_all add: recordSubRuns_def setter_defs Let_def split: option.split)
  obtain ce n4 where ce: "captureOutput o' ?n3 = (ce, n4)" by (cases "captureOutput o' ?n3")
  have e4: "ns_Error (n_State n4) = None" "n_Status n4 = NodeRunning"
    using ce e3 captureOutput_status[of o' ?n3]
    by (auto simp: captureOutput_def setVariable_def Let_def split: if_splits sum.splits)
  have d: "determineNodeStatus o' n4 = (None, SetStatus NodeSucceeded n4)"
    using s by (simp add: determineNodeStatus_def)
  show False
    using assms(1,2) m r ce d sm e4
    by (auto simp: Node_Execute_def runCommand_def SetStatus_def Let_def split: option.splits if_splits)
qed

lemma execIteration_returned:
  assumes "execIteration cfg it n l = Leave Returned n' l'" "n_Status n' = NodeSucceeded"
    and "n_Status n = NodeRunning" "\<not> co_MarkSuccess (st_ContinueOn (n_Step n))"
    and "eo_nodeStatus (it_outcome it) = Some (Inr NodeSucceeded) \<Longrightarrow> eo_runErr (it_outcome it) = None"
  shows False
proof -
  obtain err n1 where e: "execNode cfg (it_outcome it) n = (err, n1)" by (cases "execNode cfg (it_outcome it) n")
  have st: "n_Step n1 = n_Step n" using execNode_frame[of n cfg "it_outcome it"] e by (simp add: sameFrame_def)
  obtain r n2 l2 where h: "handleNodeExecutionError cfg (it_canceledHandle it) (it_startedAt it)
      (it_now it) err n1 l = (r, n2, l2)" by (cases "handleNodeExecutionError cfg (it_canceledHandle it)
        (it_startedAt it) (it_now it) err n1 l") auto
  have s2: "n_Status n2 = NodeSucceeded" "err \<noteq> None"
    using assms(1,2) e h by (auto simp: execIteration_def Let_def split_beta split: if_splits)
  then obtain x where x: "err = Some x" by blast
  have "n_Status n1 = NodeSucceeded"
    using handle_succeeded[OF h[unfolded x] s2(1)] st assms(4) by simp
  with Node_Execute_error_succeeded[of "it_outcome it" n x n1] e x assms(3,5) show False
    by (auto simp: execNode_def split: if_splits)
qed

lemma execLoop_returned:
  assumes "execLoop cfg its n l = Some (Returned, n', l')"
    and "n_Status n = NodeRunning" "\<not> co_MarkSuccess (st_ContinueOn (n_Step n))"
    and "\<forall>it\<in>set its. eo_nodeStatus (it_outcome it) = Some (Inr NodeSucceeded)
           \<longrightarrow> eo_runErr (it_outcome it) = None"
  shows "n_Status n' \<noteq> NodeSucceeded"
  using assms
proof (induction its arbitrary: n l)
  case (Cons it its)
  show ?case
  proof (cases "execIteration cfg it n l")
    case (Again m k)
    have "n_Step m = n_Step n" "n_Status m = NodeRunning" using Again by (auto elim: execIteration_again)
    then show ?thesis using Cons Again by simp
  next
    case (Leave e m k)
    then show ?thesis using execIteration_returned[of cfg it n l n' l'] Cons.prems by auto
  qed
qed simp

lemma execIteration_step:
  assumes "execIteration cfg it n l = Leave e n' l'"
  shows "n_Step n' = n_Step n"
proof -
  obtain err n1 where x: "execNode cfg (it_outcome it) n = (err, n1)" by (cases "execNode cfg (it_outcome it) n")
  have f1: "n_Step n1 = n_Step n" using execNode_frame[of n cfg "it_outcome it"] x by (simp add: sameFrame_def)
  obtain r n2 l2 where h: "handleNodeExecutionError cfg (it_canceledHandle it) (it_startedAt it)
      (it_now it) err n1 l = (r, n2, l2)" by (cases "handleNodeExecutionError cfg (it_canceledHandle it)
        (it_startedAt it) (it_now it) err n1 l") auto
  have "n_Step n2 = n_Step n1" if "\<not> r"
    using handle_stop[of cfg "it_canceledHandle it" "it_startedAt it" "it_now it" err n1 l n2 l2] h that
    by (auto simp: sameFrame_def setter_defs)
  then show ?thesis
    using assms x h f1
    by (auto simp: execIteration_def IncDoneCount_def Let_def split_beta split: if_splits)
qed

lemma execLoop_step: "execLoop cfg its n l = Some (e, n', l') \<Longrightarrow> n_Step n' = n_Step n"
proof (induction its arbitrary: n l)
  case (Cons it its)
  show ?case
  proof (cases "execIteration cfg it n l")
    case (Again m k)
    have "n_Step m = n_Step n" using Again by (auto elim: execIteration_again)
    then show ?thesis using Cons Again by simp
  next
    case (Leave e m k)
    then show ?thesis using Cons.prems execIteration_step[OF Leave] by simp
  qed
qed simp

lemma finalStatus_approval:
  "st_Approval (n_Step n) \<noteq> None \<Longrightarrow> n_Status (finalStatus c n) \<noteq> NodeSucceeded"
  by (auto simp: finalStatus_def Let_def)

lemma teardownNode_status:
  "n_Status (fst (teardownNode cfg ce n l)) = n_Status n \<or> n_Status (fst (teardownNode cfg ce n l)) = NodeFailed"
  by (auto simp: teardownNode_def Teardown_def split: option.split)

lemma meetsPreconditions_status:
  "meetsPreconditions e n = (False, m) \<Longrightarrow> n_Status m = NodeSkipped"
  by (auto simp: meetsPreconditions_def split: option.splits)

text \<open>C40: the approval gate: a step with an approval configuration never ends as succeeded, so its
  dependents cannot start before a human has approved it; provided the step is not marked
  successful by \<open>continueOn.markSuccess\<close> and the executor reports success only for a command
  that ran without error.\<close>

theorem approval_gate:
  assumes "st_Approval (n_Step n) \<noteq> None" "n_Status n = NodeRunning"
    and "\<not> co_MarkSuccess (st_ContinueOn (n_Step n))"
    and "\<forall>it\<in>set its. eo_nodeStatus (it_outcome it) = Some (Inr NodeSucceeded)
           \<longrightarrow> eo_runErr (it_outcome it) = None"
    and "runNodeExecution cfg pre its c closeErr n l = Some (n', l')"
  shows "n_Status n' \<noteq> NodeSucceeded"
proof (cases "meetsPreconditions pre n")
  case (Pair b n1)
  show ?thesis
  proof (cases b)
    case False
    then show ?thesis using assms(5) Pair meetsPreconditions_status[of pre n n1]
      by (auto simp: runNodeExecution_def)
  next
    case True
    then have n1: "n1 = n" using Pair by (auto simp: meetsPreconditions_def split: option.splits)
    obtain e n2 l2 where x: "execLoop cfg its n l = Some (e, n2, l2)"
      using assms(5) Pair True n1 by (auto simp: runNodeExecution_def split: option.splits)
    show ?thesis
    proof (cases e)
      case Returned
      then show ?thesis
        using assms(5) Pair True n1 x execLoop_returned[OF x[unfolded Returned] assms(2,3,4)]
        by (simp add: runNodeExecution_def)
    next
      case Broke
      have "st_Approval (n_Step n2) \<noteq> None" using execLoop_step[OF x] assms(1) by simp
      from finalStatus_approval[OF this, of c] show ?thesis
        using assms(5) Pair True n1 x Broke teardownNode_status[of cfg closeErr "finalStatus c n2" l2]
        by (auto simp: runNodeExecution_def)
    qed
  qed
qed

definition approvalStep :: "bool \<Rightarrow> Step" where
  "approvalStep markSuccess = zeroStep\<lparr>st_Name := ''deploy'',
     st_Approval := Some \<lparr>ap_Prompt = [], ap_Input = [], ap_Required = []\<rparr>,
     st_ContinueOn := zeroContinueOn\<lparr>co_Failure := True, co_MarkSuccess := markSuccess\<rparr>\<rparr>"

theorem approval_gate_witness:
  "\<exists>n' l'. runNodeExecution exampleCfg None [plainPass okOutcome] False None
       (runningNode (approvalStep False) 0) None = Some (n', l')
     \<and> n_Status n' \<noteq> NodeSucceeded \<and> n_Status n' = NodeWaiting"
proof -
  have "map_option (\<lambda>(n, l). n_Status n) (runNodeExecution exampleCfg None [plainPass okOutcome] False None
       (runningNode (approvalStep False) 0) None) = Some NodeWaiting"
    by code_simp
  then obtain n' l' where x: "runNodeExecution exampleCfg None [plainPass okOutcome] False None
       (runningNode (approvalStep False) 0) None = Some (n', l')" "n_Status n' = NodeWaiting"
    by auto
  have "n_Status n' \<noteq> NodeSucceeded"
    by (rule approval_gate[OF _ _ _ _ x(1)])
       (simp_all add: runningNode_def NewNode_def approvalStep_def zeroNodeState_def zeroContinueOn_def
          plainPass_def okOutcome_def)
  with x show ?thesis by blast
qed

text \<open>The gate is bypassed by \<open>markSuccess\<close>: a failing command of a step with an approval
  configuration and \<open>continueOn.markSuccess\<close> ends as succeeded when progress is reported,
  because the loop returns early, and waits for approval when it is not.\<close>

theorem approval_gate_bypass:
  "map_option (\<lambda>(n, l). n_Status n) (runNodeExecution exampleCfg None [plainPass (failOutcome 1)]
     False None (runningNode (approvalStep True) 0) None) = Some NodeSucceeded
   \<and> map_option (\<lambda>(n, l). n_Status n) (runNodeExecution (exampleCfg\<lparr>rc_progress := False\<rparr>) None
     [plainPass (failOutcome 1)] False None (runningNode (approvalStep True) 0) None) = Some NodeWaiting"
  by code_simp

text \<open>\<open>continueOn.markSuccess\<close> is ignored while retries are left: a failed step whose exit code is
  not one of the retriable ones ends as failed, whereas with no retries configured the same
  failure is marked successful.\<close>

theorem markSuccess_needs_exhausted_retries:
  assumes "n_Status n = NodeRunning" "\<not> isTimeout cfg st now"
    and "co_Failure (st_ContinueOn (n_Step n))" "co_MarkSuccess (st_ContinueOn (n_Step n))"
    and "\<not> ShouldRetry (n_retryPolicy n) c"
  shows "n_Status (fst (snd (handleNodeExecutionError cfg False st now (Some (ExitError c)) n l))) =
    (if nrp_Limit (n_retryPolicy n) > ns_RetryCount (n_State n) then NodeFailed else NodeSucceeded)"
proof -
  have "fst (ShouldMarkSuccess lc (SetStatus NodeFailed n))" for lc
    using assms(3,4) by (simp add: fst_ShouldMarkSuccess ShouldContinue_def Let_def)
  then show ?thesis
    using assms by (simp add: handleNodeExecutionError_def shouldRetryNode_def exitCodeFromError_def
        Let_def split_beta)
qed

theorem markSuccess_needs_exhausted_retries_witness:
  "let n = (runningNode (approvalStep True) 3)\<lparr>n_retryPolicy :=
             \<lparr>nrp_Limit = 3, nrp_Interval = 0, nrp_ExitCodes = [75]\<rparr>\<rparr>
   in n_Status (fst (snd (handleNodeExecutionError exampleCfg False 1 2 (Some (ExitError 1)) n None)))
        = NodeFailed"
  unfolding Let_def
  by (subst markSuccess_needs_exhausted_retries)
     (simp_all add: runningNode_def NewNode_def approvalStep_def zeroNodeState_def isTimeout_def
       exampleCfg_def ShouldRetry_def)

lemma handle_running:
  assumes "handleNodeExecutionError cfg c st now (Some e) n l = (False, n', l')"
    and "n_Status n' = NodeRunning"
  shows "c"
  using assms
  by (auto simp: handleNodeExecutionError_def shouldRetryNode_def Let_def split_beta split: if_splits)

lemma handle_started:
  assumes "handleNodeExecutionError cfg c st now e n l = (r, n', l')" "n_Status n \<noteq> NodeNotStarted"
  shows "n_Status n' \<noteq> NodeNotStarted"
  using assms
  by (auto simp: handleNodeExecutionError_def shouldRetryNode_def Let_def split_beta
      split: if_splits option.splits)

lemma execIteration_leave_status:
  assumes "execIteration cfg it n l = Leave e n' l'" "n_Status n = NodeRunning"
    and "eo_nodeStatus (it_outcome it) \<noteq> Some (Inr NodeNotStarted)"
  shows "n_Status n' \<noteq> NodeNotStarted
    \<and> (e = Returned \<longrightarrow> n_Status n' = NodeRunning \<longrightarrow> rc_progress cfg \<and> it_canceledHandle it)"
proof -
  obtain err n1 where x: "execNode cfg (it_outcome it) n = (err, n1)" by (cases "execNode cfg (it_outcome it) n")
  have s1: "n_Status n1 \<noteq> NodeNotStarted"
    using Node_Execute_status[of "it_outcome it" n] x assms(2,3)
    by (auto simp: execNode_def split: if_splits)
  obtain r n2 l2 where h: "handleNodeExecutionError cfg (it_canceledHandle it) (it_startedAt it)
      (it_now it) err n1 l = (r, n2, l2)" by (cases "handleNodeExecutionError cfg (it_canceledHandle it)
        (it_startedAt it) (it_now it) err n1 l") auto
  have s2: "n_Status n2 \<noteq> NodeNotStarted" using handle_started[OF h s1] .
  have "it_canceledHandle it" if "\<not> r" "err \<noteq> None" "n_Status n2 = NodeRunning"
    using handle_running[of cfg "it_canceledHandle it" "it_startedAt it" "it_now it" "the err" n1 l n2 l2] h that
    by auto
  then show ?thesis
    using assms(1,2) x h s2 by (auto simp: execIteration_def Let_def split_beta split: if_splits)
qed

lemma execLoop_status:
  assumes "execLoop cfg its n l = Some (e, n', l')" "n_Status n = NodeRunning"
    and "\<forall>it\<in>set its. eo_nodeStatus (it_outcome it) \<noteq> Some (Inr NodeNotStarted)"
  shows "n_Status n' \<noteq> NodeNotStarted
    \<and> (e = Returned \<longrightarrow> n_Status n' = NodeRunning \<longrightarrow> rc_progress cfg \<and> (\<exists>it\<in>set its. it_canceledHandle it))"
  using assms
proof (induction its arbitrary: n l)
  case (Cons it its)
  show ?case
  proof (cases "execIteration cfg it n l")
    case (Again m k)
    have "n_Status m = NodeRunning" using Again by (auto elim: execIteration_again)
    then show ?thesis using Cons Again by auto
  next
    case (Leave e m k)
    then show ?thesis using execIteration_leave_status[OF Leave] Cons.prems by auto
  qed
qed simp

lemma finalStatus_started:
  "n_Status n \<noteq> NodeNotStarted \<Longrightarrow> n_Status (finalStatus c n) \<noteq> NodeNotStarted \<and> n_Status (finalStatus c n) \<noteq> NodeRunning"
  by (auto simp: finalStatus_def Let_def)

text \<open>A step that was started is never left unstarted, and it is left in the running state only
  when the run was canceled while its command failed and progress is reported.\<close>

theorem runNodeExecution_settles:
  assumes "runNodeExecution cfg pre its c closeErr n l = Some (n', l')" "n_Status n = NodeRunning"
    and "\<forall>it\<in>set its. eo_nodeStatus (it_outcome it) \<noteq> Some (Inr NodeNotStarted)"
  shows "n_Status n' \<noteq> NodeNotStarted
    \<and> (n_Status n' = NodeRunning \<longrightarrow> rc_progress cfg \<and> (\<exists>it\<in>set its. it_canceledHandle it))"
proof (cases "meetsPreconditions pre n")
  case (Pair b n1)
  show ?thesis
  proof (cases b)
    case False
    then show ?thesis using assms(1) Pair meetsPreconditions_status[of pre n n1]
      by (auto simp: runNodeExecution_def)
  next
    case True
    then have n1: "n1 = n" using Pair by (auto simp: meetsPreconditions_def split: option.splits)
    obtain e n2 l2 where x: "execLoop cfg its n l = Some (e, n2, l2)"
      using assms(1) Pair True n1 by (auto simp: runNodeExecution_def split: option.splits)
    note s = execLoop_status[OF x assms(2,3)]
    show ?thesis
    proof (cases e)
      case Returned
      then show ?thesis using assms(1) Pair True n1 x s by (simp add: runNodeExecution_def)
    next
      case Broke
      then show ?thesis
        using assms(1) Pair True n1 x s finalStatus_started[of n2 c]
          teardownNode_status[of cfg closeErr "finalStatus c n2" l2]
        by (auto simp: runNodeExecution_def)
    qed
  qed
qed

theorem runNodeExecution_settles_witness:
  "\<exists>n' l'. runNodeExecution exampleCfg None [plainPass (failOutcome 1)] False None
       (runningNode zeroStep 0) None = Some (n', l')
     \<and> n_Status n' \<noteq> NodeNotStarted \<and> n_Status n' \<noteq> NodeRunning"
proof -
  have "runNodeExecution exampleCfg None [plainPass (failOutcome 1)] False None
       (runningNode zeroStep 0) None \<noteq> None" by code_simp
  then obtain n' l' where x: "runNodeExecution exampleCfg None [plainPass (failOutcome 1)] False None
       (runningNode zeroStep 0) None = Some (n', l')" by auto
  have "n_Status n' \<noteq> NodeNotStarted \<and> (n_Status n' = NodeRunning \<longrightarrow> rc_progress exampleCfg
      \<and> (\<exists>it\<in>set [plainPass (failOutcome 1)]. it_canceledHandle it))"
    by (rule runNodeExecution_settles[OF x])
       (simp_all add: runningNode_def NewNode_def zeroNodeState_def plainPass_def failOutcome_def okOutcome_def)
  with x show ?thesis by (simp add: plainPass_def)
qed

text \<open>A repeated step whose command fails after the run was canceled is left running for ever:
  the runner's final pass over running nodes is skipped, and \<open>Signal\<close> does not touch repeated
  steps.\<close>

theorem canceled_repeat_left_running:
  "map_option (\<lambda>(n, l). n_Status n) (runNodeExecution exampleCfg None
     [(plainPass (failOutcome 1))\<lparr>it_canceledHandle := True, it_canceledRepeat := True\<rparr>]
     True None (runningNode (repeatStep 3) 0) None) = Some NodeRunning"
  by code_simp

end
