(* ===== verification/Runner.thy ===== *)
theory Runner
  imports Runner_Node Plan_Retry
begin

text \<open>
  The scheduler of one run (\<open>internal/runtime/runner.go\<close>): which nodes are ready,
  what the completion of a node triggers, the status of the run, and \<open>Run\<close> itself as
  a machine whose transitions are labelled with events.  Goroutines, the main loop and the
  caller of \<open>Signal\<close> interleave; an event carries what the program reads from outside
  (the executor's outcome, clocks, errors of the file system).
\<close>

section \<open>Readiness\<close>

text \<open>
  \<open>isReady\<close> over the dependencies of node \<open>i\<close>.  It may mark the node, and the
  decision to continue past a failed dependency is cached in that dependency.
\<close>

fun readyDeps :: "logReader \<Rightarrow> nat \<Rightarrow> nat list \<Rightarrow> Plan \<Rightarrow> bool \<times> Plan" where
  "readyDeps lc i [] p = (True, p)"
| "readyDeps lc i (d # ds) p =
     (case GetNode p d of None \<Rightarrow> (False, p)
      | Some dep \<Rightarrow> (case n_Status dep of
          NodeSucceeded \<Rightarrow> readyDeps lc i ds p
        | NodePartiallySucceeded \<Rightarrow> readyDeps lc i ds p
        | NodeFailed \<Rightarrow>
            (let (cont, dep') = ShouldContinue lc dep; p' = updNode d (\<lambda>_. dep') p
             in if cont then readyDeps lc i ds p'
                else (False, updNode i (SetError (Some ErrUpstreamFailed) \<circ> SetStatus NodeAborted) p'))
        | NodeSkipped \<Rightarrow>
            (let (cont, dep') = ShouldContinue lc dep; p' = updNode d (\<lambda>_. dep') p
             in if cont then readyDeps lc i ds p'
                else (False, updNode i (SetError (Some ErrUpstreamSkipped) \<circ> SetStatus NodeSkipped) p'))
        | NodeAborted \<Rightarrow> (False, updNode i (SetStatus NodeAborted) p)
        | NodeRejected \<Rightarrow>
            (False, updNode i (SetError (Some ErrUpstreamRejected) \<circ> SetStatus NodeAborted) p)
        | NodeNotStarted \<Rightarrow> (False, p)
        | NodeRunning \<Rightarrow> (False, p)
        | NodeRetrying \<Rightarrow> (False, p)
        | NodeWaiting \<Rightarrow> (False, p)))"

definition isReady :: "logReader \<Rightarrow> nat \<Rightarrow> Plan \<Rightarrow> bool \<times> Plan" where
  "isReady lc i p = readyDeps lc i (Dependencies p i) p"

section \<open>Completion\<close>

text \<open>
  The children of a completed node: a ready one is sent to \<open>readyCh\<close>, one that
  \<open>isReady\<close> has marked joins the queue.  The first component of the result says that the
  main loop is blocked in the send to a full channel, which only it receives from.
\<close>

fun visitChildren :: "logReader \<Rightarrow> nat \<Rightarrow> nat list \<Rightarrow> Plan \<Rightarrow> nat list \<Rightarrow> nat list
    \<Rightarrow> bool \<times> Plan \<times> nat list \<times> nat list" where
  "visitChildren lc cap [] p ready queue = (False, p, ready, queue)"
| "visitChildren lc cap (c # cs) p ready queue =
     (if statusOf p c = NodeNotStarted then
        (let (r, p') = isReady lc c p
         in if r then
              (if length ready < cap then visitChildren lc cap cs p' (ready @ [c]) queue
               else (True, p', ready, queue))
            else if statusOf p' c \<noteq> NodeNotStarted
            then visitChildren lc cap cs p' ready (queue @ [c])
            else visitChildren lc cap cs p' ready queue)
      else visitChildren lc cap cs p ready queue)"

definition unstarted :: "Plan \<Rightarrow> nat set" where
  "unstarted p = {i \<in> fset (fmdom (p_nodeByID p)). statusOf p i = NodeNotStarted}"

text \<open>What a pass of \<open>isReady\<close> may do to a plan: only node \<open>i\<close> may leave the unstarted state.\<close>

definition marksOnly :: "nat \<Rightarrow> Plan \<Rightarrow> Plan \<Rightarrow> bool" where
  "marksOnly i p q \<longleftrightarrow> p_nodes q = p_nodes p \<and> Dependents q = Dependents p \<and> Dependencies q = Dependencies p
     \<and> fmdom (p_nodeByID q) = fmdom (p_nodeByID p)
     \<and> p_startedAt q = p_startedAt p \<and> p_finishedAt q = p_finishedAt p
     \<and> (\<forall>j. map_option n_Step (GetNode q j) = map_option n_Step (GetNode p j))
     \<and> (\<forall>j. j \<noteq> i \<longrightarrow> statusOf q j = statusOf p j)
     \<and> (statusOf q i = statusOf p i \<or> statusOf q i \<in> {NodeAborted, NodeSkipped})"

lemma marksOnly_refl [simp]: "marksOnly i p p"
  by (simp add: marksOnly_def)

lemma marksOnly_trans: "marksOnly i p q \<Longrightarrow> marksOnly i q r \<Longrightarrow> marksOnly i p r"
  by (auto simp: marksOnly_def)

lemma updNode_dom [simp]: "fmdom (p_nodeByID (updNode i f p)) = fmdom (p_nodeByID p)"
  by (auto simp: updNode_def GetNode_def fmlookup_dom_iff split: option.splits)

lemma updNode_status:
  "statusOf (updNode i f p) j = (if j = i then (case GetNode p i of None \<Rightarrow> NodeNotStarted
     | Some n \<Rightarrow> n_Status (f n)) else statusOf p j)"
  by (auto simp: statusOf_def updNode_get split: option.splits)

lemma marksOnly_upd:
  assumes "\<And>n. n_Status (f n) \<in> {NodeAborted, NodeSkipped}" "\<And>n. n_Step (f n) = n_Step n"
  shows "marksOnly i p (updNode i f p)"
  using assms by (auto simp: marksOnly_def updNode_status updNode_get statusOf_def option.map_comp comp_def
      split: option.split)

lemma marksOnly_same:
  assumes "GetNode p d = Some n" "n_Status m = n_Status n" "n_Step m = n_Step n"
  shows "marksOnly i p (updNode d (\<lambda>_. m) p)"
  using assms by (auto simp: marksOnly_def updNode_status updNode_get statusOf_def)

text \<open>The dependency lets its dependents run.\<close>

definition depOK :: "logReader \<Rightarrow> Plan \<Rightarrow> nat \<Rightarrow> bool" where
  "depOK lc p d = (case GetNode p d of None \<Rightarrow> False
     | Some n \<Rightarrow> n_Status n = NodeSucceeded \<or> n_Status n = NodePartiallySucceeded
         \<or> (n_Status n = NodeFailed \<or> n_Status n = NodeSkipped) \<and> fst (ShouldContinue lc n))"

definition openStatus :: "NodeStatus \<Rightarrow> bool" where
  "openStatus s \<longleftrightarrow> s \<in> {NodeNotStarted, NodeRunning, NodeRetrying, NodeWaiting}"

lemma openStatus_simps [simp]:
  "openStatus NodeNotStarted" "openStatus NodeRunning" "openStatus NodeRetrying" "openStatus NodeWaiting"
  "\<not> openStatus NodeSucceeded" "\<not> openStatus NodePartiallySucceeded" "\<not> openStatus NodeFailed"
  "\<not> openStatus NodeSkipped" "\<not> openStatus NodeAborted" "\<not> openStatus NodeRejected"
  by (simp_all add: openStatus_def)

lemma readyDeps_spec:
  "readyDeps lc i ds p = (r, p') \<Longrightarrow> marksOnly i p p'
     \<and> (r \<longrightarrow> (\<forall>d\<in>set ds. depOK lc p d) \<and> statusOf p' = statusOf p)
     \<and> (\<not> r \<and> GetNode p i \<noteq> None \<and> statusOf p' i = NodeNotStarted \<longrightarrow> (\<exists>d\<in>set ds. openStatus (statusOf p d)))"
proof (induction ds arbitrary: p)
  case Nil
  then show ?case by simp
next
  case (Cons d ds)
  show ?case
  proof (cases "GetNode p d")
    case None
    then show ?thesis using Cons.prems by (auto simp: statusOf_def)
  next
    case (Some dep)
    have st: "statusOf p d = n_Status dep" using Some by (simp add: statusOf_def)
    obtain c dep' where sc: "ShouldContinue lc dep = (c, dep')" by (cases "ShouldContinue lc dep")
    have dep': "n_Status dep' = n_Status dep" "n_Step dep' = n_Step dep"
      using ShouldContinue_frame[of lc dep] sc by simp_all
    let ?q = "updNode d (\<lambda>_. dep') p"
    have q1: "marksOnly i p ?q" by (rule marksOnly_same[OF Some dep'])
    have q2: "statusOf ?q = statusOf p"
      by (rule ext) (simp add: updNode_get statusOf_def Some dep'(1))
    note q = q1 q2
    have mark: "marksOnly i p (updNode i f p') \<and> (GetNode p i \<noteq> None \<longrightarrow> statusOf (updNode i f p') i \<noteq> NodeNotStarted)"
      if "p' = p \<or> p' = ?q" "\<And>n. n_Status (f n) \<in> {NodeAborted, NodeSkipped}" "\<And>n. n_Step (f n) = n_Step n" for f p'
    proof -
      have m: "marksOnly i p p'" using that(1) q1 by auto
      have f: "n_Status (f n) \<noteq> NodeNotStarted" for n using that(2)[of n] by auto
      have "GetNode p' i \<noteq> None" if "GetNode p i \<noteq> None"
        using that \<open>p' = p \<or> p' = ?q\<close> by (auto simp: updNode_get)
      then show ?thesis
        using marksOnly_trans[OF m marksOnly_upd[OF that(2,3)]] f by (auto simp: updNode_status)
    qed
    have rec: ?thesis if "readyDeps lc i ds p = (r, p')" "n_Status dep = NodeSucceeded \<or> n_Status dep = NodePartiallySucceeded"
      using Cons.IH[OF that(1)] that(2) Some by (auto simp: depOK_def)
    have recq: ?thesis if "readyDeps lc i ds ?q = (r, p')" "n_Status dep = NodeFailed \<or> n_Status dep = NodeSkipped" c
    proof -
      have d: "depOK lc p d" using that(2,3) Some sc by (auto simp: depOK_def)
      have e: "depOK lc p e" if "depOK lc ?q e" for e
        using that d by (cases "e = d") (auto simp: depOK_def updNode_get)
      have "GetNode ?q i \<noteq> None" if "GetNode p i \<noteq> None" using that by (auto simp: updNode_get)
      then show ?thesis using Cons.IH[OF that(1)] d e q marksOnly_trans[OF q(1)] by auto
    qed
    show ?thesis
    proof (cases "n_Status dep")
      case NodeFailed
      then show ?thesis
        using Cons.prems Some sc recq mark[of ?q "SetError (Some ErrUpstreamFailed) \<circ> SetStatus NodeAborted"]
        by (cases c) (auto simp: setter_defs)
    next
      case NodeSkipped
      then show ?thesis
        using Cons.prems Some sc recq mark[of ?q "SetError (Some ErrUpstreamSkipped) \<circ> SetStatus NodeSkipped"]
        by (cases c) (auto simp: setter_defs)
    next
      case NodeAborted
      then show ?thesis using Cons.prems Some mark[of p "SetStatus NodeAborted"] by (auto simp: setter_defs)
    next
      case NodeRejected
      then show ?thesis
        using Cons.prems Some mark[of p "SetError (Some ErrUpstreamRejected) \<circ> SetStatus NodeAborted"]
        by (auto simp: setter_defs)
    qed (use Cons.prems Some st rec in auto)
  qed
qed

lemmas isReady_spec = readyDeps_spec[of lc i "Dependencies p i" p for lc i p, folded isReady_def]

lemma finite_unstarted [simp]: "finite (unstarted p)"
  by (simp add: unstarted_def)

lemma marksOnly_D:
  assumes "marksOnly i p q"
  shows "fmdom (p_nodeByID q) = fmdom (p_nodeByID p)"
    "statusOf q j = NodeNotStarted \<Longrightarrow> statusOf p j = NodeNotStarted"
    "j \<noteq> i \<Longrightarrow> statusOf q j = statusOf p j"
    "statusOf q i \<noteq> statusOf p i \<Longrightarrow> statusOf q i = NodeAborted \<or> statusOf q i = NodeSkipped"
    "Dependents q = Dependents p" "Dependencies q = Dependencies p" "p_nodes q = p_nodes p"
    "map_option n_Step (GetNode q j) = map_option n_Step (GetNode p j)"
    "p_startedAt q = p_startedAt p" "p_finishedAt q = p_finishedAt p"
  using assms unfolding marksOnly_def by (cases "j = i"; auto)+

lemma marksOnly_unstarted:
  assumes "marksOnly i p q"
  shows "unstarted q \<subseteq> unstarted p" "statusOf q i \<noteq> NodeNotStarted \<Longrightarrow> i \<notin> unstarted q"
  using marksOnly_D(1,2)[OF assms] by (auto simp: unstarted_def)

lemma marked_unstarted:
  assumes "marksOnly i p q" "statusOf p i = NodeNotStarted" "statusOf q i \<noteq> NodeNotStarted"
  shows "card (unstarted q) < card (unstarted p)"
proof -
  have "GetNode q i \<noteq> None" using assms(3) by (auto simp: statusOf_def split: option.splits)
  then have "i |\<in>| fmdom (p_nodeByID q)" by (auto simp: GetNode_def fmlookup_dom_iff)
  then have "i \<in> unstarted p" using assms(1,2) by (simp add: unstarted_def marksOnly_def)
  then have "unstarted q \<subset> unstarted p" using marksOnly_unstarted[OF assms(1)] assms(3) by blast
  then show ?thesis by (simp add: psubset_card_mono)
qed

lemma visitChildren_measure:
  "visitChildren lc cap cs p ready queue = (b, p', ready', queue') \<Longrightarrow>
     card (unstarted p') + length queue' \<le> card (unstarted p) + length queue"
proof (induction cs arbitrary: p ready queue)
  case (Cons c cs)
  obtain r q where rq: "isReady lc c p = (r, q)" by (cases "isReady lc c p")
  have m: "marksOnly c p q" using isReady_spec[OF rq] by blast
  then have le: "card (unstarted q) \<le> card (unstarted p)" by (simp add: card_mono marksOnly_unstarted)
  show ?case
  proof (cases "statusOf p c = NodeNotStarted")
    case True
    show ?thesis
    proof (cases "\<not> r \<and> statusOf q c \<noteq> NodeNotStarted")
      case marked: True
      then have "visitChildren lc cap cs q ready (queue @ [c]) = (b, p', ready', queue')"
        using Cons.prems rq True by simp
      from Cons.IH[OF this] marked_unstarted[OF m True] marked show ?thesis by simp
    next
      case False
      then consider (rec) rd where "visitChildren lc cap cs q rd queue = (b, p', ready', queue')"
        | (blocked) "p' = q" "queue' = queue"
        using Cons.prems rq True by (auto split: if_splits)
      then show ?thesis using Cons.IH le by cases (fastforce, simp)
    qed
  qed (use Cons in simp)
qed simp

function processQueue :: "logReader \<Rightarrow> nat \<Rightarrow> nat list \<Rightarrow> Plan \<Rightarrow> nat list \<Rightarrow> bool \<times> Plan \<times> nat list" where
  "processQueue lc cap [] p ready = (False, p, ready)"
| "processQueue lc cap (cur # queue) p ready =
     (case visitChildren lc cap (Dependents p cur) p ready queue of
        (blocked, p', ready', queue') \<Rightarrow>
          if blocked then (True, p', ready') else processQueue lc cap queue' p' ready')"
  by pat_completeness auto
termination
  by (relation "measure (\<lambda>(lc, cap, queue, p, ready). card (unstarted p) + length queue)")
     (auto dest!: visitChildren_measure[OF sym])

definition processCompletedNode ::
  "logReader \<Rightarrow> nat \<Rightarrow> bool \<Rightarrow> nat \<Rightarrow> Plan \<Rightarrow> nat list \<Rightarrow> bool \<times> Plan \<times> nat list" where
  "processCompletedNode lc cap canceled i p ready =
     (if canceled then (False, p, ready) else processQueue lc cap [i] p ready)"

section \<open>The machine of one run\<close>

text \<open>
  Where a node's goroutine stands.  \<open>WDone\<close> is the deferred send to \<open>doneCh\<close>.
\<close>

datatype WorkerPC = WPrepare | WPrecond | WHead | WExec | WHandle "GoError option"
  | WAfter "GoError option" | WFinal | WTeardown | WDone

text \<open>What a goroutine reads from outside at its next step.\<close>

record WorkerIn =
  wi_prepare :: PrepareIO
  wi_preErr :: "GoError option"
  wi_outcome :: ExecOutcome
  wi_now :: int
  wi_condErr :: "GoError option"
  wi_closeErr :: "GoError option"

text \<open>
  One step of the goroutine started by \<open>Run\<close> (and of \<open>runNodeExecution\<close> inside it): the
  pieces of \<open>runNodeExecution\<close> between two reads or writes that other goroutines see.
\<close>

fun workerStep :: "RunnerConfig \<Rightarrow> bool \<Rightarrow> int \<Rightarrow> WorkerIn \<Rightarrow> WorkerPC \<Rightarrow> Node \<Rightarrow> GoError option
    \<Rightarrow> WorkerPC \<times> Node \<times> GoError option" where
  "workerStep cfg canceled startedAt w WPrepare n l =
     (if rc_dry cfg then (WPrecond, n, l)
      else case Prepare (rc_intString cfg) (wi_prepare w) n of
             (Some e, n') \<Rightarrow> (WDone, SetStatus NodeFailed (MarkError (Some e) n'), Some e)
           | (None, n') \<Rightarrow> (WPrecond, n', l))"
| "workerStep cfg canceled startedAt w WPrecond n l =
     (let (ok, n') = meetsPreconditions (wi_preErr w) n in (if ok then WHead else WDone, n', l))"
| "workerStep cfg canceled startedAt w WHead n l = (if canceled then WFinal else WExec, n, l)"
| "workerStep cfg canceled startedAt w WExec n l =
     (let (execErr, n') = execNode cfg (wi_outcome w) n in (WHandle execErr, n', l))"
| "workerStep cfg canceled startedAt w (WHandle execErr) n l =
     (let (isRetriable, n', l') = handleNodeExecutionError cfg canceled startedAt (wi_now w) execErr n l
      in if isRetriable then (WHead, n', l')
         else if n_Status n' = NodeRetrying then (WDone, n', l')
         else (WAfter execErr, if n_Status n' \<noteq> NodeAborted then IncDoneCount n' else n', l'))"
| "workerStep cfg canceled startedAt w (WAfter execErr) n l =
     (if shouldRepeatNode (wi_condErr w) n execErr \<and> \<not> canceled
      then (let (n', l') = prepareNodeForRepeat n l in (WHead, n', l'))
      else (if execErr \<noteq> None \<and> rc_progress cfg then WDone else WFinal, n, l))"
| "workerStep cfg canceled startedAt w WFinal n l = (WTeardown, finalStatus canceled n, l)"
| "workerStep cfg canceled startedAt w WTeardown n l =
     (let (n', l') = teardownNode cfg (wi_closeErr w) n l in (WDone, n', l'))"
| "workerStep cfg canceled startedAt w WDone n l = (WDone, n, l)"

datatype LoopPC = LoopTop | LoopBlocked | LoopExited

record RunState =
  rs_plan :: Plan
  rs_canceled :: bool
  rs_lastError :: "GoError option"
  rs_running :: nat
  rs_ready :: "nat list"
  rs_done :: "nat list"
  rs_workers :: "(nat, WorkerPC) fmap"
  rs_ctxDone :: bool
  rs_loop :: LoopPC
  rs_started :: "nat list"

text \<open>
  The top of the event loop: leave it, with or without the deadlock error, or go on to the
  \<open>select\<close>, accepting ready nodes or not.  \<open>rs_started\<close> only records which goroutines
  were started.
\<close>

datatype LoopAction = ExitFinished | ExitCanceled | ExitWaiting | ExitRetrying | Deadlock | SelectEvent bool

definition accepting :: "RunnerConfig \<Rightarrow> RunState \<Rightarrow> bool" where
  "accepting cfg s \<longleftrightarrow> \<not> rs_canceled s \<and> (rc_maxActiveRuns cfg = 0 \<or> int (rs_running s) < rc_maxActiveRuns cfg)"

definition loopAction :: "RunnerConfig \<Rightarrow> RunState \<Rightarrow> LoopAction" where
  "loopAction cfg s =
     (let p = rs_plan s; states = NodeStates p; idle = (rs_running s = 0)
      in if CheckFinished p then ExitFinished
         else if rs_canceled s \<and> idle then ExitCanceled
         else if idle \<and> rs_ready s = [] \<and> HasWaiting states then ExitWaiting
         else if idle \<and> rs_ready s = [] \<and> HasRetrying states then ExitRetrying
         else if idle \<and> (\<not> accepting cfg s \<or> rs_ready s = []) then Deadlock
         else SelectEvent (accepting cfg s))"

datatype RunEvent = EvExit | EvPickReady | EvPickDone | EvCtxDone GoError
  | EvWorker nat WorkerIn | EvWorkerDone nat | EvCancel | EvSignal nat

abbreviation chanCap :: "RunState \<Rightarrow> nat" where
  "chanCap s \<equiv> length (p_nodes (rs_plan s))"

text \<open>
  The statuses an executor that implements \<open>NodeStatusDeterminer\<close> reports without an error
  (the sub-DAG and parallel executors report a failure only with one).
\<close>

definition reportable :: "ExecOutcome \<Rightarrow> bool" where
  "reportable o' = (case eo_nodeStatus o' of Some (Inr s) \<Rightarrow>
       s \<in> {NodeSucceeded, NodePartiallySucceeded, NodeWaiting, NodeAborted}
     | _ \<Rightarrow> True)"

definition startNode :: "nat \<Rightarrow> RunState \<Rightarrow> RunState" where
  "startNode i s = s\<lparr>rs_plan := updNode i (SetStatus NodeRunning) (rs_plan s),
     rs_running := rs_running s + 1, rs_workers := fmupd i WPrepare (rs_workers s),
     rs_started := rs_started s @ [i]\<rparr>"

fun applyEvent :: "RunnerConfig \<Rightarrow> RunEvent \<Rightarrow> RunState \<Rightarrow> RunState option" where
  "applyEvent cfg EvExit s =
     (if rs_loop s \<noteq> LoopTop then None
      else case loopAction cfg s of
             SelectEvent b \<Rightarrow> None
           | Deadlock \<Rightarrow> Some (s\<lparr>rs_lastError := Some ErrDeadlockDetected, rs_loop := LoopExited\<rparr>)
           | _ \<Rightarrow> Some (s\<lparr>rs_loop := LoopExited\<rparr>))"
| "applyEvent cfg EvPickReady s =
     (if rs_loop s \<noteq> LoopTop \<or> loopAction cfg s \<noteq> SelectEvent True then None
      else case rs_ready s of [] \<Rightarrow> None
           | i # rest \<Rightarrow>
               Some (if statusOf (rs_plan s) i \<noteq> NodeNotStarted then s\<lparr>rs_ready := rest\<rparr>
                     else startNode i (s\<lparr>rs_ready := rest\<rparr>)))"
| "applyEvent cfg EvPickDone s =
     (if rs_loop s \<noteq> LoopTop \<or> (\<forall>b. loopAction cfg s \<noteq> SelectEvent b) then None
      else case rs_done s of [] \<Rightarrow> None
           | i # rest \<Rightarrow>
               (let (blocked, p, ready) = processCompletedNode (rc_logContains cfg) (chanCap s)
                      (rs_canceled s) i (rs_plan s) (rs_ready s)
                in Some (s\<lparr>rs_done := rest, rs_running := rs_running s - 1, rs_plan := p, rs_ready := ready,
                      rs_loop := (if blocked then LoopBlocked else LoopTop)\<rparr>)))"
| "applyEvent cfg (EvCtxDone e) s =
     (if rs_loop s \<noteq> LoopTop \<or> (\<forall>b. loopAction cfg s \<noteq> SelectEvent b) \<or> rs_ctxDone s then None
      else Some (s\<lparr>rs_ctxDone := True, rs_lastError :=
             (if rs_lastError s = None \<and> e = DeadlineExceeded then Some e else rs_lastError s)\<rparr>))"
| "applyEvent cfg (EvWorker i w) s =
     (case (fmlookup (rs_workers s) i, GetNode (rs_plan s) i) of
        (Some pc, Some n) \<Rightarrow>
          (if pc = WDone \<or> \<not> reportable (wi_outcome w) then None
           else (let (pc', n', l') = workerStep cfg (rs_canceled s) (p_startedAt (rs_plan s)) w pc n (rs_lastError s)
                 in Some (s\<lparr>rs_plan := updNode i (\<lambda>_. n') (rs_plan s),
                       rs_workers := fmupd i pc' (rs_workers s), rs_lastError := l'\<rparr>)))
      | _ \<Rightarrow> None)"
| "applyEvent cfg (EvWorkerDone i) s =
     (if fmlookup (rs_workers s) i = Some WDone \<and> length (rs_done s) < chanCap s
      then Some (s\<lparr>rs_done := rs_done s @ [i], rs_workers := fmdrop i (rs_workers s)\<rparr>)
      else None)"
| "applyEvent cfg EvCancel s = Some (s\<lparr>rs_canceled := True\<rparr>)"
| "applyEvent cfg (EvSignal i) s =
     (case GetNode (rs_plan s) i of None \<Rightarrow> None
      | Some n \<Rightarrow>
         (if \<not> rs_canceled s \<or> rep_RepeatMode (st_RepeatPolicy (n_Step n)) \<noteq> '''' then None
          else Some (s\<lparr>rs_plan := updNode i (Node_Signal True) (rs_plan s)\<rparr>)))"

text \<open>The scan for ready nodes before the loop.\<close>

fun initialReady :: "logReader \<Rightarrow> nat list \<Rightarrow> Plan \<Rightarrow> nat list \<Rightarrow> Plan \<times> nat list" where
  "initialReady lc [] p ready = (p, ready)"
| "initialReady lc (i # is) p ready =
     (if statusOf p i = NodeNotStarted
      then (let (r, p') = isReady lc i p in initialReady lc is p' (if r then ready @ [i] else ready))
      else initialReady lc is p ready)"

definition initRun :: "RunnerConfig \<Rightarrow> bool \<Rightarrow> GoError option \<Rightarrow> Plan \<Rightarrow> RunState" where
  "initRun cfg canceled lastError p =
     (let (p', ready) = initialReady (rc_logContains cfg) (p_nodes p) p []
      in \<lparr>rs_plan = p', rs_canceled = canceled, rs_lastError = lastError, rs_running = 0, rs_ready = ready,
          rs_done = [], rs_workers = fmempty, rs_ctxDone = False, rs_loop = LoopTop, rs_started = []\<rparr>)"

inductive runs :: "RunnerConfig \<Rightarrow> RunState \<Rightarrow> RunState \<Rightarrow> bool" for cfg s\<^sub>0 where
  init: "runs cfg s\<^sub>0 s\<^sub>0"
| step: "runs cfg s\<^sub>0 s \<Longrightarrow> applyEvent cfg ev s = Some s' \<Longrightarrow> runs cfg s\<^sub>0 s'"

fun runTrace :: "RunnerConfig \<Rightarrow> RunEvent list \<Rightarrow> RunState \<Rightarrow> RunState option" where
  "runTrace cfg [] s = Some s"
| "runTrace cfg (ev # evs) s = Option.bind (applyEvent cfg ev s) (runTrace cfg evs)"

lemma runTrace_runs: "runs cfg s\<^sub>0 s \<Longrightarrow> runTrace cfg evs s = Some s' \<Longrightarrow> runs cfg s\<^sub>0 s'"
  by (induction evs arbitrary: s) (auto simp: Option.bind_eq_Some_conv intro: runs.step)

end
