(* ===== verification/Run_Invariants.thy ===== *)
theory Run_Invariants
  imports Runner
begin

text \<open>
  Invariants of a run: the plan's graph never changes, no node is started twice, at most
  \<open>maxActiveRuns\<close> nodes run at a time, no node starts before its dependencies have
  been decided, and no wake-up is lost: an unstarted node always waits for something that will
  still report.
\<close>

section \<open>What completion does to a plan\<close>

text \<open>Same graph, and only unstarted nodes are marked, as aborted or skipped; \<open>Q\<close> holds the marked ones.\<close>

definition marks :: "nat set \<Rightarrow> Plan \<Rightarrow> Plan \<Rightarrow> bool" where
  "marks Q p q \<longleftrightarrow> p_nodes q = p_nodes p \<and> Dependents q = Dependents p \<and> Dependencies q = Dependencies p
     \<and> fmdom (p_nodeByID q) = fmdom (p_nodeByID p)
     \<and> (\<forall>j. map_option n_Step (GetNode q j) = map_option n_Step (GetNode p j))
     \<and> (\<forall>j. statusOf q j = statusOf p j \<or>
            statusOf p j = NodeNotStarted \<and> statusOf q j \<in> {NodeAborted, NodeSkipped} \<and> j \<in> Q)"

lemma marks_refl [simp]: "marks Q p p"
  by (simp add: marks_def)

lemma marks_mono: "marks Q p q \<Longrightarrow> Q \<subseteq> R \<Longrightarrow> marks R p q"
  by (auto simp: marks_def)

lemma marks_trans: "marks Q p q \<Longrightarrow> marks Q q r \<Longrightarrow> marks Q p r"
  unfolding marks_def by (metis NodeStatus.distinct(1))

lemma marks_frame:
  assumes "marks Q p q"
  shows "p_nodes q = p_nodes p" "Dependents q = Dependents p" "Dependencies q = Dependencies p"
    "fmdom (p_nodeByID q) = fmdom (p_nodeByID p)"
    "map_option n_Step (GetNode q j) = map_option n_Step (GetNode p j)"
  using assms by (simp_all add: marks_def)

lemma marks_status:
  assumes "marks Q p q"
  shows "statusOf p j \<noteq> NodeNotStarted \<Longrightarrow> statusOf q j = statusOf p j"
    "statusOf q j = NodeNotStarted \<Longrightarrow> statusOf p j = NodeNotStarted"
    "openStatus (statusOf p j) \<Longrightarrow> openStatus (statusOf q j) \<or> j \<in> Q"
    "openStatus (statusOf q j) \<Longrightarrow> statusOf q j = statusOf p j"
proof -
  have j: "statusOf q j = statusOf p j \<or>
      statusOf p j = NodeNotStarted \<and> (statusOf q j = NodeAborted \<or> statusOf q j = NodeSkipped) \<and> j \<in> Q"
    using assms by (simp add: marks_def)
  show "statusOf p j \<noteq> NodeNotStarted \<Longrightarrow> statusOf q j = statusOf p j" using j by blast
  show "statusOf q j = NodeNotStarted \<Longrightarrow> statusOf p j = NodeNotStarted" using j by metis
  show "openStatus (statusOf p j) \<Longrightarrow> openStatus (statusOf q j) \<or> j \<in> Q" using j by metis
  show "openStatus (statusOf q j) \<Longrightarrow> statusOf q j = statusOf p j" using j openStatus_simps by metis
qed

lemma marksOnly_marks:
  assumes "marksOnly i p q" "statusOf p i = NodeNotStarted" "statusOf q i = NodeNotStarted \<or> i \<in> Q"
  shows "marks Q p q"
proof -
  have "statusOf q j = statusOf p j \<or>
      statusOf p j = NodeNotStarted \<and> statusOf q j \<in> {NodeAborted, NodeSkipped} \<and> j \<in> Q" for j
    using marksOnly_D(3,4)[OF assms(1)] assms(2,3) by (cases "j = i") auto
  then show ?thesis using assms(1) by (simp add: marks_def marksOnly_D)
qed

text \<open>Node \<open>v\<close> has a dependency that has not been decided or is in \<open>P\<close>.\<close>

definition awaits :: "nat set \<Rightarrow> Plan \<Rightarrow> nat \<Rightarrow> bool" where
  "awaits P p v \<longleftrightarrow> (\<exists>d\<in>set (Dependencies p v). openStatus (statusOf p d) \<or> d \<in> P)"

definition goodStatus :: "NodeStatus \<Rightarrow> bool" where
  "goodStatus s \<longleftrightarrow> s \<in> {NodeSucceeded, NodePartiallySucceeded, NodeFailed, NodeSkipped}"

definition decided :: "Plan \<Rightarrow> nat \<Rightarrow> bool" where
  "decided p v \<longleftrightarrow> (\<forall>d\<in>set (Dependencies p v). goodStatus (statusOf p d))"

lemma marks_awaits: "marks Q p q \<Longrightarrow> awaits P p v \<Longrightarrow> awaits (P \<union> Q) q v"
  unfolding awaits_def using marks_status(3) marks_frame(3) by (metis UnCI)

lemma goodStatus_started: "goodStatus s \<Longrightarrow> s \<noteq> NodeNotStarted"
  by (auto simp: goodStatus_def)

lemma marks_decided: "marks Q p q \<Longrightarrow> decided p v \<Longrightarrow> decided q v"
  unfolding decided_def using marks_status(1) marks_frame(3) goodStatus_started by metis

lemma depOK_decided: "depOK lc p d \<Longrightarrow> goodStatus (statusOf p d)"
  by (auto simp: depOK_def statusOf_def goodStatus_def split: option.splits)

lemma isReady_marks:
  assumes "isReady lc c p = (r, q)" "statusOf p c = NodeNotStarted"
  shows "marks {c} p q" "r \<Longrightarrow> decided q c" "r \<Longrightarrow> statusOf q c = NodeNotStarted"
    "\<not> r \<Longrightarrow> statusOf q c = NodeNotStarted \<Longrightarrow> GetNode p c \<noteq> None \<Longrightarrow> awaits {} q c"
proof -
  note s = isReady_spec[OF assms(1)]
  have m: "marksOnly c p q" using s by blast
  show mm: "marks {c} p q" using marksOnly_marks[OF m assms(2)] by simp
  show "decided q c" if r
    by (rule marks_decided[OF mm]) (use that s depOK_decided in \<open>auto simp: decided_def\<close>)
  show "statusOf q c = NodeNotStarted" if r using that s assms(2) by simp
  show "awaits {} q c" if "\<not> r" "statusOf q c = NodeNotStarted" "GetNode p c \<noteq> None"
  proof -
    have "marks {} p q" using marksOnly_marks[OF m assms(2)] that(2) by simp
    moreover have "awaits {} p c" using s that unfolding awaits_def by blast
    ultimately show ?thesis using marks_awaits by fastforce
  qed
qed

lemma GetNode_dom: "GetNode p c \<noteq> None \<longleftrightarrow> c \<in> fset (fmdom (p_nodeByID p))"
  by (auto simp: GetNode_def fmlookup_dom_iff)

lemma visitChildren_spec:
  assumes "visitChildren lc cap cs p ready queue = (b, p', ready', queue')"
    and "\<forall>c\<in>set cs. GetNode p c \<noteq> None"
  shows "marks (set queue') p p' \<and> set queue \<subseteq> set queue' \<and> (\<forall>v\<in>set ready. v \<in> set ready')
    \<and> set ready' \<subseteq> set ready \<union> set cs
    \<and> (\<forall>v\<in>set ready'. v \<in> set ready \<or> decided p' v)
    \<and> (\<not> b \<longrightarrow> (\<forall>c\<in>set cs. statusOf p' c = NodeNotStarted \<longrightarrow> c \<in> set ready' \<or> awaits (set queue') p' c))
    \<and> length ready' \<le> length ready + length cs"
  using assms
proof (induction cs arbitrary: p ready queue)
  case (Cons c cs)
  obtain r q where rq: "isReady lc c p = (r, q)" by (cases "isReady lc c p")
  have dom: "\<forall>x\<in>set cs. GetNode q x \<noteq> None" if "fmdom (p_nodeByID q) = fmdom (p_nodeByID p)" for q
    using Cons.prems(2) that unfolding GetNode_dom by simp
  show ?case
  proof (cases "statusOf p c = NodeNotStarted")
    case True
    note m = isReady_marks[OF rq True]
    have dq: "\<forall>x\<in>set cs. GetNode q x \<noteq> None" using dom marks_frame(4)[OF m(1)] by blast
    have c: "GetNode p c \<noteq> None" using Cons.prems(2) by simp
    show ?thesis
    proof (cases r)
      case r: True
      have pq: "marks {} p q" using m(1) m(3)[OF r] True by (auto simp: marks_def)
      show ?thesis
      proof (cases "length ready < cap")
        case room: True
        then have v: "visitChildren lc cap cs q (ready @ [c]) queue = (b, p', ready', queue')"
          using Cons.prems(1) rq True r by simp
        note IH = Cons.IH[OF v dq]
        have "marks (set queue') p p'" using IH pq by (auto intro: marks_trans marks_mono)
        moreover have "decided p' c" using IH marks_decided m(2)[OF r] by blast
        ultimately show ?thesis using IH by auto
      next
        case False
        then have "b" "p' = q" "ready' = ready" "queue' = queue" using Cons.prems(1) rq True r by simp_all
        then show ?thesis using pq by (auto intro: marks_mono)
      qed
    next
      case nr: False
      show ?thesis
      proof (cases "statusOf q c = NodeNotStarted")
        case ns: True
        then have v: "visitChildren lc cap cs q ready queue = (b, p', ready', queue')"
          using Cons.prems(1) rq True nr by simp
        note IH = Cons.IH[OF v dq]
        have "marks {} p q" using m(1) ns True by (auto simp: marks_def)
        then have "marks (set queue') p p'" using IH by (auto intro: marks_trans marks_mono)
        moreover have "awaits (set queue') p' c"
          using IH marks_awaits[of "set queue'" q p' "{}"] m(4)[OF nr ns c] by simp
        ultimately show ?thesis using IH by auto
      next
        case ms: False
        then have v: "visitChildren lc cap cs q ready (queue @ [c]) = (b, p', ready', queue')"
          using Cons.prems(1) rq True nr by simp
        note IH = Cons.IH[OF v dq]
        have "marks (set queue') p p'" using IH m(1) by (auto intro: marks_trans marks_mono)
        moreover have "statusOf p' c \<noteq> NodeNotStarted" using IH marks_status(2) ms by blast
        ultimately show ?thesis using IH by auto
      qed
    qed
  next
    case False
    then have v: "visitChildren lc cap cs p ready queue = (b, p', ready', queue')"
      using Cons.prems(1) by simp
    note IH = Cons.IH[OF v dom[OF refl]]
    have "statusOf p' c \<noteq> NodeNotStarted" using IH marks_status(1) False by metis
    then show ?thesis using IH by auto
  qed
qed simp

text \<open>No lost wake-up: every unstarted node is queued as ready or awaits something.\<close>

definition covered :: "nat set \<Rightarrow> Plan \<Rightarrow> nat list \<Rightarrow> bool" where
  "covered P p ready \<longleftrightarrow>
     (\<forall>v\<in>set (p_nodes p). statusOf p v = NodeNotStarted \<longrightarrow> v \<in> set ready \<or> awaits P p v)"

lemma visitChildren_covered:
  assumes wf: "wfPlan p" and v: "visitChildren lc cap (Dependents p cur) p ready queue = (False, p', ready', queue')"
    and cov: "covered (insert cur (P \<union> set queue)) p ready"
  shows "covered (P \<union> set queue') p' ready'"
  unfolding covered_def
proof (intro ballI impI)
  fix v assume v': "v \<in> set (p_nodes p')" "statusOf p' v = NodeNotStarted"
  have dom: "\<forall>c\<in>set (Dependents p cur). GetNode p c \<noteq> None"
    unfolding GetNode_dom wfPlan_D(2)[OF wf] using wfPlan_D(4)[OF wf] by (auto simp: planEdges_def)
  note S = visitChildren_spec[OF v dom]
  have m: "marks (set queue') p p'" using S by blast
  have "v \<in> set (p_nodes p)" "statusOf p v = NodeNotStarted"
    using v' marks_frame(1)[OF m] marks_status(2)[OF m] by auto
  with cov consider "v \<in> set ready" | "awaits (insert cur (P \<union> set queue)) p v" by (auto simp: covered_def)
  then show "v \<in> set ready' \<or> awaits (P \<union> set queue') p' v"
  proof cases
    case 2
    then obtain d where d: "d \<in> set (Dependencies p v)"
      "openStatus (statusOf p d) \<or> d = cur \<or> d \<in> P \<or> d \<in> set queue" by (auto simp: awaits_def)
    have d': "d \<in> set (Dependencies p' v)" using d(1) marks_frame(3)[OF m] by simp
    consider "openStatus (statusOf p d)" | "d = cur" | "d \<in> P \<union> set queue" using d(2) by blast
    then show ?thesis
    proof cases
      case 1
      then show ?thesis using marks_status(3)[OF m, of d] d' by (auto simp: awaits_def)
    next
      case 2
      then have "v \<in> set (Dependents p cur)" using d(1) wfPlan_mem[OF wf] by simp
      then have "v \<in> set ready' \<or> awaits (set queue') p' v" using S v'(2) by blast
      then show ?thesis by (auto simp: awaits_def)
    next
      case 3
      then show ?thesis using S d' by (auto simp: awaits_def)
    qed
  qed (use S in blast)
qed

lemma wfPlan_cong:
  assumes "p_nodes q = p_nodes p" "Dependents q = Dependents p" "Dependencies q = Dependencies p"
    "fmdom (p_nodeByID q) = fmdom (p_nodeByID p)"
  shows "wfPlan q = wfPlan p" "planEdges q = planEdges p"
  using assms by (simp_all add: wfPlan_def planEdges_def)

lemma processQueue_spec:
  assumes "processQueue lc cap queue p ready = (b, p', ready')" "wfPlan p"
  shows "marks UNIV p p' \<and> set ready \<subseteq> set ready' \<and> set ready' \<subseteq> set ready \<union> set (p_nodes p)
    \<and> (\<forall>v\<in>set ready'. v \<in> set ready \<or> decided p' v)
    \<and> (\<not> b \<longrightarrow> (\<forall>P. covered (P \<union> set queue) p ready \<longrightarrow> covered P p' ready'))"
  using assms
proof (induction lc cap queue p ready arbitrary: b p' ready' rule: processQueue.induct)
  case (2 lc cap cur queue p ready)
  obtain b1 q ready1 queue1 where v: "visitChildren lc cap (Dependents p cur) p ready queue = (b1, q, ready1, queue1)"
    by (cases "visitChildren lc cap (Dependents p cur) p ready queue")
  have dep: "set (Dependents p cur) \<subseteq> set (p_nodes p)"
    using wfPlan_D(4)[OF "2.prems"(2)] by (auto simp: planEdges_def)
  have "\<forall>c\<in>set (Dependents p cur). GetNode p c \<noteq> None"
    unfolding GetNode_dom wfPlan_D(2)[OF "2.prems"(2)] using dep by blast
  note S = visitChildren_spec[OF v this]
  have m: "marks UNIV p q" using S by (auto intro: marks_mono)
  show ?case
  proof (cases b1)
    case True
    then show ?thesis using "2.prems"(1) v S m dep by auto
  next
    case False
    have wf: "wfPlan q" using "2.prems"(2) wfPlan_cong marks_frame[OF m] by blast
    have "processQueue lc cap queue1 q ready1 = (b, p', ready')" using "2.prems"(1) v False by simp
    note IH = "2.IH"[OF v[symmetric] refl refl False this wf]
    have dec: "decided p' v" if "decided q v" for v using that IH marks_decided by blast
    have "covered P p' ready'" if "\<not> b" "covered (P \<union> set (cur # queue)) p ready" for P
    proof -
      have "covered (P \<union> set queue1) q ready1"
        using visitChildren_covered[OF "2.prems"(2), of lc cap cur ready queue q ready1 queue1 P] v False that(2)
        by simp
      then show ?thesis using IH that(1) by blast
    qed
    moreover have "marks UNIV p p'" using IH marks_trans[OF m] by blast
    moreover have "set ready \<subseteq> set ready'" "set ready' \<subseteq> set ready \<union> set (p_nodes p)"
      using IH S dep marks_frame(1)[OF m] by auto
    moreover have "\<forall>v\<in>set ready'. v \<in> set ready \<or> decided p' v" using IH S dec by blast
    ultimately show ?thesis by blast
  qed
qed simp

section \<open>The invariant\<close>

definition wk :: "RunState \<Rightarrow> nat set" where
  "wk s = fset (fmdom (rs_workers s))"

definition runInv :: "RunnerConfig \<Rightarrow> Plan \<Rightarrow> RunState \<Rightarrow> bool" where
  "runInv cfg p\<^sub>0 s \<longleftrightarrow>
     p_nodes (rs_plan s) = p_nodes p\<^sub>0 \<and> Dependents (rs_plan s) = Dependents p\<^sub>0
     \<and> Dependencies (rs_plan s) = Dependencies p\<^sub>0 \<and> fmdom (p_nodeByID (rs_plan s)) = fmdom (p_nodeByID p\<^sub>0)
     \<and> distinct (rs_started s) \<and> set (rs_started s) \<subseteq> set (p_nodes p\<^sub>0)
     \<and> distinct (rs_done s) \<and> set (rs_done s) \<inter> wk s = {} \<and> set (rs_done s) \<union> wk s \<subseteq> set (rs_started s)
     \<and> rs_running s = card (wk s) + length (rs_done s)
     \<and> set (rs_ready s) \<subseteq> set (p_nodes p\<^sub>0)
     \<and> (\<forall>i\<in>set (rs_started s). statusOf (rs_plan s) i \<noteq> NodeNotStarted)
     \<and> (\<forall>i\<in>set (rs_ready s) \<union> set (rs_started s). \<forall>d\<in>set (Dependencies p\<^sub>0 i). statusOf (rs_plan s) d \<noteq> NodeNotStarted)
     \<and> (rc_maxActiveRuns cfg > 0 \<longrightarrow> int (rs_running s) \<le> rc_maxActiveRuns cfg)"

lemma finite_wk [simp]: "finite (wk s)"
  by (simp add: wk_def)

lemma wk_simps [simp]:
  "wk (s\<lparr>rs_plan := p\<rparr>) = wk s" "wk (s\<lparr>rs_ready := r\<rparr>) = wk s" "wk (s\<lparr>rs_done := d\<rparr>) = wk s"
  "wk (s\<lparr>rs_running := n\<rparr>) = wk s" "wk (s\<lparr>rs_loop := lp\<rparr>) = wk s" "wk (s\<lparr>rs_lastError := l\<rparr>) = wk s"
  "wk (s\<lparr>rs_canceled := c\<rparr>) = wk s" "wk (s\<lparr>rs_ctxDone := c\<rparr>) = wk s" "wk (s\<lparr>rs_started := st\<rparr>) = wk s"
  by (auto simp: wk_def)

section \<open>Worker steps\<close>

lemma setupRetryPolicy_state: "setupRetryPolicy ev n = Inr m \<Longrightarrow> n_State m = n_State n"
  by (auto simp: setupRetryPolicy_def Let_def result_bind_eq_Ok)

lemma setupRepeatPolicy_state: "setupRepeatPolicy ev n = Inr m \<Longrightarrow> n_State m = n_State n"
  by (auto simp: setupRepeatPolicy_def Let_def result_bind_eq_Ok)

lemma Prepare_status: "n_Status (snd (Prepare ev io n)) = n_Status n"
  by (auto simp: Prepare_def Data_Setup_def Let_def dest!: setupRetryPolicy_state setupRepeatPolicy_state
      split: option.split sum.split)

lemma execNode_status:
  assumes "execNode cfg o' n = (e, m)" "reportable o'"
  shows "n_Status m = n_Status n \<or> n_Status m = NodeFailed \<and> st_Timeout (n_Step n) > 0
    \<or> n_Status m \<in> {NodeSucceeded, NodePartiallySucceeded, NodeWaiting, NodeAborted}"
  using Node_Execute_status[of o' n] assms by (auto simp: execNode_def reportable_def split: if_splits)

lemma finalStatus_status:
  "n_Status n \<noteq> NodeNotStarted \<Longrightarrow> n_Status (finalStatus c n) \<noteq> NodeNotStarted"
  "n_Status (finalStatus c n) \<noteq> NodeRunning"
  by (auto simp: finalStatus_def Let_def)

text \<open>Where a goroutine may be with its node no longer, or not yet, running.\<close>

definition pcInv :: "bool \<Rightarrow> WorkerPC \<Rightarrow> Node \<Rightarrow> bool" where
  "pcInv canceled pc n \<longleftrightarrow> n_Status n \<noteq> NodeNotStarted \<and>
     (case pc of WDone \<Rightarrow> n_Status n = NodeRunning \<longrightarrow> canceled
      | WTeardown \<Rightarrow> n_Status n \<noteq> NodeRunning
      | WAfter (Some e) \<Rightarrow> n_Status n = NodeRunning \<longrightarrow> canceled
      | _ \<Rightarrow> True)"

lemma workerStep_pcInv:
  assumes "workerStep cfg c t w pc n l = (pc', n', l')" "pcInv c pc n" "reportable (wi_outcome w)" "pc \<noteq> WDone"
  shows "pcInv c pc' n'"
proof (cases pc)
  case WPrepare
  then show ?thesis using assms Prepare_status[of "rc_intString cfg" "wi_prepare w" n]
    by (auto simp: pcInv_def split: if_splits prod.splits option.splits)
next
  case WPrecond
  then show ?thesis using assms
    by (auto simp: pcInv_def meetsPreconditions_def split: option.splits if_splits)
next
  case WExec
  then show ?thesis using assms execNode_status[of cfg "wi_outcome w" n]
    by (auto simp: pcInv_def split: prod.splits option.splits)
next
  case (WHandle e)
  obtain r m k where h: "handleNodeExecutionError cfg c t (wi_now w) e n l = (r, m, k)"
    by (cases "handleNodeExecutionError cfg c t (wi_now w) e n l") auto
  have s: "n_Status m \<noteq> NodeNotStarted" using handle_started[OF h] assms(2) by (auto simp: pcInv_def)
  have "c" if "\<not> r" "e = Some x" "n_Status m = NodeRunning" for x
    using handle_running[of cfg c t "wi_now w" x n l m k] h that by auto
  then show ?thesis using assms(1) WHandle h s
    by (auto simp: pcInv_def split: if_splits option.splits)
next
  case WTeardown
  then show ?thesis
    using assms teardownNode_status[of cfg "wi_closeErr w" n l] by (auto simp: pcInv_def split: prod.splits)
next
  case (WAfter e)
  then show ?thesis using assms
    by (cases e) (auto simp: pcInv_def prepareNodeForRepeat_def split: if_splits)
qed (use assms finalStatus_status in \<open>auto simp: pcInv_def split: if_splits\<close>)

lemma pcInv_cancel: "pcInv c pc n \<Longrightarrow> pcInv True pc n"
  by (auto simp: pcInv_def split: WorkerPC.splits option.splits)

lemma pcInv_status: "pcInv c pc n \<Longrightarrow> n_Status m = n_Status n \<Longrightarrow> pcInv c pc m"
  unfolding pcInv_def by (cases pc) (auto split: option.splits)

lemma pcInv_signal: "pcInv c pc n \<Longrightarrow> pcInv c pc (Node_Signal b n)"
  by (auto simp: pcInv_def Node_Signal_def split: WorkerPC.splits option.splits)

section \<open>Every event keeps the invariant\<close>

lemma runInv_D:
  assumes "runInv cfg p\<^sub>0 s"
  shows "p_nodes (rs_plan s) = p_nodes p\<^sub>0" "Dependents (rs_plan s) = Dependents p\<^sub>0"
    "Dependencies (rs_plan s) = Dependencies p\<^sub>0" "fmdom (p_nodeByID (rs_plan s)) = fmdom (p_nodeByID p\<^sub>0)"
    "distinct (rs_started s)" "set (rs_started s) \<subseteq> set (p_nodes p\<^sub>0)" "distinct (rs_done s)"
    "set (rs_done s) \<inter> wk s = {}" "set (rs_done s) \<union> wk s \<subseteq> set (rs_started s)"
    "rs_running s = card (wk s) + length (rs_done s)" "set (rs_ready s) \<subseteq> set (p_nodes p\<^sub>0)"
    "i \<in> set (rs_started s) \<Longrightarrow> statusOf (rs_plan s) i \<noteq> NodeNotStarted"
    "i \<in> set (rs_ready s) \<union> set (rs_started s) \<Longrightarrow> d \<in> set (Dependencies p\<^sub>0 i) \<Longrightarrow> statusOf (rs_plan s) d \<noteq> NodeNotStarted"
    "rc_maxActiveRuns cfg > 0 \<Longrightarrow> int (rs_running s) \<le> rc_maxActiveRuns cfg"
  using assms unfolding runInv_def by (elim conjE; (assumption | erule (1) bspec | erule (1) mp | simp))+

lemma runInv_wf: "runInv cfg p\<^sub>0 s \<Longrightarrow> wfPlan p\<^sub>0 \<Longrightarrow> wfPlan (rs_plan s)"
  by (simp add: wfPlan_cong(1)[OF runInv_D(1-4)])

text \<open>A change of the plan that keeps the graph and un-starts no node.\<close>

definition advances :: "Plan \<Rightarrow> Plan \<Rightarrow> bool" where
  "advances p q \<longleftrightarrow> p_nodes q = p_nodes p \<and> Dependents q = Dependents p \<and> Dependencies q = Dependencies p
     \<and> fmdom (p_nodeByID q) = fmdom (p_nodeByID p)
     \<and> (\<forall>j. statusOf p j \<noteq> NodeNotStarted \<longrightarrow> statusOf q j \<noteq> NodeNotStarted)"

lemma marks_advances: "marks Q p q \<Longrightarrow> advances p q"
  unfolding advances_def using marks_frame marks_status(1) by metis

lemma upd_advances:
  assumes "\<And>n. GetNode p i = Some n \<Longrightarrow> n_Status n \<noteq> NodeNotStarted \<Longrightarrow> n_Status (f n) \<noteq> NodeNotStarted"
  shows "advances p (updNode i f p)"
  using assms by (auto simp: advances_def updNode_get statusOf_def split: option.splits if_splits)

lemma runInv_plan:
  assumes "runInv cfg p\<^sub>0 s" "advances (rs_plan s) q"
  shows "runInv cfg p\<^sub>0 (s\<lparr>rs_plan := q\<rparr>)"
  using assms by (auto simp: runInv_def advances_def)

lemma runInv_other [simp]:
  "runInv cfg p\<^sub>0 (s\<lparr>rs_lastError := l\<rparr>) = runInv cfg p\<^sub>0 s" "runInv cfg p\<^sub>0 (s\<lparr>rs_loop := lp\<rparr>) = runInv cfg p\<^sub>0 s"
  "runInv cfg p\<^sub>0 (s\<lparr>rs_ctxDone := b\<rparr>) = runInv cfg p\<^sub>0 s" "runInv cfg p\<^sub>0 (s\<lparr>rs_canceled := b\<rparr>) = runInv cfg p\<^sub>0 s"
  by (simp_all add: runInv_def)

lemma runInv_ready:
  assumes "runInv cfg p\<^sub>0 s" "set r \<subseteq> set (p_nodes p\<^sub>0)"
    and "\<And>i. i \<in> set r \<Longrightarrow> i \<in> set (rs_ready s) \<or> decided (rs_plan s) i"
  shows "runInv cfg p\<^sub>0 (s\<lparr>rs_ready := r\<rparr>)"
proof -
  have "\<forall>i\<in>set r \<union> set (rs_started s). \<forall>d\<in>set (Dependencies p\<^sub>0 i). statusOf (rs_plan s) d \<noteq> NodeNotStarted"
    using assms(3) runInv_D(3,13)[OF assms(1)] by (fastforce simp: decided_def goodStatus_def)
  then show ?thesis using assms(1,2) by (auto simp: runInv_def)
qed

lemma runInv_cong:
  assumes "rs_plan t = rs_plan s" "rs_started t = rs_started s" "rs_done t = rs_done s"
    "rs_running t = rs_running s" "rs_ready t = rs_ready s" "wk t = wk s"
  shows "runInv cfg p\<^sub>0 t = runInv cfg p\<^sub>0 s"
  unfolding runInv_def assms ..

lemma runInv_worker:
  assumes "runInv cfg p\<^sub>0 s" "i \<in> wk s"
  shows "runInv cfg p\<^sub>0 (s\<lparr>rs_workers := fmupd i pc (rs_workers s)\<rparr>)"
proof -
  have "wk (s\<lparr>rs_workers := fmupd i pc (rs_workers s)\<rparr>) = wk s"
    using assms(2) by (simp add: wk_def finsert_absorb)
  then show ?thesis using assms(1) runInv_cong[of "s\<lparr>rs_workers := fmupd i pc (rs_workers s)\<rparr>" s] by simp
qed

lemma runInv_workerDone:
  assumes "runInv cfg p\<^sub>0 s" "i \<in> wk s"
  shows "runInv cfg p\<^sub>0 (s\<lparr>rs_done := rs_done s @ [i], rs_workers := fmdrop i (rs_workers s)\<rparr>)"
proof -
  have "card (wk s) = Suc (card (wk s - {i}))" using assms(2) card.remove[of "wk s" i] by simp
  moreover have "wk (s\<lparr>rs_done := rs_done s @ [i], rs_workers := fmdrop i (rs_workers s)\<rparr>) = wk s - {i}"
    by (auto simp: wk_def)
  ultimately show ?thesis using assms by (auto simp: runInv_def)
qed

lemma runInv_node:
  assumes "runInv cfg p\<^sub>0 s" "wfPlan p\<^sub>0" "i \<in> set (p_nodes p\<^sub>0)"
  shows "GetNode (rs_plan s) i \<noteq> None"
  unfolding GetNode_dom runInv_D(4)[OF assms(1)] wfPlan_D(2)[OF assms(2)] using assms(3) .

lemma runInv_start:
  assumes inv: "runInv cfg p\<^sub>0 s" and wf: "wfPlan p\<^sub>0" and r: "i \<in> set (p_nodes p\<^sub>0)"
    and st: "statusOf (rs_plan s) i = NodeNotStarted"
    and deps: "\<forall>d\<in>set (Dependencies p\<^sub>0 i). statusOf (rs_plan s) d \<noteq> NodeNotStarted"
    and acc: "rc_maxActiveRuns cfg = 0 \<or> int (rs_running s) < rc_maxActiveRuns cfg"
  shows "runInv cfg p\<^sub>0 (startNode i s)"
proof -
  let ?q = "updNode i (SetStatus NodeRunning) (rs_plan s)"
  have ns: "i \<notin> set (rs_started s)" using runInv_D(12)[OF inv, of i] st by blast
  then have nw: "i \<notin> wk s" "i \<notin> set (rs_done s)" using runInv_D(9)[OF inv] by auto
  have adv: "advances (rs_plan s) ?q" by (rule upd_advances) simp
  have gi: "statusOf ?q i \<noteq> NodeNotStarted"
    using runInv_node[OF inv wf r] by (auto simp: updNode_status)
  have dq: "\<forall>d\<in>set (Dependencies p\<^sub>0 i). statusOf ?q d \<noteq> NodeNotStarted"
    using deps adv by (auto simp: advances_def)
  have "wk (startNode i s) = insert i (wk s)" by (auto simp: wk_def startNode_def)
  then show ?thesis
    using runInv_plan[OF inv adv] ns nw gi dq r acc by (auto simp: runInv_def startNode_def)
qed

definition liveInv :: "RunState \<Rightarrow> bool" where
  "liveInv s \<longleftrightarrow>
     (\<forall>i pc. fmlookup (rs_workers s) i = Some pc \<longrightarrow>
        (\<exists>n. GetNode (rs_plan s) i = Some n \<and> pcInv (rs_canceled s) pc n))
     \<and> (\<not> rs_canceled s \<longrightarrow> (\<forall>i. statusOf (rs_plan s) i = NodeRunning \<longrightarrow> i \<in> wk s)
         \<and> (rs_loop s = LoopTop \<longrightarrow> covered (wk s \<union> set (rs_done s)) (rs_plan s) (rs_ready s)))"

lemma liveInv_D:
  assumes "liveInv s"
  shows "fmlookup (rs_workers s) i = Some pc \<Longrightarrow> GetNode (rs_plan s) i = Some n \<Longrightarrow> pcInv (rs_canceled s) pc n"
    "fmlookup (rs_workers s) i = Some pc \<Longrightarrow> \<exists>n. GetNode (rs_plan s) i = Some n \<and> pcInv (rs_canceled s) pc n"
    "\<not> rs_canceled s \<Longrightarrow> statusOf (rs_plan s) i = NodeRunning \<Longrightarrow> i \<in> wk s"
    "\<not> rs_canceled s \<Longrightarrow> rs_loop s = LoopTop \<Longrightarrow> covered (wk s \<union> set (rs_done s)) (rs_plan s) (rs_ready s)"
  using assms unfolding liveInv_def by (metis option.inject, blast+)

lemma covered_upd:
  assumes "covered P p ready" "\<And>n. GetNode p i = Some n \<Longrightarrow> n_Status (f n) \<noteq> NodeNotStarted"
    "GetNode p i \<noteq> None" "\<And>v. v \<in> set ready \<Longrightarrow> v \<noteq> i \<Longrightarrow> v \<in> set ready'"
  shows "covered (insert i P) (updNode i f p) ready'"
proof -
  have i: "statusOf (updNode i f p) i \<noteq> NodeNotStarted" using assms(2,3) by (auto simp: updNode_status)
  have o: "statusOf (updNode i f p) j = statusOf p j" if "j \<noteq> i" for j using that by (simp add: updNode_status)
  show ?thesis
    unfolding covered_def
  proof (intro ballI impI)
    fix v assume v: "v \<in> set (p_nodes (updNode i f p))" "statusOf (updNode i f p) v = NodeNotStarted"
    then have vi: "v \<noteq> i" "statusOf p v = NodeNotStarted" "v \<in> set (p_nodes p)" using i o by fastforce+
    then consider "v \<in> set ready" | d where "d \<in> set (Dependencies p v)" "openStatus (statusOf p d) \<or> d \<in> P"
      using assms(1) by (auto simp: covered_def awaits_def)
    then show "v \<in> set ready' \<or> awaits (insert i P) (updNode i f p) v"
    proof cases
      case 1
      then show ?thesis using assms(4) vi(1) by blast
    next
      case 2
      then have "openStatus (statusOf (updNode i f p) d) \<or> d \<in> insert i P" using o[of d] by (cases "d = i") simp_all
      then show ?thesis using 2(1) unfolding awaits_def by auto
    qed
  qed
qed

lemma covered_cong: "P = Q \<Longrightarrow> covered P p r = covered Q p r"
  by simp

text \<open>Every event keeps both invariants.\<close>

definition okInv :: "RunnerConfig \<Rightarrow> Plan \<Rightarrow> RunState \<Rightarrow> bool" where
  "okInv cfg p\<^sub>0 s \<longleftrightarrow> runInv cfg p\<^sub>0 s \<and> liveInv s"

lemma exit_okInv: "applyEvent cfg EvExit s = Some s' \<Longrightarrow> okInv cfg p\<^sub>0 s \<Longrightarrow> okInv cfg p\<^sub>0 s'"
  by (auto simp: okInv_def liveInv_def split: if_splits LoopAction.splits)

lemma ctxDone_okInv: "applyEvent cfg (EvCtxDone e) s = Some s' \<Longrightarrow> okInv cfg p\<^sub>0 s \<Longrightarrow> okInv cfg p\<^sub>0 s'"
  by (auto simp: okInv_def liveInv_def split: if_splits)

lemma cancel_okInv: "applyEvent cfg EvCancel s = Some s' \<Longrightarrow> okInv cfg p\<^sub>0 s \<Longrightarrow> okInv cfg p\<^sub>0 s'"
  by (simp add: okInv_def liveInv_def) (use pcInv_cancel in \<open>fastforce dest!: sym[of _ s']\<close>)

lemma signal_okInv:
  assumes "applyEvent cfg (EvSignal i) s = Some s'" "okInv cfg p\<^sub>0 s"
  shows "okInv cfg p\<^sub>0 s'"
proof -
  have s': "s' = s\<lparr>rs_plan := updNode i (Node_Signal True) (rs_plan s)\<rparr>" "rs_canceled s"
    using assms(1) by (auto split: if_splits option.splits)
  have "runInv cfg p\<^sub>0 s'"
    unfolding s' by (rule runInv_plan, use assms in \<open>simp add: okInv_def\<close>, rule upd_advances) (simp add: Node_Signal_def)
  moreover have "liveInv s'"
  proof -
    have "\<exists>m. GetNode (rs_plan s') j = Some m \<and> pcInv True pc m" if w: "fmlookup (rs_workers s') j = Some pc" for j pc
    proof -
      obtain n where "GetNode (rs_plan s) j = Some n" "pcInv True pc n"
        using assms(2) w s'(2) unfolding s'(1) okInv_def liveInv_def by auto
      then show ?thesis unfolding s'(1) by (cases "j = i") (simp_all add: updNode_get pcInv_signal)
    qed
    then show ?thesis using s'(2) unfolding liveInv_def by (simp add: s'(1))
  qed
  ultimately show ?thesis by (simp add: okInv_def)
qed

lemma worker_okInv:
  assumes "applyEvent cfg (EvWorker i w) s = Some s'" "okInv cfg p\<^sub>0 s"
  shows "okInv cfg p\<^sub>0 s'"
proof -
  have inv: "runInv cfg p\<^sub>0 s" and live: "liveInv s" using assms(2) by (simp_all add: okInv_def)
  obtain pc n pc' n' l' where e: "fmlookup (rs_workers s) i = Some pc" "GetNode (rs_plan s) i = Some n"
      "pc \<noteq> WDone" "reportable (wi_outcome w)"
      "workerStep cfg (rs_canceled s) (p_startedAt (rs_plan s)) w pc n (rs_lastError s) = (pc', n', l')"
      "s' = s\<lparr>rs_plan := updNode i (\<lambda>_. n') (rs_plan s), rs_workers := fmupd i pc' (rs_workers s), rs_lastError := l'\<rparr>"
    using assms(1) by (auto split: option.splits if_splits prod.splits)
  have "pcInv (rs_canceled s) pc n" using liveInv_D(1)[OF live e(1,2)] .
  then have pi: "pcInv (rs_canceled s) pc' n'" using workerStep_pcInv[OF e(5) _ e(4,3)] by blast
  then have ns: "n_Status n' \<noteq> NodeNotStarted" by (simp add: pcInv_def)
  have iw: "i \<in> wk s" using e(1) by (auto simp: wk_def fmlookup_dom_iff)
  have wk': "wk s' = wk s" using iw unfolding e(6) by (simp add: wk_def finsert_absorb)
  have "runInv cfg p\<^sub>0 (s\<lparr>rs_plan := updNode i (\<lambda>_. n') (rs_plan s)\<rparr>)"
    by (rule runInv_plan[OF inv], rule upd_advances) (rule ns)
  from runInv_worker[OF this, of i pc'] iw have "runInv cfg p\<^sub>0 s'" by (simp add: e(6))
  moreover have "liveInv s'"
  proof -
    have "\<exists>m. GetNode (rs_plan s') j = Some m \<and> pcInv (rs_canceled s') q m"
      if "fmlookup (rs_workers s') j = Some q" for j q
      using that liveInv_D(2)[OF live, of j q] pi e(2) unfolding e(6) by (cases "j = i") (simp_all add: updNode_get)
    moreover have "j \<in> wk s'" if "\<not> rs_canceled s'" "statusOf (rs_plan s') j = NodeRunning" for j
      unfolding wk' using that liveInv_D(3)[OF live, of j] iw by (cases "j = i") (simp_all add: e(6) updNode_status)
    moreover have "covered (wk s' \<union> set (rs_done s')) (rs_plan s') (rs_ready s')"
      if "\<not> rs_canceled s'" "rs_loop s' = LoopTop"
    proof -
      have "covered (wk s \<union> set (rs_done s)) (rs_plan s) (rs_ready s)"
        using that liveInv_D(4)[OF live] unfolding e(6) by simp
      then have "covered (insert i (wk s \<union> set (rs_done s))) (updNode i (\<lambda>_. n') (rs_plan s)) (rs_ready s)"
        by (rule covered_upd) (use ns e(2) in auto)
      then show ?thesis using iw unfolding wk' by (simp add: e(6) insert_absorb)
    qed
    ultimately show ?thesis unfolding liveInv_def by blast
  qed
  ultimately show ?thesis by (simp add: okInv_def)
qed

lemma workerDone_okInv:
  assumes "applyEvent cfg (EvWorkerDone i) s = Some s'" "okInv cfg p\<^sub>0 s"
  shows "okInv cfg p\<^sub>0 s'"
proof -
  have inv: "runInv cfg p\<^sub>0 s" and live: "liveInv s" using assms(2) by (simp_all add: okInv_def)
  have e: "fmlookup (rs_workers s) i = Some WDone"
      "s' = s\<lparr>rs_done := rs_done s @ [i], rs_workers := fmdrop i (rs_workers s)\<rparr>"
    using assms(1) by (auto split: if_splits)
  have iw: "i \<in> wk s" using e(1) by (auto simp: wk_def fmlookup_dom_iff)
  have wk': "wk s' = wk s - {i}" unfolding e(2) by (auto simp: wk_def)
  have "statusOf (rs_plan s) i \<noteq> NodeRunning" if "\<not> rs_canceled s"
    using liveInv_D(2)[OF live e(1)] that by (auto simp: pcInv_def statusOf_def)
  then have "j \<in> wk s'" if "\<not> rs_canceled s" "statusOf (rs_plan s) j = NodeRunning" for j
    using that liveInv_D(3)[OF live, of j] unfolding wk' by auto
  moreover have "wk s' \<union> set (rs_done s') = wk s \<union> set (rs_done s)" using iw unfolding wk' by (auto simp: e(2))
  ultimately have "liveInv s'"
    using live unfolding liveInv_def by (simp add: e(2))
  then show ?thesis using runInv_workerDone[OF inv iw] by (simp add: okInv_def e(2))
qed

lemma loopAction_accepting: "loopAction cfg s = SelectEvent True \<Longrightarrow> accepting cfg s"
  by (auto simp: loopAction_def Let_def split: if_splits)

lemma liveInv_ready:
  assumes "liveInv s" "\<And>v. v \<in> set (rs_ready s) \<Longrightarrow> v \<in> set r \<or> statusOf (rs_plan s) v \<noteq> NodeNotStarted"
  shows "liveInv (s\<lparr>rs_ready := r\<rparr>)"
proof -
  have "covered P (rs_plan s) (rs_ready s) \<Longrightarrow> covered P (rs_plan s) r" for P
    using assms(2) unfolding covered_def by blast
  then show ?thesis using assms(1) unfolding liveInv_def by simp
qed

lemma liveInv_start:
  assumes live: "liveInv s" and n: "GetNode (rs_plan s) i \<noteq> None"
  shows "liveInv (startNode i (s\<lparr>rs_ready := filter (\<lambda>v. v \<noteq> i) (rs_ready s)\<rparr>))"
proof -
  let ?t = "startNode i (s\<lparr>rs_ready := filter (\<lambda>v. v \<noteq> i) (rs_ready s)\<rparr>)"
  have wk': "wk ?t = insert i (wk s)" by (simp add: wk_def startNode_def)
  have "\<exists>m. GetNode (rs_plan ?t) j = Some m \<and> pcInv (rs_canceled ?t) q m"
    if "fmlookup (rs_workers ?t) j = Some q" for j q
    using that liveInv_D(2)[OF live, of j q] n
    by (cases "j = i") (auto simp: startNode_def updNode_get pcInv_def)
  moreover have "j \<in> wk ?t" if "\<not> rs_canceled ?t" "statusOf (rs_plan ?t) j = NodeRunning" for j
    unfolding wk' using that liveInv_D(3)[OF live, of j]
    by (cases "j = i") (simp_all add: startNode_def updNode_status)
  moreover have "covered (wk ?t \<union> set (rs_done ?t)) (rs_plan ?t) (rs_ready ?t)"
    if "\<not> rs_canceled ?t" "rs_loop ?t = LoopTop"
  proof -
    have "covered (wk s \<union> set (rs_done s)) (rs_plan s) (rs_ready s)"
      using that liveInv_D(4)[OF live] by (simp add: startNode_def)
    then have "covered (insert i (wk s \<union> set (rs_done s))) (updNode i (SetStatus NodeRunning) (rs_plan s))
        (filter (\<lambda>v. v \<noteq> i) (rs_ready s))"
      by (rule covered_upd) (use n in auto)
    then show ?thesis unfolding wk' by (simp add: startNode_def)
  qed
  ultimately show ?thesis unfolding liveInv_def by blast
qed

lemma pickReady_okInv:
  assumes "applyEvent cfg EvPickReady s = Some s'" "okInv cfg p\<^sub>0 s" "wfPlan p\<^sub>0"
  shows "okInv cfg p\<^sub>0 s'"
proof -
  have inv: "runInv cfg p\<^sub>0 s" and live: "liveInv s" using assms(2) by (simp_all add: okInv_def)
  obtain i rest where e: "rs_ready s = i # rest" "accepting cfg s"
      "s' = (if statusOf (rs_plan s) i \<noteq> NodeNotStarted then s\<lparr>rs_ready := rest\<rparr>
             else startNode i (s\<lparr>rs_ready := rest\<rparr>))"
    using assms(1) by (auto dest: loopAction_accepting split: if_splits list.splits)
  have inv1: "runInv cfg p\<^sub>0 (s\<lparr>rs_ready := rest\<rparr>)"
    by (rule runInv_ready[OF inv]) (use e(1) runInv_D(11)[OF inv] in auto)
  show ?thesis
  proof (cases "statusOf (rs_plan s) i = NodeNotStarted")
    case False
    moreover have "liveInv (s\<lparr>rs_ready := rest\<rparr>)" by (rule liveInv_ready[OF live]) (use False e(1) in auto)
    ultimately show ?thesis using inv1 by (simp add: okInv_def e(3))
  next
    case True
    have node: "i \<in> set (p_nodes p\<^sub>0)" using e(1) runInv_D(11)[OF inv] by auto
    have "runInv cfg p\<^sub>0 (startNode i (s\<lparr>rs_ready := rest\<rparr>))"
      by (rule runInv_start[OF inv1 assms(3) node])
         (use True e(1,2) runInv_D(13)[OF inv, of i] in \<open>auto simp: accepting_def\<close>)
    moreover have "liveInv (startNode i (s\<lparr>rs_ready := rest\<rparr>))"
    proof -
      let ?f = "startNode i (s\<lparr>rs_ready := filter (\<lambda>v. v \<noteq> i) (rs_ready s)\<rparr>)"
      have "liveInv ?f" by (rule liveInv_start[OF live runInv_node[OF inv assms(3) node]])
      then have "liveInv (?f\<lparr>rs_ready := rest\<rparr>)" by (rule liveInv_ready) (auto simp: startNode_def e(1))
      moreover have "?f\<lparr>rs_ready := rest\<rparr> = startNode i (s\<lparr>rs_ready := rest\<rparr>)"
        by (cases s) (simp add: startNode_def)
      ultimately show ?thesis by simp
    qed
    ultimately show ?thesis using True by (simp add: okInv_def e(3))
  qed
qed

lemma pickDone_okInv:
  assumes "applyEvent cfg EvPickDone s = Some s'" "okInv cfg p\<^sub>0 s" "wfPlan p\<^sub>0"
  shows "okInv cfg p\<^sub>0 s'"
proof -
  have inv: "runInv cfg p\<^sub>0 s" and live: "liveInv s" using assms(2) by (simp_all add: okInv_def)
  obtain i rest b q ready where e: "rs_done s = i # rest" "rs_loop s = LoopTop"
      "processCompletedNode (rc_logContains cfg) (chanCap s) (rs_canceled s) i (rs_plan s) (rs_ready s) = (b, q, ready)"
      "s' = s\<lparr>rs_done := rest, rs_running := rs_running s - 1, rs_plan := q, rs_ready := ready,
              rs_loop := (if b then LoopBlocked else LoopTop)\<rparr>"
    using assms(1) by (auto split: if_splits list.splits prod.splits)
  have wf: "wfPlan (rs_plan s)" by (rule runInv_wf[OF inv assms(3)])
  have S: "marks UNIV (rs_plan s) q \<and> set (rs_ready s) \<subseteq> set ready
    \<and> set ready \<subseteq> set (rs_ready s) \<union> set (p_nodes (rs_plan s))
    \<and> (\<forall>v\<in>set ready. v \<in> set (rs_ready s) \<or> decided q v)
    \<and> (\<not> b \<and> \<not> rs_canceled s \<longrightarrow> (\<forall>P. covered (insert i P) (rs_plan s) (rs_ready s) \<longrightarrow> covered P q ready))"
    using e(3) processQueue_spec[OF _ wf, of "rc_logContains cfg" "chanCap s" "[i]" "rs_ready s" b q ready]
    by (simp add: processCompletedNode_def split: if_splits)
  let ?t = "s\<lparr>rs_done := rest, rs_running := rs_running s - 1\<rparr>"
  have "runInv cfg p\<^sub>0 ?t" using inv e(1) by (auto simp: runInv_def)
  then have "runInv cfg p\<^sub>0 (?t\<lparr>rs_plan := q\<rparr>)" by (rule runInv_plan) (use S marks_advances in auto)
  then have "runInv cfg p\<^sub>0 (?t\<lparr>rs_plan := q, rs_ready := ready\<rparr>)"
    by (rule runInv_ready) (use S runInv_D(1,11)[OF inv] in auto)
  then have "runInv cfg p\<^sub>0 s'" by (simp add: e(4))
  moreover have "liveInv s'"
  proof -
    have m: "marks UNIV (rs_plan s) q" using S by blast
    have wk': "wk s' = wk s" by (simp add: e(4))
    have "\<exists>m. GetNode (rs_plan s') j = Some m \<and> pcInv (rs_canceled s') pc m"
      if w: "fmlookup (rs_workers s') j = Some pc" for j pc
    proof -
      obtain n where n: "GetNode (rs_plan s) j = Some n" "pcInv (rs_canceled s) pc n"
        using liveInv_D(2)[OF live, of j pc] w by (auto simp: e(4))
      then have "statusOf q j = n_Status n"
        using marks_status(1)[OF m, of j] by (simp add: statusOf_def pcInv_def)
      moreover have "GetNode q j \<noteq> None" using n(1) marks_frame(4)[OF m] GetNode_dom by (metis option.distinct(1))
      ultimately show ?thesis using pcInv_status[OF n(2)] by (auto simp: e(4) statusOf_def)
    qed
    moreover have "j \<in> wk s'" if "\<not> rs_canceled s'" "statusOf (rs_plan s') j = NodeRunning" for j
      unfolding wk' using that liveInv_D(3)[OF live, of j] marks_status(4)[OF m, of j] by (simp add: e(4))
    moreover have "covered (wk s' \<union> set (rs_done s')) (rs_plan s') (rs_ready s')"
      if "\<not> rs_canceled s'" "rs_loop s' = LoopTop"
      unfolding wk' using that S liveInv_D(4)[OF live _ e(2)] by (simp add: e(1,4) split: if_splits)
    ultimately show ?thesis unfolding liveInv_def by blast
  qed
  ultimately show ?thesis by (simp add: okInv_def)
qed

section \<open>Runs of a new plan\<close>

definition freshPlan :: "Plan \<Rightarrow> bool" where
  "freshPlan p \<longleftrightarrow> wfPlan p \<and> acyclic (planEdges p) \<and> (\<forall>i. statusOf p i = NodeNotStarted)"

lemma NewPlan_nodes:
  assumes "0 < k" "distinct (map st_Name steps)" "fst (NewPlan k now steps) = Ok p" "GetNode p i = Some n"
  shows "n_Step n \<in> set steps \<and> n_State n = zeroNodeState"
proof (cases rule: NewPlan_cases[OF assms(1,2), of now])
  case (3 q)
  let ?ns = "stepNodes k steps"
  have get: "GetNode (nodesPlan now ?ns) i = Some n"
    using addAllDeps_frame[OF 3(6)] 3(1) assms(3,4) by (simp add: GetNode_def)
  have "i \<in> n_id ` set ?ns"
    using fold_addNode_lookup_other[of i ?ns "emptyPlan now"] get
    by (auto simp: nodesPlan_def emptyPlan_def GetNode_def)
  then have mem: "n \<in> set ?ns" using step_nodeOf[of _ k steps now] get by auto
  then have "n_State n \<in> n_State ` set ?ns" by blast
  also have "\<dots> = set (map n_State ?ns)" by (simp only: set_map)
  also have "\<dots> = set (map n_State (map (\<lambda>s. NewNode s zeroNodeState) steps))" by (simp only: map_state_freshNodes)
  finally show ?thesis using stepNodes_mem[OF mem] by (auto simp: NewNode_def)
qed (use assms(3) in auto)

lemma NewPlan_fresh:
  assumes "0 < k" "distinct (map st_Name steps)" "fst (NewPlan k now steps) = Ok p"
  shows "freshPlan p"
proof (cases rule: NewPlan_cases[OF assms(1,2), of now])
  case (3 q)
  moreover have "statusOf p i = NodeNotStarted" for i
    using NewPlan_nodes[OF assms, of i] by (auto simp: statusOf_def zeroNodeState_def split: option.split)
  ultimately show ?thesis using assms(3) by (simp add: freshPlan_def)
qed (use assms(3) in auto)

lemma isReady_fresh:
  assumes "\<forall>i. statusOf p i = NodeNotStarted"
  shows "isReady lc i p = (Dependencies p i = [], p)"
  using assms[rule_format, of "hd (Dependencies p i)"]
  by (cases "Dependencies p i") (auto simp: isReady_def statusOf_def split: option.splits)

lemma initialReady_fresh:
  assumes "\<forall>i. statusOf p i = NodeNotStarted"
  shows "initialReady lc is p ready = (p, ready @ filter (\<lambda>i. Dependencies p i = []) is)"
  using assms by (induction "is" arbitrary: ready) (simp_all add: isReady_fresh)

lemma initRun_okInv:
  assumes "freshPlan p"
  shows "okInv cfg p (initRun cfg c l p)"
proof -
  have ns: "\<forall>i. statusOf p i = NodeNotStarted" using assms by (simp add: freshPlan_def)
  have "covered {} p (filter (\<lambda>i. Dependencies p i = []) (p_nodes p))"
    unfolding covered_def awaits_def
  proof (intro ballI impI)
    fix v assume "v \<in> set (p_nodes p)"
    then show "v \<in> set (filter (\<lambda>i. Dependencies p i = []) (p_nodes p))
        \<or> (\<exists>d\<in>set (Dependencies p v). openStatus (statusOf p d) \<or> d \<in> {})"
      using ns by (cases "Dependencies p v") auto
  qed
  then show ?thesis
    using ns by (auto simp: okInv_def runInv_def liveInv_def initRun_def initialReady_fresh wk_def)
qed

lemma applyEvent_okInv:
  assumes "applyEvent cfg ev s = Some s'" "okInv cfg p\<^sub>0 s" "wfPlan p\<^sub>0"
  shows "okInv cfg p\<^sub>0 s'"
proof (cases ev)
  case EvExit
  then show ?thesis using exit_okInv[OF assms(1)[unfolded EvExit] assms(2)] by simp
next
  case EvPickReady
  then show ?thesis using pickReady_okInv[OF assms(1)[unfolded EvPickReady] assms(2,3)] by simp
next
  case EvPickDone
  then show ?thesis using pickDone_okInv[OF assms(1)[unfolded EvPickDone] assms(2,3)] by simp
next
  case (EvCtxDone e)
  then show ?thesis using ctxDone_okInv[OF assms(1)[unfolded EvCtxDone] assms(2)] by simp
next
  case (EvWorker i w)
  then show ?thesis using worker_okInv[OF assms(1)[unfolded EvWorker] assms(2)] by simp
next
  case (EvWorkerDone i)
  then show ?thesis using workerDone_okInv[OF assms(1)[unfolded EvWorkerDone] assms(2)] by simp
next
  case EvCancel
  then show ?thesis using cancel_okInv[OF assms(1)[unfolded EvCancel] assms(2)] by simp
next
  case (EvSignal i)
  then show ?thesis using signal_okInv[OF assms(1)[unfolded EvSignal] assms(2)] by simp
qed

lemma runs_okInv:
  assumes "runs cfg (initRun cfg c l p) s" "freshPlan p"
  shows "okInv cfg p s"
  using assms
proof (induction rule: runs.induct)
  case init
  then show ?case by (simp add: initRun_okInv)
next
  case (step s ev s')
  then show ?case using applyEvent_okInv by (auto simp: freshPlan_def)
qed

section \<open>No wake-up is lost\<close>

lemma NodeStates_iff:
  "HasWaiting (NodeStates p) \<longleftrightarrow> (\<exists>n\<in>set (planNodes p). n_Status n = NodeWaiting)"
  "HasRetrying (NodeStates p) \<longleftrightarrow> (\<exists>n\<in>set (planNodes p). n_Status n = NodeRetrying)"
proof -
  let ?f = "\<lambda>n (s :: PlanNodeStates). case n_Status n of
        NodeRunning \<Rightarrow> s\<lparr>HasRunning := True\<rparr>
      | NodeRetrying \<Rightarrow> s\<lparr>HasRetrying := True\<rparr>
      | NodeWaiting \<Rightarrow> s\<lparr>HasWaiting := True\<rparr>
      | NodeNotStarted \<Rightarrow> s\<lparr>HasNotStarted := True\<rparr>
      | NodeRejected \<Rightarrow> s\<lparr>HasRejected := True\<rparr>
      | _ \<Rightarrow> s"
  have "HasWaiting (fold ?f ns s) \<longleftrightarrow> HasWaiting s \<or> (\<exists>n\<in>set ns. n_Status n = NodeWaiting)" for ns s
    by (induction ns arbitrary: s) (auto split: NodeStatus.splits)
  moreover have "HasRetrying (fold ?f ns s) \<longleftrightarrow> HasRetrying s \<or> (\<exists>n\<in>set ns. n_Status n = NodeRetrying)" for ns s
    by (induction ns arbitrary: s) (auto split: NodeStatus.splits)
  ultimately show "HasWaiting (NodeStates p) \<longleftrightarrow> (\<exists>n\<in>set (planNodes p). n_Status n = NodeWaiting)"
    "HasRetrying (NodeStates p) \<longleftrightarrow> (\<exists>n\<in>set (planNodes p). n_Status n = NodeRetrying)"
    by (simp_all add: NodeStates_def)
qed

lemma planNodes_status:
  assumes "wfPlan p"
  shows "(\<exists>n\<in>set (planNodes p). Q (n_Status n)) \<longleftrightarrow> (\<exists>i\<in>set (p_nodes p). Q (statusOf p i))"
proof -
  have "n_Status (the (GetNode p i)) = statusOf p i" if "i \<in> set (p_nodes p)" for i
  proof -
    have "GetNode p i \<noteq> None" unfolding GetNode_dom wfPlan_D(2)[OF assms] using that .
    then show ?thesis by (auto simp: statusOf_def)
  qed
  then show ?thesis by (auto simp: planNodes_def)
qed

lemma CheckFinished_iff:
  assumes "wfPlan p"
  shows "CheckFinished p \<longleftrightarrow>
    (\<forall>i\<in>set (p_nodes p). statusOf p i \<notin> {NodeRunning, NodeRetrying, NodeNotStarted})"
  using planNodes_status[OF assms, of "\<lambda>s. s \<in> {NodeRunning, NodeRetrying, NodeNotStarted}"]
  by (auto simp: CheckFinished_def list_all_iff)

lemma idle_finished:
  assumes "wfPlan p" "acyclic (planEdges p)" "covered {} p []"
    and no: "\<And>i. i \<in> set (p_nodes p) \<Longrightarrow> statusOf p i \<notin> {NodeRunning, NodeRetrying, NodeWaiting}"
  shows "CheckFinished p"
proof -
  let ?U = "{i \<in> set (p_nodes p). statusOf p i = NodeNotStarted}"
  have wf: "wf (planEdges p)" using assms(2) finite_planEdges[OF assms(1)] by (rule finite_acyclic_wf[rotated])
  have "?U = {}"
  proof (rule ccontr)
    assume "?U \<noteq> {}"
    then obtain z where z: "z \<in> ?U" "\<And>y. (y, z) \<in> planEdges p \<Longrightarrow> y \<notin> ?U"
      using wfE_min[OF wf] by (metis (no_types, lifting) ex_in_conv)
    then obtain d where d: "d \<in> set (Dependencies p z)" "openStatus (statusOf p d)"
      using assms(3) by (auto simp: covered_def awaits_def)
    then have e: "(d, z) \<in> planEdges p" using wfPlan_mem[OF assms(1)] by (simp add: planEdges_def)
    then have "d \<in> set (p_nodes p)" using wfPlan_D(4)[OF assms(1)] by auto
    then have "d \<in> ?U" using no d(2) by (auto simp: openStatus_def)
    then show False using z(2)[OF e] by blast
  qed
  then show ?thesis using no by (auto simp: CheckFinished_iff[OF assms(1)])
qed

lemma no_deadlock:
  assumes inv: "okInv cfg p\<^sub>0 s" and fresh: "freshPlan p\<^sub>0" and top: "rs_loop s = LoopTop"
    and max: "0 \<le> rc_maxActiveRuns cfg"
  shows "loopAction cfg s \<noteq> Deadlock"
proof
  assume "loopAction cfg s = Deadlock"
  then have nf: "\<not> CheckFinished (rs_plan s)" and idle: "rs_running s = 0" and nc: "\<not> rs_canceled s"
    and r: "\<not> accepting cfg s \<or> rs_ready s = []"
    and w: "rs_ready s = [] \<Longrightarrow> \<not> HasWaiting (NodeStates (rs_plan s)) \<and> \<not> HasRetrying (NodeStates (rs_plan s))"
    by (auto simp: loopAction_def Let_def split: if_splits)
  have ready: "rs_ready s = []" using r nc idle max by (auto simp: accepting_def)
  have rinv: "runInv cfg p\<^sub>0 s" and live: "liveInv s" using inv by (simp_all add: okInv_def)
  have wf: "wfPlan (rs_plan s)" using runInv_wf[OF rinv] fresh by (simp add: freshPlan_def)
  have empty: "wk s = {}" "rs_done s = []" using runInv_D(10)[OF rinv] idle by simp_all
  have "covered {} (rs_plan s) []" using liveInv_D(4)[OF live nc top] by (simp add: empty ready)
  moreover have "statusOf (rs_plan s) i \<notin> {NodeRunning, NodeRetrying, NodeWaiting}"
    if "i \<in> set (p_nodes (rs_plan s))" for i
    using w[OF ready] liveInv_D(3)[OF live nc, of i] that planNodes_status[OF wf, of "\<lambda>s. s = NodeWaiting"]
      planNodes_status[OF wf, of "\<lambda>s. s = NodeRetrying"] by (auto simp: NodeStates_iff empty)
  moreover have "acyclic (planEdges (rs_plan s))"
    using fresh wfPlan_cong(2)[OF runInv_D(1-4)[OF rinv]] by (simp add: freshPlan_def)
  ultimately show False using idle_finished[OF wf] nf by blast
qed

end
