(* ===== verification/Run_Properties.thy ===== *)
theory Run_Properties
  imports Run_Invariants
begin

text \<open>
  The properties of \<open>Run\<close> that follow from the invariants, and concrete runs.
\<close>

section \<open>Example runs\<close>

definition quietIn :: "ExecOutcome \<Rightarrow> WorkerIn" where
  "quietIn o' = \<lparr>wi_prepare = \<lparr>pio_mkdirErr = None, pio_logFile = ''log'', pio_merged = False, pio_setupErr = None,
       pio_outputsErr = None, pio_now = 1\<rparr>,
     wi_preErr = None, wi_outcome = o', wi_now = 1, wi_condErr = None, wi_closeErr = None\<rparr>"

text \<open>All steps of the goroutine of a node whose command succeeds.\<close>

definition successEvents :: "nat \<Rightarrow> RunEvent list" where
  "successEvents i = replicate 8 (EvWorker i (quietIn okOutcome)) @ [EvWorkerDone i]"

definition planOf :: "Step list \<Rightarrow> Plan" where
  "planOf steps = (case fst (NewPlan 1 5 steps) of Inr p \<Rightarrow> p | Inl _ \<Rightarrow> emptyPlan 5)"

lemma planOf_ok: "\<not> isl (fst (NewPlan 1 5 steps)) \<Longrightarrow> fst (NewPlan 1 5 steps) = Ok (planOf steps)"
  by (auto simp: planOf_def split: sum.splits)

definition traceOf :: "Step list \<Rightarrow> RunEvent list \<Rightarrow> RunState option" where
  "traceOf steps evs = runTrace exampleCfg evs (initRun exampleCfg False None (planOf steps))"

lemma traceOf_runs:
  "traceOf steps evs = Some s \<Longrightarrow> runs exampleCfg (initRun exampleCfg False None (planOf steps)) s"
  unfolding traceOf_def by (rule runTrace_runs[OF runs.init])

definition chainTrace :: "RunEvent list" where
  "chainTrace = [EvPickReady] @ successEvents 2 @ [EvPickDone, EvPickReady] @ successEvents 1"

section \<open>Starting nodes\<close>

text \<open>C3: no goroutine is started twice for a node, and never more than \<open>maxActiveRuns\<close> nodes are
  in progress when a limit is set, in whatever order goroutines, completions, cancellation and
  signals interleave.\<close>

theorem run_starts_once_within_limit:
  assumes "0 < k" "distinct (map st_Name steps)" "fst (NewPlan k now steps) = Ok p"
    and "runs cfg (initRun cfg canceled lastError p) s"
  shows "distinct (rs_started s)
    \<and> (rc_maxActiveRuns cfg > 0 \<longrightarrow> int (card (fset (fmdom (rs_workers s)))) \<le> rc_maxActiveRuns cfg)"
proof -
  have "runInv cfg p s" using runs_okInv[OF assms(4) NewPlan_fresh[OF assms(1-3)]] by (simp add: okInv_def)
  then show ?thesis using runInv_D(5,10,14)[of cfg p s] by (auto simp: wk_def)
qed

theorem run_starts_once_within_limit_witness:
  "\<exists>s. traceOf chainSteps (take 12 chainTrace) = Some s \<and> length (rs_started s) = 2 \<and> distinct (rs_started s)"
proof -
  have "map_option (\<lambda>s. length (rs_started s)) (traceOf chainSteps (take 12 chainTrace)) = Some 2" by code_simp
  then obtain s where s: "traceOf chainSteps (take 12 chainTrace) = Some s" "length (rs_started s) = 2" by auto
  have p: "fst (NewPlan 1 5 chainSteps) = Ok (planOf chainSteps)" by (rule planOf_ok) code_simp
  have "distinct (map st_Name chainSteps)" by code_simp
  then have "distinct (rs_started s)"
    using run_starts_once_within_limit[OF _ _ p traceOf_runs[OF s(1)]] by simp
  with s show ?thesis by blast
qed



end
