(* ===== verification/Run_Order.thy ===== *)
theory Run_Order
  imports Run_Properties
begin

text \<open>
  Dependencies finish first: in a plan whose steps neither repeat nor wait for approval nor have
  a timeout of their own, a node starts only after all its dependencies have ended, and they
  stay ended.  The excluded features let a node leave a final status again, which another node's
  completion may observe in between.
\<close>

definition calmStep :: "Step \<Rightarrow> bool" where
  "calmStep st \<longleftrightarrow> rep_RepeatMode (st_RepeatPolicy st) = '''' \<and> st_Approval st = None \<and> st_Timeout st \<le> 0"

definition calmPlan :: "Plan \<Rightarrow> bool" where
  "calmPlan p \<longleftrightarrow> (\<forall>i n. GetNode p i = Some n \<longrightarrow> calmStep (n_Step n))"

text \<open>Where the goroutine of a node with a final status can be, in a run that is not canceled.\<close>

definition calmPc :: "WorkerPC \<Rightarrow> Node \<Rightarrow> bool" where
  "calmPc pc n \<longleftrightarrow> (goodStatus (n_Status n) \<longrightarrow> (case pc of
      WHandle e \<Rightarrow> n_Status n \<in> {NodeSucceeded, NodePartiallySucceeded}
    | WAfter e \<Rightarrow> True | WFinal \<Rightarrow> True | WTeardown \<Rightarrow> True | WDone \<Rightarrow> True | _ \<Rightarrow> False))"

lemma Prepare_calm:
  assumes "calmStep (n_Step n)"
  shows "calmStep (n_Step (snd (Prepare ev io n)))"
proof -
  have r: "calmStep (n_Step m)" if "setupRetryPolicy ev q = Inr m" "calmStep (n_Step q)" for q m
    using that by (auto simp: setupRetryPolicy_def Let_def result_bind_eq_Ok calmStep_def)
  have s: "calmStep (n_Step m)" if "setupRepeatPolicy ev q = Inr m" "calmStep (n_Step q)" for q m
    using that by (auto simp: setupRepeatPolicy_def Let_def result_bind_eq_Ok calmStep_def)
  have d: "n_Step (Data_Setup io n) = n_Step n" by (simp add: Data_Setup_def)
  show ?thesis using assms r[of "Data_Setup io n"] s
    by (auto simp: Prepare_def Let_def d split: option.split sum.split)
qed

lemma handle_step: "n_Step (fst (snd (handleNodeExecutionError cfg c t now e n l))) = n_Step n"
  by (auto simp: handleNodeExecutionError_def shouldRetryNode_def Let_def split_beta setter_defs split: option.split)

lemma handle_final:
  assumes "n_Status n \<in> {NodeSucceeded, NodePartiallySucceeded}"
  shows "handleNodeExecutionError cfg c t now e n l = (False, n, l)"
  using assms by (auto simp: handleNodeExecutionError_def Let_def split: option.split)

lemma handle_retriable:
  "fst (handleNodeExecutionError cfg c t now e n l) \<Longrightarrow>
     n_Status (fst (snd (handleNodeExecutionError cfg c t now e n l))) = NodeRunning"
  by (auto simp: handleNodeExecutionError_def shouldRetryNode_def Let_def split_beta split: option.splits if_splits)

lemma workerStep_calm:
  assumes "workerStep cfg False t w pc n l = (pc', n', l')" "calmPc pc n" "reportable (wi_outcome w)"
    "calmStep (n_Step n)"
  shows "calmPc pc' n' \<and> (goodStatus (n_Status n) \<longrightarrow> goodStatus (n_Status n'))"
proof (cases pc)
  case WPrepare
  then show ?thesis using assms Prepare_status[of "rc_intString cfg" "wi_prepare w" n]
    by (auto simp: calmPc_def split: if_splits prod.splits option.splits)
next
  case WPrecond
  then show ?thesis using assms
    by (auto simp: calmPc_def meetsPreconditions_def split: option.splits if_splits)
next
  case WExec
  then show ?thesis using assms execNode_status[of cfg "wi_outcome w" n]
    by (auto simp: calmPc_def goodStatus_def calmStep_def split: prod.splits)
next
  case (WHandle e)
  obtain r m k where h: "handleNodeExecutionError cfg False t (wi_now w) e n l = (r, m, k)"
    by (cases "handleNodeExecutionError cfg False t (wi_now w) e n l") auto
  have run: "n_Status m = NodeRunning" if r using handle_retriable[of cfg False t "wi_now w" e n l] h that by simp
  have fin: "\<not> r \<and> m = n" if "goodStatus (n_Status n)"
    using assms(2) WHandle that handle_final[of n cfg False t "wi_now w" e l] h by (auto simp: calmPc_def)
  show ?thesis using assms(1) WHandle h run fin
    by (auto simp: calmPc_def goodStatus_def split: if_splits)
next
  case (WAfter e)
  then show ?thesis using assms
    by (auto simp: calmPc_def calmStep_def shouldRepeatNode_def RepeatModeWhile_def RepeatModeUntil_def
        Let_def split: if_splits)
next
  case WFinal
  then show ?thesis using assms
    by (auto simp: calmPc_def calmStep_def finalStatus_def goodStatus_def Let_def split: if_splits)
next
  case WTeardown
  then show ?thesis
    using assms teardownNode_status[of cfg "wi_closeErr w" n l]
    by (auto simp: calmPc_def goodStatus_def split: prod.splits)
qed (use assms in \<open>auto simp: calmPc_def\<close>)

lemma workerStep_calmStep:
  assumes "workerStep cfg c t w pc n l = (pc', n', l')" "calmStep (n_Step n)"
  shows "calmStep (n_Step n')"
proof (cases pc)
  case WPrepare
  then show ?thesis using assms Prepare_calm[OF assms(2), of "rc_intString cfg" "wi_prepare w"]
    by (auto simp: setter_defs split: if_splits prod.splits option.splits)
next
  case (WHandle e)
  then show ?thesis using assms handle_step[of cfg c t "wi_now w" e n l]
    by (auto simp: setter_defs Let_def split_beta split: if_splits)
next
  case WExec
  then show ?thesis using assms Node_Execute_frame[of n "wi_outcome w"]
    by (auto simp: execNode_def sameFrame_def split: prod.splits if_splits)
qed (use assms in \<open>auto simp: meetsPreconditions_def prepareNodeForRepeat_def finalStatus_def teardownNode_def
       Teardown_def setter_defs Let_def split: if_splits option.splits prod.splits\<close>)

section \<open>The invariant\<close>

definition orderInv :: "RunState \<Rightarrow> bool" where
  "orderInv s \<longleftrightarrow> calmPlan (rs_plan s)
     \<and> (\<not> rs_canceled s \<longrightarrow>
          (\<forall>i pc n. fmlookup (rs_workers s) i = Some pc \<longrightarrow> GetNode (rs_plan s) i = Some n \<longrightarrow> calmPc pc n)
          \<and> (\<forall>i\<in>set (rs_ready s) \<union> set (rs_started s). decided (rs_plan s) i))"

lemma orderInv_D:
  assumes "orderInv s"
  shows "GetNode (rs_plan s) i = Some n \<Longrightarrow> calmStep (n_Step n)"
    "\<not> rs_canceled s \<Longrightarrow> fmlookup (rs_workers s) i = Some pc \<Longrightarrow> GetNode (rs_plan s) i = Some n \<Longrightarrow> calmPc pc n"
    "\<not> rs_canceled s \<Longrightarrow> i \<in> set (rs_ready s) \<union> set (rs_started s) \<Longrightarrow> decided (rs_plan s) i"
  using assms unfolding orderInv_def calmPlan_def by blast+

text \<open>A change of one node that keeps its final status keeps decided nodes decided.\<close>

lemma decided_upd:
  assumes "decided p v" "\<And>n. GetNode p i = Some n \<Longrightarrow> goodStatus (n_Status n) \<Longrightarrow> goodStatus (n_Status (f n))"
  shows "decided (updNode i f p) v"
proof -
  have "goodStatus (statusOf (updNode i f p) d)" if "goodStatus (statusOf p d)" for d
    using that assms(2) by (cases "d = i") (auto simp: updNode_get statusOf_def goodStatus_def split: option.splits)
  then show ?thesis using assms(1) by (auto simp: decided_def)
qed

lemma calmPlan_upd:
  assumes "calmPlan p" "\<And>n. GetNode p i = Some n \<Longrightarrow> calmStep (n_Step (f n))"
  shows "calmPlan (updNode i f p)"
  using assms unfolding calmPlan_def by (auto simp: updNode_get split: if_splits)

lemma calmPlan_marks:
  assumes "marks Q p q" "calmPlan p"
  shows "calmPlan q"
  unfolding calmPlan_def
proof (intro allI impI)
  fix i n assume "GetNode q i = Some n"
  then obtain m where "GetNode p i = Some m" "n_Step m = n_Step n"
    using marks_frame(5)[OF assms(1), of i] by (cases "GetNode p i") auto
  then show "calmStep (n_Step n)" using assms(2) unfolding calmPlan_def by metis
qed

lemma pickReady_orderInv:
  assumes "applyEvent cfg EvPickReady s = Some s'" "okInv cfg p\<^sub>0 s" "orderInv s"
  shows "orderInv s'"
proof -
  obtain i rest where e: "rs_ready s = i # rest"
      "s' = (if statusOf (rs_plan s) i \<noteq> NodeNotStarted then s\<lparr>rs_ready := rest\<rparr>
             else startNode i (s\<lparr>rs_ready := rest\<rparr>))"
    using assms(1) by (auto split: if_splits list.splits)
  show ?thesis
  proof (cases "statusOf (rs_plan s) i = NodeNotStarted")
    case False
    then show ?thesis using assms(3) by (simp add: e orderInv_def)
  next
    case True
    let ?q = "updNode i (SetStatus NodeRunning) (rs_plan s)"
    have "calmPlan ?q" by (rule calmPlan_upd) (use assms(3) in \<open>auto simp: orderInv_def calmPlan_def setter_defs\<close>)
    moreover have "decided ?q v" if "decided (rs_plan s) v" for v
      by (rule decided_upd[OF that]) (use True goodStatus_started in \<open>auto simp: statusOf_def\<close>)
    moreover have "calmPc pc n" if "\<not> rs_canceled s" "fmlookup (fmupd i WPrepare (rs_workers s)) j = Some pc"
      "GetNode ?q j = Some n" for j pc n
      using that orderInv_D(2)[OF assms(3), of j pc n]
      by (cases "j = i") (auto simp: updNode_get calmPc_def goodStatus_def)
    ultimately show ?thesis using assms(3) True e(1) by (auto simp: orderInv_def e(2) startNode_def)
  qed
qed

lemma worker_orderInv:
  assumes "applyEvent cfg (EvWorker i w) s = Some s'" "orderInv s"
  shows "orderInv s'"
proof -
  obtain pc n pc' n' l' where e: "fmlookup (rs_workers s) i = Some pc" "GetNode (rs_plan s) i = Some n"
      "reportable (wi_outcome w)"
      "workerStep cfg (rs_canceled s) (p_startedAt (rs_plan s)) w pc n (rs_lastError s) = (pc', n', l')"
      "s' = s\<lparr>rs_plan := updNode i (\<lambda>_. n') (rs_plan s), rs_workers := fmupd i pc' (rs_workers s), rs_lastError := l'\<rparr>"
    using assms(1) by (auto split: option.splits if_splits prod.splits)
  have cs: "calmStep (n_Step n)" by (rule orderInv_D(1)[OF assms(2) e(2)])
  have "calmPlan (rs_plan s')"
    unfolding e(5) by (simp, rule calmPlan_upd)
      (use assms(2) workerStep_calmStep[OF e(4) cs] in \<open>auto simp: orderInv_def\<close>)
  moreover have "(\<forall>j q m. fmlookup (rs_workers s') j = Some q \<longrightarrow> GetNode (rs_plan s') j = Some m \<longrightarrow> calmPc q m)
        \<and> (\<forall>v\<in>set (rs_ready s') \<union> set (rs_started s'). decided (rs_plan s') v)" if nc: "\<not> rs_canceled s"
  proof -
    have c: "calmPc pc' n' \<and> (goodStatus (n_Status n) \<longrightarrow> goodStatus (n_Status n'))"
      using workerStep_calm[of cfg "p_startedAt (rs_plan s)" w pc n "rs_lastError s" pc' n' l']
        e(3,4) nc cs orderInv_D(2)[OF assms(2) nc e(1,2)] by simp
    have "calmPc q m" if "fmlookup (rs_workers s') j = Some q" "GetNode (rs_plan s') j = Some m" for j q m
      using that orderInv_D(2)[OF assms(2) nc, of j q m] c e(2)
      by (cases "j = i") (auto simp: e(5) updNode_get)
    moreover have "decided (rs_plan s') v" if "v \<in> set (rs_ready s') \<union> set (rs_started s')" for v
    proof -
      have "decided (rs_plan s) v" using that orderInv_D(3)[OF assms(2) nc, of v] by (simp add: e(5))
      then show ?thesis unfolding e(5) by simp (rule decided_upd, use c e(2) in auto)
    qed
    ultimately show ?thesis by blast
  qed
  ultimately show ?thesis unfolding orderInv_def by (simp add: e(5))
qed

lemma pickDone_orderInv:
  assumes "applyEvent cfg EvPickDone s = Some s'" "okInv cfg p\<^sub>0 s" "wfPlan p\<^sub>0" "orderInv s"
  shows "orderInv s'"
proof -
  obtain i rest b q ready where e:
      "processCompletedNode (rc_logContains cfg) (chanCap s) (rs_canceled s) i (rs_plan s) (rs_ready s) = (b, q, ready)"
      "s' = s\<lparr>rs_done := rest, rs_running := rs_running s - 1, rs_plan := q, rs_ready := ready,
              rs_loop := (if b then LoopBlocked else LoopTop)\<rparr>"
    using assms(1) by (auto split: if_splits list.splits prod.splits)
  have wf: "wfPlan (rs_plan s)" using runInv_wf assms(2,3) by (auto simp: okInv_def)
  have S: "marks UNIV (rs_plan s) q \<and> (\<forall>v\<in>set ready. v \<in> set (rs_ready s) \<or> decided q v)"
    using e(1) processQueue_spec[OF _ wf, of "rc_logContains cfg" "chanCap s" "[i]" "rs_ready s" b q ready]
    by (simp add: processCompletedNode_def split: if_splits)
  then have m: "marks UNIV (rs_plan s) q" by blast
  have "calmPlan q" using calmPlan_marks[OF m] assms(4) by (simp add: orderInv_def)
  moreover have "calmPc pc n" if nc: "\<not> rs_canceled s" and w: "fmlookup (rs_workers s) j = Some pc" and n: "GetNode q j = Some n" for j pc n
  proof -
    have "liveInv s" using assms(2) by (simp add: okInv_def)
    then obtain n0 where n0: "GetNode (rs_plan s) j = Some n0" "pcInv (rs_canceled s) pc n0"
      using liveInv_D(2) w by blast
    then have "n_Status n = n_Status n0"
      using marks_status(1)[OF m, of j] n by (simp add: statusOf_def pcInv_def)
    then show ?thesis using orderInv_D(2)[OF assms(4) nc w n0(1)]
      by (cases pc) (simp_all add: calmPc_def)
  qed
  moreover have "decided q v" if "\<not> rs_canceled s" "v \<in> set ready \<union> set (rs_started s)" for v
    using that S marks_decided[OF m, of v] orderInv_D(3)[OF assms(4) that(1), of v] by blast
  ultimately show ?thesis unfolding orderInv_def by (simp add: e(2))
qed

lemma signal_orderInv:
  assumes "applyEvent cfg (EvSignal i) s = Some s'" "orderInv s"
  shows "orderInv s'"
proof -
  have s': "s' = s\<lparr>rs_plan := updNode i (Node_Signal True) (rs_plan s)\<rparr>" "rs_canceled s"
    using assms(1) by (auto split: if_splits option.splits)
  have "calmPlan (rs_plan s')"
    unfolding s' by (simp, rule calmPlan_upd)
      (use assms(2) in \<open>auto simp: orderInv_def calmPlan_def Node_Signal_def setter_defs\<close>)
  then show ?thesis using s' by (simp add: orderInv_def)
qed

lemma applyEvent_orderInv:
  assumes "applyEvent cfg ev s = Some s'" "okInv cfg p\<^sub>0 s" "wfPlan p\<^sub>0" "orderInv s"
  shows "orderInv s'"
proof (cases ev)
  case EvExit
  then show ?thesis using assms(1,4) by (auto simp: orderInv_def split: if_splits LoopAction.splits)
next
  case EvPickReady
  then show ?thesis using pickReady_orderInv[OF assms(1)[unfolded EvPickReady] assms(2,4)] by simp
next
  case EvPickDone
  then show ?thesis using pickDone_orderInv[OF assms(1)[unfolded EvPickDone] assms(2-4)] by simp
next
  case (EvCtxDone e)
  then show ?thesis using assms(1,4) by (auto simp: orderInv_def split: if_splits)
next
  case (EvWorker i w)
  then show ?thesis using worker_orderInv[OF assms(1)[unfolded EvWorker] assms(4)] by simp
next
  case (EvWorkerDone i)
  then show ?thesis using assms(1,4) by (auto simp: orderInv_def split: if_splits)
next
  case EvCancel
  then show ?thesis using assms(1,4) by (auto simp: orderInv_def)
next
  case (EvSignal i)
  then show ?thesis using signal_orderInv[OF assms(1)[unfolded EvSignal] assms(4)] by simp
qed

lemma runs_orderInv:
  assumes "runs cfg (initRun cfg c l p) s" "freshPlan p" "calmPlan p"
  shows "okInv cfg p s \<and> orderInv s"
  using assms
proof (induction rule: runs.induct)
  case init
  then have ns: "\<forall>i. statusOf p i = NodeNotStarted" by (simp add: freshPlan_def)
  then have "orderInv (initRun cfg c l p)"
    using init(2) by (auto simp: orderInv_def initRun_def initialReady_fresh[OF ns] decided_def)
  then show ?case using initRun_okInv init by blast
next
  case (step s ev s')
  then show ?case using applyEvent_okInv applyEvent_orderInv by (auto simp: freshPlan_def)
qed



section \<open>What can go wrong without these restrictions\<close>

text \<open>A step that is repeated until its command succeeds, and a step that depends on it and on another one.\<close>

definition untilStep :: "string \<Rightarrow> Step" where
  "untilStep name = zeroStep\<lparr>st_Name := name,
     st_RepeatPolicy := zeroRepeatPolicy\<lparr>rep_RepeatMode := RepeatModeUntil\<rparr>\<rparr>"

definition raceSteps :: "Step list" where
  "raceSteps = [untilStep ''poll'', zeroStep\<lparr>st_Name := ''other''\<rparr>,
                zeroStep\<lparr>st_Name := ''join'', st_Depends := [''poll'', ''other'']\<rparr>]"

text \<open>The first attempt of \<open>poll\<close> fails and is about to be repeated when \<open>other\<close> completes.\<close>

definition raceTrace :: "RunEvent list" where
  "raceTrace = [EvPickReady, EvPickReady] @ replicate 5 (EvWorker 1 (quietIn (failOutcome 1))) @ successEvents 2
     @ [EvPickDone] @ replicate 6 (EvWorker 1 (quietIn okOutcome)) @ [EvWorker 1 (quietIn okOutcome)]"


text \<open>Once the main loop is blocked in a send to \<open>readyCh\<close>, it stays blocked: only it receives from that channel.\<close>

lemma blocked_stays:
  assumes "runs cfg s\<^sub>0 s" "rs_loop s\<^sub>0 = LoopBlocked"
  shows "rs_loop s = LoopBlocked"
  using assms
proof (induction rule: runs.induct)
  case (step s ev s')
  then show ?case by (cases ev) (auto split: if_splits option.splits prod.splits list.splits)
qed simp

definition fanSteps :: "Step list" where
  "fanSteps = [zeroStep\<lparr>st_Name := ''a''\<rparr>, zeroStep\<lparr>st_Name := ''b''\<rparr>, zeroStep\<lparr>st_Name := ''c''\<rparr>,
     zeroStep\<lparr>st_Name := ''x'', st_Depends := [''a'', ''b'', ''c'']\<rparr>,
     zeroStep\<lparr>st_Name := ''y'', st_Depends := [''a'', ''b'', ''c'']\<rparr>,
     zeroStep\<lparr>st_Name := ''z'', st_Depends := [''a'', ''b'', ''c'']\<rparr>]"

definition fanTrace :: "RunEvent list" where
  "fanTrace = replicate 3 EvPickReady @ successEvents 1 @ successEvents 2 @ successEvents 3 @ replicate 3 EvPickDone"

text \<open>The buffer of \<open>readyCh\<close> is too small: a node is sent once for every completed dependency, so when
  three parallel steps complete before the loop looks, their three common dependents are sent nine
  times into a channel with room for six, and the main loop blocks in the send with all dependents
  unstarted.\<close>

theorem readyCh_overflow_blocks:
  "map_option (\<lambda>s. (rs_loop s, rs_ready s, map (statusOf (rs_plan s)) [4, 5, 6])) (traceOf fanSteps fanTrace)
     = Some (LoopBlocked, [4, 5, 6, 4, 5, 6], [NodeNotStarted, NodeNotStarted, NodeNotStarted])"
  by code_simp

text \<open>A failed run with a skipped step, retried; \<open>report\<close> comes before its dependency.\<close>

definition retriedSteps :: "Step list" where
  "retriedSteps = [zeroStep\<lparr>st_Name := ''report'', st_Depends := [''merge'']\<rparr>,
     zeroStep\<lparr>st_Name := ''merge'', st_Depends := [''optional'', ''load'']\<rparr>,
     zeroStep\<lparr>st_Name := ''optional''\<rparr>, zeroStep\<lparr>st_Name := ''load''\<rparr>]"

definition retriedNodes :: "Node list" where
  "retriedNodes = map2 (\<lambda>st s. NewNode st (zeroNodeState\<lparr>ns_Status := s\<rparr>)) retriedSteps
     [NodeAborted, NodeAborted, NodeSkipped, NodeFailed]"

definition retriedRun :: "RunState option" where
  "retriedRun = (case CreateRetryPlan 1 5 retriedSteps retriedNodes of
     Some (Inr p) \<Rightarrow> runTrace exampleCfg ([EvPickReady] @ successEvents 4 @ [EvPickDone, EvExit])
                       (initRun exampleCfg False None p)
   | _ \<Rightarrow> None)"

text \<open>Retrying can end in a false deadlock: the scan for initially ready nodes marks a node whose dependency
  was skipped without passing that on, so a dependent that was scanned before stays unstarted when
  everything else has completed.\<close>

theorem retry_false_deadlock:
  "map_option (\<lambda>s. (rs_lastError s, map (statusOf (rs_plan s)) [1, 2, 3, 4])) retriedRun
     = Some (Some ErrDeadlockDetected, [NodeNotStarted, NodeSkipped, NodeSkipped, NodeSucceeded])"
  by code_simp

end
