(* ===== verification/Runner_Status.thy ===== *)
theory Runner_Status
  imports Runner Env_Scope
begin

text \<open>
  The status of a run and the handlers executed at its end (\<open>internal/runtime/runner.go\<close>).
  Asking a failed node whether its dependents may continue caches the answer in the node, so the
  functions return the plan they leave behind.
\<close>

section \<open>Success and partial success\<close>

definition isSucceed :: "Plan \<Rightarrow> bool" where
  "isSucceed p = list_all (\<lambda>n. n_Status n = NodeSucceeded \<or> n_Status n = NodeSkipped
     \<or> n_Status n = NodePartiallySucceeded) (planNodes p)"

text \<open>The first pass of \<open>isPartialSuccess\<close>: no failed node without permission to continue.\<close>

fun allContinue :: "logReader \<Rightarrow> nat list \<Rightarrow> Plan \<Rightarrow> bool \<times> Plan" where
  "allContinue lc [] p = (True, p)"
| "allContinue lc (i # is) p =
     (if statusOf p i = NodeFailed
      then (case GetNode p i of None \<Rightarrow> allContinue lc is p
            | Some n \<Rightarrow> (let (c, n') = ShouldContinue lc n; p' = updNode i (\<lambda>_. n') p
                         in if c then allContinue lc is p' else (False, p')))
      else allContinue lc is p)"

text \<open>The second pass: has a node succeeded, has one failed with permission to continue.\<close>

fun countPartial :: "logReader \<Rightarrow> nat list \<Rightarrow> bool \<Rightarrow> bool \<Rightarrow> Plan \<Rightarrow> bool \<times> bool \<times> Plan" where
  "countPartial lc [] hasSucc hasFail p = (hasSucc, hasFail, p)"
| "countPartial lc (i # is) hasSucc hasFail p =
     (if statusOf p i = NodeSucceeded then countPartial lc is True hasFail p
      else if statusOf p i = NodeFailed
      then (case GetNode p i of None \<Rightarrow> countPartial lc is hasSucc hasFail p
            | Some n \<Rightarrow>
               (let (c, n1) = ShouldContinue lc n
                in if \<not> c then countPartial lc is hasSucc hasFail (updNode i (\<lambda>_. n1) p)
                   else (let (m, n2) = ShouldMarkSuccess lc n1
                         in countPartial lc is hasSucc (hasFail \<or> \<not> m) (updNode i (\<lambda>_. n2) p))))
      else if statusOf p i = NodePartiallySucceeded then countPartial lc is True True p
      else countPartial lc is hasSucc hasFail p)"

definition isPartialSuccess :: "logReader \<Rightarrow> Plan \<Rightarrow> bool \<times> Plan" where
  "isPartialSuccess lc p =
     (let (ok, p1) = allContinue lc (p_nodes p) p
      in if \<not> ok then (False, p1)
         else (let (hasSucc, hasFail, p2) = countPartial lc (p_nodes p1) False False p1
               in (hasSucc \<and> hasFail, p2)))"

section \<open>Status\<close>

definition Runner_Status :: "RunnerConfig \<Rightarrow> bool \<Rightarrow> GoError option \<Rightarrow> Plan \<Rightarrow> Status \<times> Plan" where
  "Runner_Status cfg canceled lastError p =
     (let states = NodeStates p
      in if canceled \<and> \<not> isSucceed p then (Aborted, p)
         else if \<not> IsStarted p then (NotStarted, p)
         else if HasRunning states then (Running, p)
         else if HasRetrying states then (Queued, p)
         else if HasRejected states then (Rejected, p)
         else if HasWaiting states then (Waiting, p)
         else if HasNotStarted states \<and> \<not> IsFinished p then (Running, p)
         else case rc_forcedStatus cfg of
                Some s \<Rightarrow> (s, p)
              | None \<Rightarrow>
                 (let (partial, p') = isPartialSuccess (rc_logContains cfg) p
                  in (if partial then PartiallySucceeded
                      else if lastError \<noteq> None then Failed else Succeeded, p')))"

section \<open>Signal and Cancel\<close>

definition Runner_Signal :: "bool \<Rightarrow> Plan \<Rightarrow> bool \<Rightarrow> Plan \<times> bool" where
  "Runner_Signal isTermination p canceled =
     (fold (\<lambda>i q. case GetNode q i of None \<Rightarrow> q
        | Some n \<Rightarrow> if rep_RepeatMode (st_RepeatPolicy (n_Step n)) \<noteq> '''' then q
                    else updNode i (Node_Signal isTermination) q) (p_nodes p) p,
      canceled \<or> isTermination)"

definition Runner_Cancel :: "Plan \<Rightarrow> Plan \<times> bool" where
  "Runner_Cancel p = (fold (\<lambda>i q. updNode i Node_Cancel q) (p_nodes p) p, True)"

section \<open>Event handlers\<close>

datatype HandlerType = HandlerOnInit | HandlerOnSuccess | HandlerOnFailure | HandlerOnAbort
  | HandlerOnExit | HandlerOnWait

text \<open>What the outside contributes to one handler: preparation, preconditions, the command, and the time.\<close>

record HandlerIn =
  hi_prepare :: PrepareIO
  hi_preErr :: "GoError option"
  hi_outcome :: ExecOutcome
  hi_closeErr :: "GoError option"
  hi_now :: int

definition runEventHandler :: "RunnerConfig \<Rightarrow> HandlerIn \<Rightarrow> Node \<Rightarrow> GoError option \<times> Node" where
  "runEventHandler cfg h n =
     (let (err, n') =
        (if rc_dry cfg then (None, SetStatus NodeSucceeded n)
         else case Prepare (rc_intString cfg) (hi_prepare h) n of
           (Some e, n1) \<Rightarrow> (None, SetStatus NodeFailed n1)
         | (None, n1) \<Rightarrow>
            (case hi_preErr h of
               Some e \<Rightarrow> (None, snd (Teardown (hi_closeErr h) (SetStatus NodeSkipped n1)))
             | None \<Rightarrow>
                (case Node_Execute (hi_outcome h) (SetStatus NodeRunning n1) of
                   (Some e, n2) \<Rightarrow> (Some e, snd (Teardown (hi_closeErr h) (SetStatus NodeFailed n2)))
                 | (None, n2) \<Rightarrow> (None, snd (Teardown (hi_closeErr h) (SetStatus NodeSucceeded n2))))))
      in (err, Node_Finish (hi_now h) n'))"

text \<open>The handlers selected by the final status, and whether they run in the final loop.\<close>

definition finalHandlers :: "Status \<Rightarrow> HandlerType list" where
  "finalHandlers s = (case s of
       Succeeded \<Rightarrow> [HandlerOnSuccess, HandlerOnExit]
     | PartiallySucceeded \<Rightarrow> [HandlerOnSuccess, HandlerOnExit]
     | Failed \<Rightarrow> [HandlerOnFailure, HandlerOnExit]
     | Aborted \<Rightarrow> [HandlerOnAbort, HandlerOnExit]
     | Rejected \<Rightarrow> [HandlerOnFailure, HandlerOnExit]
     | Waiting \<Rightarrow> []
     | Queued \<Rightarrow> []
     | NotStarted \<Rightarrow> [HandlerOnExit]
     | Running \<Rightarrow> [HandlerOnExit])"

fun runHandlers :: "RunnerConfig \<Rightarrow> (HandlerType \<Rightarrow> HandlerIn) \<Rightarrow> HandlerType list
    \<Rightarrow> (HandlerType \<Rightarrow> Node option) \<Rightarrow> GoError option \<Rightarrow> (HandlerType \<Rightarrow> Node option) \<times> GoError option" where
  "runHandlers cfg h [] hs lastError = (hs, lastError)"
| "runHandlers cfg h (t # ts) hs lastError =
     (case hs t of None \<Rightarrow> runHandlers cfg h ts hs lastError
      | Some n \<Rightarrow>
         (let (err, n') = runEventHandler cfg (h t) n
          in runHandlers cfg h ts (hs(t \<mapsto> n')) (case err of Some e \<Rightarrow> Some e | None \<Rightarrow> lastError)))"

text \<open>The end of \<open>Run\<close>, after the event loop: the handlers' nodes and the error it returns.\<close>

definition finishRun :: "RunnerConfig \<Rightarrow> (HandlerType \<Rightarrow> HandlerIn) \<Rightarrow> bool \<Rightarrow> Plan
    \<Rightarrow> (HandlerType \<Rightarrow> Node option) \<Rightarrow> GoError option \<Rightarrow> (HandlerType \<Rightarrow> Node option) \<times> GoError option" where
  "finishRun cfg h canceled p hs lastError =
     (let s = fst (Runner_Status cfg canceled lastError p)
      in if s = Waiting
         then (case hs HandlerOnWait of None \<Rightarrow> (hs, lastError)
               | Some n \<Rightarrow> (hs(HandlerOnWait \<mapsto> snd (runEventHandler cfg (h HandlerOnWait) n)), lastError))
         else runHandlers cfg h (finalHandlers s) hs lastError)"

section \<open>What partial success means\<close>

text \<open>The plan \<open>q\<close> is \<open>p\<close> with the answers of some nodes cached.\<close>

definition cachedPlan :: "logReader \<Rightarrow> Plan \<Rightarrow> Plan \<Rightarrow> bool" where
  "cachedPlan lc p q \<longleftrightarrow> p_nodes q = p_nodes p \<and>
     (\<forall>i. GetNode q i = GetNode p i \<or> GetNode q i = map_option (\<lambda>n. snd (ShouldContinue lc n)) (GetNode p i))"

definition plainNames :: "Plan \<Rightarrow> bool" where
  "plainNames p \<longleftrightarrow> (\<forall>i n. GetNode p i = Some n \<longrightarrow> CHR ''='' \<notin> set (n_Name n))"

lemma cachedPlan_refl [simp]: "cachedPlan lc p p"
  by (simp add: cachedPlan_def)

lemma cachedPlan_node:
  assumes "cachedPlan lc p q" "plainNames p" "GetNode p i = Some n"
  shows "\<exists>m. GetNode q i = Some m \<and> n_Status m = n_Status n \<and> n_Step m = n_Step n
    \<and> ShouldContinue lc m = (fst (ShouldContinue lc n), snd (ShouldContinue lc m))
    \<and> (snd (ShouldContinue lc m) = snd (ShouldContinue lc n))"
  using assms ShouldContinue_again[of n lc] unfolding cachedPlan_def plainNames_def
  by (metis ShouldContinue_frame(1,3) option.simps(9) prod.collapse)

lemma cachedPlan_status:
  assumes "cachedPlan lc p q" "plainNames p"
  shows "statusOf q i = statusOf p i"
  using assms(1)[unfolded cachedPlan_def, THEN conjunct2, rule_format, of i]
  by (auto simp: statusOf_def split: option.split)

lemma cachedPlan_upd:
  assumes "cachedPlan lc p q" "plainNames p" "GetNode p i = Some n"
  shows "cachedPlan lc p (updNode i (\<lambda>_. snd (ShouldContinue lc n)) q)"
  using assms cachedPlan_node[OF assms] by (auto simp: cachedPlan_def updNode_get)

text \<open>Whether node \<open>i\<close>, if it has failed, lets its dependents continue.\<close>

definition continues :: "logReader \<Rightarrow> Plan \<Rightarrow> nat \<Rightarrow> bool" where
  "continues lc p i = (case GetNode p i of None \<Rightarrow> False | Some n \<Rightarrow> fst (ShouldContinue lc n))"

definition marksSuccess :: "Plan \<Rightarrow> nat \<Rightarrow> bool" where
  "marksSuccess p i = (case GetNode p i of None \<Rightarrow> False | Some n \<Rightarrow> co_MarkSuccess (st_ContinueOn (n_Step n)))"

lemma allContinue_spec:
  assumes "cachedPlan lc p q" "plainNames p"
  shows "cachedPlan lc p (snd (allContinue lc is q))
    \<and> (fst (allContinue lc is q) \<longleftrightarrow> (\<forall>i\<in>set is. statusOf p i = NodeFailed \<longrightarrow> continues lc p i))"
  using assms(1)
proof (induction "is" arbitrary: q)
  case (Cons i "is")
  note st = cachedPlan_status[OF Cons.prems assms(2), of i]
  show ?case
  proof (cases "statusOf p i = NodeFailed")
    case True
    then obtain n where n: "GetNode p i = Some n" by (auto simp: statusOf_def split: option.splits)
    from cachedPlan_node[OF Cons.prems assms(2) n] obtain m where m: "GetNode q i = Some m"
      "ShouldContinue lc m = (fst (ShouldContinue lc n), snd (ShouldContinue lc n))" by auto
    obtain c n1 where sc: "ShouldContinue lc n = (c, n1)" by (cases "ShouldContinue lc n")
    note up = cachedPlan_upd[OF Cons.prems assms(2) n, unfolded sc snd_conv]
    show ?thesis using Cons.IH[OF up] up True st m n by (simp add: continues_def sc Let_def)
  next
    case False
    then show ?thesis using Cons.IH[OF Cons.prems] st by simp
  qed
qed simp

lemma countPartial_spec:
  assumes "cachedPlan lc p q" "plainNames p"
  shows "(fst (countPartial lc is hs hf q) \<longleftrightarrow>
      hs \<or> (\<exists>i\<in>set is. statusOf p i \<in> {NodeSucceeded, NodePartiallySucceeded}))
    \<and> (fst (snd (countPartial lc is hs hf q)) \<longleftrightarrow>
      hf \<or> (\<exists>i\<in>set is. statusOf p i = NodePartiallySucceeded
              \<or> statusOf p i = NodeFailed \<and> continues lc p i \<and> \<not> marksSuccess p i))"
  using assms(1)
proof (induction "is" arbitrary: q hs hf)
  case (Cons i "is")
  note st = cachedPlan_status[OF Cons.prems assms(2), of i]
  show ?case
  proof (cases "statusOf p i = NodeFailed")
    case True
    then obtain n where n: "GetNode p i = Some n" by (auto simp: statusOf_def split: option.splits)
    from cachedPlan_node[OF Cons.prems assms(2) n] obtain m where m: "GetNode q i = Some m"
      "ShouldContinue lc m = (fst (ShouldContinue lc n), snd (ShouldContinue lc n))" by auto
    have again: "ShouldContinue lc (snd (ShouldContinue lc n)) = ShouldContinue lc n"
      using assms(2) n ShouldContinue_again by (auto simp: plainNames_def)
    have ms: "ShouldMarkSuccess lc (snd (ShouldContinue lc n)) =
        (fst (ShouldContinue lc n) \<and> co_MarkSuccess (st_ContinueOn (n_Step n)), snd (ShouldContinue lc n))"
      using fst_ShouldMarkSuccess[of lc "snd (ShouldContinue lc n)"]
        snd_ShouldMarkSuccess[of lc "snd (ShouldContinue lc n)"] again by (simp add: prod_eq_iff)
    obtain c n1 where sc: "ShouldContinue lc n = (c, n1)" by (cases "ShouldContinue lc n")
    show ?thesis
      using Cons.IH[OF cachedPlan_upd[OF Cons.prems assms(2) n, unfolded sc snd_conv]] True st m n ms
      by (cases c) (auto simp: continues_def marksSuccess_def sc)
  next
    case False
    then show ?thesis
      using Cons.IH[OF Cons.prems] st by (cases "statusOf p i") auto
  qed
qed simp


definition partialPlan :: Plan where
  "partialPlan = (case NewPlanFromNodes 1 5
      [NewNode (zeroStep\<lparr>st_Name := ''a'', st_ContinueOn := zeroContinueOn\<lparr>co_Failure := True\<rparr>\<rparr>)
         (zeroNodeState\<lparr>ns_Status := NodeFailed\<rparr>),
       NewNode (zeroStep\<lparr>st_Name := ''b''\<rparr>) (zeroNodeState\<lparr>ns_Status := NodeSucceeded\<rparr>)] of
     (Inr p, _) \<Rightarrow> p | _ \<Rightarrow> emptyPlan 5)"


section \<open>Handlers\<close>

lemma runHandlers_error: "l \<noteq> None \<Longrightarrow> snd (runHandlers cfg h ts hs l) \<noteq> None"
  by (induction ts arbitrary: hs l) (auto split: option.split prod.split)

lemma runHandlers_other: "t \<notin> set ts \<Longrightarrow> fst (runHandlers cfg h ts hs l) t = hs t"
  by (induction ts arbitrary: hs l) (auto split: option.split prod.split)

lemma runHandlers_append:
  "runHandlers cfg h (ts @ us) hs l = (case runHandlers cfg h ts hs l of (hs', l') \<Rightarrow> runHandlers cfg h us hs' l')"
  by (induction ts arbitrary: hs l) (auto split: option.split prod.split)

lemma finalHandlers_exit:
  "s \<notin> {Waiting, Queued} \<Longrightarrow> \<exists>ts. finalHandlers s = ts @ [HandlerOnExit] \<and> HandlerOnExit \<notin> set ts"
  by (cases s) (auto simp: finalHandlers_def)


definition handlerIn :: "ExecOutcome \<Rightarrow> HandlerIn" where
  "handlerIn o' = \<lparr>hi_prepare = \<lparr>pio_mkdirErr = None, pio_logFile = ''log'', pio_merged = False, pio_setupErr = None,
       pio_outputsErr = None, pio_now = 1\<rparr>, hi_preErr = None, hi_outcome = o', hi_closeErr = None, hi_now = 9\<rparr>"


end
