(* ===== verification/Queue_Name.thy ===== *)
theory Queue_Name
  imports Prelude "HOL-Library.List_Lexorder" "HOL-Library.Char_ord" "HOL-Library.Monad_Syntax"
begin

text \<open>
  The names of queue item files (\<open>internal/persis/filequeue/queuefile.go\<close>).  A name holds the
  priority, the UTC time of queueing with nanoseconds, and the dag-run ID; its byte-wise order is the
  order of queueing.  A UTC time is given by its calendar fields, compared from the
  year down, which is the order of the instants.
\<close>

section \<open>Times\<close>

record UTC =
  u_year :: nat
  u_month :: nat
  u_day :: nat
  u_hour :: nat
  u_min :: nat
  u_sec :: nat
  u_nano :: nat

definition timeFields :: "UTC \<Rightarrow> nat list" where
  "timeFields t = [u_year t, u_month t, u_day t, u_hour t, u_min t, u_sec t, u_nano t]"

definition Before :: "UTC \<Rightarrow> UTC \<Rightarrow> bool" where
  "Before t u \<longleftrightarrow> timeFields t < timeFields u"

definition isLeap :: "nat \<Rightarrow> bool" where
  "isLeap y \<longleftrightarrow> y mod 4 = 0 \<and> (y mod 100 \<noteq> 0 \<or> y mod 400 = 0)"

definition daysIn :: "nat \<Rightarrow> nat \<Rightarrow> nat" where
  "daysIn m y = (if m = 2 then (if isLeap y then 29 else 28) else if m \<in> {4, 6, 9, 11} then 30 else 31)"

definition validDateTime :: "UTC \<Rightarrow> bool" where
  "validDateTime t \<longleftrightarrow> u_year t \<le> 9999 \<and> 1 \<le> u_month t \<and> u_month t \<le> 12 \<and> 1 \<le> u_day t
     \<and> u_day t \<le> daysIn (u_month t) (u_year t) \<and> u_hour t < 24 \<and> u_min t < 60 \<and> u_sec t < 60"

definition validUTC :: "UTC \<Rightarrow> bool" where
  "validUTC t \<longleftrightarrow> validDateTime t \<and> u_nano t < 10 ^ 9"

section \<open>Fixed-width decimals\<close>

fun padNat :: "nat \<Rightarrow> nat \<Rightarrow> string" where
  "padNat 0 n = []"
| "padNat (Suc w) n = padNat w (n div 10) @ [char_of (48 + n mod 10)]"

lemma length_padNat [simp]: "length (padNat w n) = w"
  by (induction w arbitrary: n) auto

lemma padNat_digits: "list_all isDigit (padNat w n)"
  by (induction w arbitrary: n) (use digit_ok in auto)

lemma digitsVal_padNat: "n < 10 ^ w \<Longrightarrow> digitsVal (padNat w n) = n"
proof (induction w arbitrary: n)
  case (Suc w)
  then have "digitsVal (padNat w (n div 10)) = n div 10" by (simp add: less_mult_imp_div_less mult.commute)
  then show ?case using digit_ok[of "n mod 10"] by (simp add: digitsVal_def)
qed (simp add: digitsVal_def)

lemma list_less_append:
  fixes a b :: "'a :: linorder list"
  assumes "length a = length a'"
  shows "a @ b < a' @ b' \<longleftrightarrow> a < a' \<or> a = a' \<and> b < b'"
  using assms by (induction a a' rule: list_induct2) auto

lemma padNat_inj: "m < 10 ^ w \<Longrightarrow> n < 10 ^ w \<Longrightarrow> padNat w m = padNat w n \<longleftrightarrow> m = n"
  using digitsVal_padNat by metis

lemma digit_less:
  assumes "a < 10" "b < 10"
  shows "char_of (48 + a :: nat) < (char_of (48 + b :: nat) :: char) \<longleftrightarrow> a < b"
  unfolding less_char_def of_char_digit[OF assms(1)] of_char_digit[OF assms(2)] by simp

lemma div_mod_less:
  fixes m n :: nat
  shows "m < n \<longleftrightarrow> m div 10 < n div 10 \<or> m div 10 = n div 10 \<and> m mod 10 < n mod 10"
proof -
  have "m = 10 * (m div 10) + m mod 10" "n = 10 * (n div 10) + n mod 10" "m mod 10 < 10" "n mod 10 < 10"
    by simp_all
  then show ?thesis by linarith
qed

lemma padNat_less:
  "m < 10 ^ w \<Longrightarrow> n < 10 ^ w \<Longrightarrow> padNat w m < padNat w n \<longleftrightarrow> m < n"
proof (induction w arbitrary: m n)
  case (Suc w)
  have d: "m div 10 < 10 ^ w" "n div 10 < 10 ^ w"
    using Suc.prems by (simp_all add: less_mult_imp_div_less mult.commute)
  have "padNat (Suc w) m < padNat (Suc w) n \<longleftrightarrow> padNat w (m div 10) < padNat w (n div 10)
      \<or> padNat w (m div 10) = padNat w (n div 10) \<and> char_of (48 + m mod 10) < (char_of (48 + n mod 10) :: char)"
    unfolding padNat.simps by (subst list_less_append) simp_all
  also have "\<dots> \<longleftrightarrow> m div 10 < n div 10 \<or> m div 10 = n div 10 \<and> m mod 10 < n mod 10"
    using Suc.IH[OF d] padNat_inj[OF d] digit_less[of "m mod 10" "n mod 10"] by simp
  finally show ?case using div_mod_less by blast
qed simp

section \<open>File names\<close>

datatype QueuePriority = QueuePriorityHigh | QueuePriorityLow

definition priorityPrefix :: "QueuePriority \<Rightarrow> string" where
  "priorityPrefix p = (case p of QueuePriorityHigh \<Rightarrow> ''high_'' | QueuePriorityLow \<Rightarrow> ''low_'')"

definition formatDate :: "UTC \<Rightarrow> string" where
  "formatDate t = padNat 4 (u_year t) @ padNat 2 (u_month t) @ padNat 2 (u_day t)"

definition formatClock :: "UTC \<Rightarrow> string" where
  "formatClock t = padNat 2 (u_hour t) @ padNat 2 (u_min t) @ padNat 2 (u_sec t)"

definition queueFileName :: "string \<Rightarrow> string \<Rightarrow> UTC \<Rightarrow> string" where
  "queueFileName pre dagRunID t = ''item_'' @ pre @ formatDate t @ ''_'' @ formatClock t @ ''_''
     @ padNat 9 (u_nano t) @ ''Z_'' @ dagRunID @ ''.json''"

text \<open>The regular expression of a queue file, applied from left to right.\<close>

definition stripPrefix :: "string \<Rightarrow> string \<Rightarrow> string option" where
  "stripPrefix p s = (if hasPrefix p s then Some (drop (length p) s) else None)"

definition stripSuffix :: "string \<Rightarrow> string \<Rightarrow> string option" where
  "stripSuffix q s = (if drop (length s - length q) s = q then Some (take (length s - length q) s) else None)"

definition takeDigits :: "nat \<Rightarrow> string \<Rightarrow> (string \<times> string) option" where
  "takeDigits n s = (if length (take n s) = n \<and> list_all isDigit (take n s) then Some (take n s, drop n s) else None)"

definition matchName :: "string \<Rightarrow> string \<Rightarrow> (string \<times> string \<times> string \<times> string) option" where
  "matchName pre s = do {
     r1 \<leftarrow> stripPrefix (''item_'' @ pre) s;
     (d, r2) \<leftarrow> takeDigits 8 r1;
     r3 \<leftarrow> stripPrefix ''_'' r2;
     (c, r4) \<leftarrow> takeDigits 6 r3;
     r5 \<leftarrow> stripPrefix ''_'' r4;
     (n, r6) \<leftarrow> takeDigits 9 r5;
     r7 \<leftarrow> stripPrefix ''Z_'' r6;
     i \<leftarrow> stripSuffix ''.json'' r7;
     if CHR 0x0A \<in> set i then None else Some (d, c, n, i)
   }"

record DAGRunRef =
  dr_Name :: string
  dr_ID :: string

record ItemData =
  id_FileName :: string
  id_DAGRun :: DAGRunRef
  id_QueuedAt :: UTC

definition parseDateTime :: "string \<Rightarrow> string \<Rightarrow> UTC option" where
  "parseDateTime d c =
     (let t = \<lparr>u_year = digitsVal (take 4 d), u_month = digitsVal (take 2 (drop 4 d)), u_day = digitsVal (drop 6 d),
               u_hour = digitsVal (take 2 c), u_min = digitsVal (take 2 (drop 2 c)), u_sec = digitsVal (drop 4 c),
               u_nano = 0\<rparr>
      in if validDateTime t then Some t else None)"

definition parseQueueFileName :: "string \<Rightarrow> string \<Rightarrow> ItemData option" where
  "parseQueueFileName dir fileName = do {
     (d, c, n, i) \<leftarrow> (case matchName ''high_'' fileName of Some m \<Rightarrow> Some m | None \<Rightarrow> matchName ''low_'' fileName);
     t \<leftarrow> parseDateTime d c;
     Some \<lparr>id_FileName = fileName, id_DAGRun = \<lparr>dr_Name = dir, dr_ID = i\<rparr>,
            id_QueuedAt = t\<lparr>u_nano := digitsVal n\<rparr>\<rparr>
   }"

section \<open>Round trip and order\<close>

lemma stripPrefix_append [simp]: "stripPrefix p (p @ s) = Some s"
  by (simp add: stripPrefix_def hasPrefix_def)

lemma stripSuffix_append [simp]: "stripSuffix q (s @ q) = Some s"
  by (simp add: stripSuffix_def)

lemma takeDigits_append: "list_all isDigit d \<Longrightarrow> length d = n \<Longrightarrow> takeDigits n (d @ s) = Some (d, s)"
  by (simp add: takeDigits_def)

lemma format_digits [simp]:
  "list_all isDigit (formatDate t)" "list_all isDigit (formatClock t)"
  "length (formatDate t) = 8" "length (formatClock t) = 6"
  by (simp_all add: formatDate_def formatClock_def padNat_digits)

lemma matchName_queueFileName:
  assumes "CHR 0x0A \<notin> set i"
  shows "matchName pre (queueFileName pre i t) = Some (formatDate t, formatClock t, padNat 9 (u_nano t), i)"
proof -
  have 1: "stripPrefix (''item_'' @ pre) (queueFileName pre i t)
      = Some (formatDate t @ ''_'' @ formatClock t @ ''_'' @ padNat 9 (u_nano t) @ ''Z_'' @ i @ ''.json'')"
    using stripPrefix_append[of "''item_'' @ pre"] by (simp add: queueFileName_def)
  show ?thesis
    unfolding matchName_def 1
    by (simp only: Option.bind.simps(2) stripPrefix_append takeDigits_append format_digits padNat_digits
        length_padNat prod.case stripSuffix_append assms if_False)
qed

lemma matchName_other: "matchName ''high_'' (queueFileName ''low_'' i t) = None"
  by (simp add: matchName_def stripPrefix_def hasPrefix_def queueFileName_def)

lemma daysIn_le: "daysIn m y \<le> 31"
  by (simp add: daysIn_def)

lemma timeRecord:
  "\<lparr>u_year = u_year t, u_month = u_month t, u_day = u_day t, u_hour = u_hour t, u_min = u_min t,
    u_sec = u_sec t, u_nano = n\<rparr> = (t :: UTC)\<lparr>u_nano := n\<rparr>"
  by (cases t) simp

lemma parseDateTime_format:
  assumes "validDateTime t"
  shows "parseDateTime (formatDate t) (formatClock t) = Some (t\<lparr>u_nano := 0\<rparr>)"
proof -
  have "u_year t < 10 ^ 4" "u_month t < 10 ^ 2" "u_day t < 10 ^ 2" "u_hour t < 10 ^ 2" "u_min t < 10 ^ 2" "u_sec t < 10 ^ 2"
    using assms daysIn_le[of "u_month t" "u_year t"] by (auto simp: validDateTime_def)
  then have "parseDateTime (formatDate t) (formatClock t) = (if validDateTime (t\<lparr>u_nano := 0\<rparr>) then Some (t\<lparr>u_nano := 0\<rparr>) else None)"
    by (simp add: parseDateTime_def formatDate_def formatClock_def digitsVal_padNat Let_def timeRecord)
  moreover have "validDateTime (t\<lparr>u_nano := 0\<rparr>)" using assms by (simp add: validDateTime_def)
  ultimately show ?thesis by simp
qed

lemma parse_queueFileName_aux:
  assumes "validUTC t" "CHR 0x0A \<notin> set i"
  shows "parseQueueFileName dir (queueFileName (priorityPrefix p) i t) =
    Some \<lparr>id_FileName = queueFileName (priorityPrefix p) i t, id_DAGRun = \<lparr>dr_Name = dir, dr_ID = i\<rparr>,
          id_QueuedAt = t\<rparr>"
proof -
  have "(case matchName ''high_'' (queueFileName (priorityPrefix p) i t) of Some m \<Rightarrow> Some m
      | None \<Rightarrow> matchName ''low_'' (queueFileName (priorityPrefix p) i t))
      = Some (formatDate t, formatClock t, padNat 9 (u_nano t), i)"
    by (cases p) (simp_all add: priorityPrefix_def matchName_queueFileName[OF assms(2)] matchName_other)
  moreover have "u_nano t < 10 ^ 9" "validDateTime t" using assms(1) by (simp_all add: validUTC_def)
  ultimately show ?thesis
    by (simp add: parseQueueFileName_def parseDateTime_format digitsVal_padNat)
qed

text \<open>C14: the name of a queue file determines what was queued: parsing the name \<open>Push\<close> wrote gives back the
  dag-run ID and the time with nanoseconds, for every ID without a line break.\<close>

theorem parse_queueFileName:
  assumes "validUTC t" "CHR 0x0A \<notin> set i"
  shows "parseQueueFileName dir (queueFileName (priorityPrefix p) i t) =
    Some \<lparr>id_FileName = queueFileName (priorityPrefix p) i t, id_DAGRun = \<lparr>dr_Name = dir, dr_ID = i\<rparr>,
          id_QueuedAt = t\<rparr>"
  by (rule parse_queueFileName_aux[OF assms])

theorem parse_queueFileName_witness:
  "let t = \<lparr>u_year = 2024, u_month = 2, u_day = 29, u_hour = 23, u_min = 59, u_sec = 59, u_nano = 7\<rparr>;
       f = queueFileName (priorityPrefix QueuePriorityLow) ''run.json'' t
   in f = ''item_low_20240229_235959_000000007Z_run.json.json''
      \<and> map_option (dr_ID \<circ> id_DAGRun) (parseQueueFileName ''etl'' f) = Some ''run.json''"
proof -
  let ?t = "\<lparr>u_year = 2024, u_month = 2, u_day = 29, u_hour = 23, u_min = 59, u_sec = 59, u_nano = 7\<rparr>"
  have v: "validUTC ?t" by (simp add: validUTC_def validDateTime_def daysIn_def isLeap_def)
  have "queueFileName (priorityPrefix QueuePriorityLow) ''run.json'' ?t
      = ''item_low_20240229_235959_000000007Z_run.json.json''" by code_simp
  moreover have "map_option (dr_ID \<circ> id_DAGRun) (parseQueueFileName ''etl''
      (queueFileName (priorityPrefix QueuePriorityLow) ''run.json'' ?t)) = Some ''run.json''"
    using parse_queueFileName[OF v, of "''run.json''" "''etl''" QueuePriorityLow] by simp
  ultimately show ?thesis by (simp only: Let_def)
qed

text \<open>A later time gives a greater name, whatever the IDs.\<close>

lemma queueFileName_less:
  assumes "validUTC t" "validUTC u" "Before t u"
  shows "queueFileName pre i t < queueFileName pre j u"
proof -
  have t: "u_year t < 10 ^ 4" "u_month t < 10 ^ 2" "u_day t < 10 ^ 2" "u_hour t < 10 ^ 2" "u_min t < 10 ^ 2"
    "u_sec t < 10 ^ 2" "u_nano t < 10 ^ 9"
    using assms(1) daysIn_le[of "u_month t" "u_year t"] by (auto simp: validUTC_def validDateTime_def)
  have u: "u_year u < 10 ^ 4" "u_month u < 10 ^ 2" "u_day u < 10 ^ 2" "u_hour u < 10 ^ 2" "u_min u < 10 ^ 2"
    "u_sec u < 10 ^ 2" "u_nano u < 10 ^ 9"
    using assms(2) daysIn_le[of "u_month u" "u_year u"] by (auto simp: validUTC_def validDateTime_def)
  note eq = padNat_inj[OF t(1) u(1)] padNat_inj[OF t(2) u(2)] padNat_inj[OF t(3) u(3)] padNat_inj[OF t(4) u(4)]
    padNat_inj[OF t(5) u(5)] padNat_inj[OF t(6) u(6)] padNat_inj[OF t(7) u(7)]
  note less = padNat_less[OF t(1) u(1)] padNat_less[OF t(2) u(2)] padNat_less[OF t(3) u(3)] padNat_less[OF t(4) u(4)]
    padNat_less[OF t(5) u(5)] padNat_less[OF t(6) u(6)] padNat_less[OF t(7) u(7)]
  have "(u_year t < u_year u \<or> u_year t = u_year u \<and> (u_month t < u_month u \<or> u_month t = u_month u \<and>
    (u_day t < u_day u \<or> u_day t = u_day u \<and> (u_hour t < u_hour u \<or> u_hour t = u_hour u \<and>
    (u_min t < u_min u \<or> u_min t = u_min u \<and> (u_sec t < u_sec u \<or> u_sec t = u_sec u \<and> u_nano t < u_nano u))))))"
    using assms(3) by (simp add: Before_def timeFields_def)
  then show ?thesis
    unfolding queueFileName_def formatDate_def formatClock_def append_assoc
    by (simp only: list_less_append length_padNat eq less simp_thms) blast
qed

end
