(* ===== verification/Queue_Files.thy ===== *)
theory Queue_Files
  imports Queue_Name
begin

text \<open>
  The queue of one name as files in a directory: \<open>QueueFile\<close> (one priority,
  \<open>queuefile.go\<close>), the two-priority \<open>DualQueue\<close> (\<open>queue.go\<close>) and the jobs
  read from the files (\<open>job.go\<close>), all in \<open>internal/persis/filequeue\<close>.  A directory maps the
  names of its item files to their contents, \<open>None\<close> for a file that cannot be read or decoded.
  A directory that does not exist has no files.  Whether a new file can be written (\<open>wr\<close>) and whether the file of
  a name can be removed (\<open>rm\<close>) are inputs.
\<close>

type_synonym QDir = "(string, ItemData option) fmap"

datatype QueueError = ErrQueueFileEmpty | ErrQueueFileItemNotFound | ErrQueueEmpty | ErrQueueItemNotFound
  | ErrUnreadable string | ErrRemove string | ErrWrite | ErrLock | ErrInvalidCursor | ErrIndex

record Job =
  j_id :: string
  j_data :: ItemData

section \<open>Paths\<close>

definition baseName :: "string \<Rightarrow> string" where
  "baseName s = rev (takeWhile (\<lambda>c. c \<noteq> CHR ''/'') (rev s))"

definition fileExt :: "string \<Rightarrow> string" where
  "fileExt s = (let r = takeWhile (\<lambda>c. c \<noteq> CHR ''.'') (rev s)
     in if length r = length s then '''' else CHR ''.'' # rev r)"

definition queueItemIDFromFileName :: "string \<Rightarrow> string" where
  "queueItemIDFromFileName f = (let b = baseName f in take (length b - length (fileExt b)) b)"

section \<open>One priority\<close>

definition fileNames :: "QDir \<Rightarrow> string list" where
  "fileNames d = sorted_list_of_set (fset (fmdom d))"

text \<open>\<open>listItems\<close>: the files whose names match, sorted by the time in the name (names in order on a tie).\<close>

definition listItems :: "string \<Rightarrow> string \<Rightarrow> QDir \<Rightarrow> ItemData list" where
  "listItems dir pre d = sort_key (timeFields \<circ> id_QueuedAt)
     (List.map_filter (\<lambda>f. if matchName pre f = None then None else parseQueueFileName dir f) (fileNames d))"

definition QF_Push :: "bool \<Rightarrow> string \<Rightarrow> DAGRunRef \<Rightarrow> UTC \<Rightarrow> QDir \<Rightarrow> (QueueError, string \<times> QDir) result" where
  "QF_Push wr pre run t d =
     (let f = queueFileName pre (dr_ID run) t
      in if \<not> wr then Err ErrWrite
         else Ok (f, fmupd f (Some \<lparr>id_FileName = f, id_DAGRun = run, id_QueuedAt = t\<rparr>) d))"

definition ExtractJob :: "string \<Rightarrow> QDir \<Rightarrow> Job option" where
  "ExtractJob f d = (case fmlookup d f of
     Some (Some data) \<Rightarrow> Some \<lparr>j_id = queueItemIDFromFileName f, j_data = data\<rparr> | _ \<Rightarrow> None)"

definition QF_Pop :: "(string \<Rightarrow> bool) \<Rightarrow> string \<Rightarrow> string \<Rightarrow> QDir \<Rightarrow> (QueueError, Job \<times> QDir) result" where
  "QF_Pop rm dir pre d = (case listItems dir pre d of
       [] \<Rightarrow> Err ErrQueueFileEmpty
     | it # _ \<Rightarrow> (case ExtractJob (id_FileName it) d of
          None \<Rightarrow> Err (ErrUnreadable (id_FileName it))
        | Some job \<Rightarrow> if \<not> rm (id_FileName it) then Err (ErrRemove (id_FileName it))
                      else Ok (job, fmdrop (id_FileName it) d)))"

fun popMatching :: "(string \<Rightarrow> bool) \<Rightarrow> DAGRunRef \<Rightarrow> ItemData list \<Rightarrow> QDir \<Rightarrow> Job list \<times> QDir" where
  "popMatching rm run [] d = ([], d)"
| "popMatching rm run (it # its) d = (case ExtractJob (id_FileName it) d of
      None \<Rightarrow> popMatching rm run its d
    | Some job \<Rightarrow>
        if id_DAGRun (j_data job) = run \<and> rm (id_FileName it)
        then (let (js, d') = popMatching rm run its (fmdrop (id_FileName it) d) in (job # js, d'))
        else popMatching rm run its d)"

definition QF_PopByDAGRunID :: "(string \<Rightarrow> bool) \<Rightarrow> string \<Rightarrow> string \<Rightarrow> DAGRunRef \<Rightarrow> QDir \<Rightarrow> Job list \<times> QDir" where
  "QF_PopByDAGRunID rm dir pre run d = popMatching rm run (listItems dir pre d) d"

definition QF_FindByDAGRunID :: "string \<Rightarrow> string \<Rightarrow> string \<Rightarrow> QDir \<Rightarrow> (QueueError, string) result" where
  "QF_FindByDAGRunID dir pre i d = (case filter (\<lambda>it. dr_ID (id_DAGRun it) = i) (listItems dir pre d) of
       [] \<Rightarrow> Err ErrQueueFileItemNotFound | it # _ \<Rightarrow> Ok (id_FileName it))"

section \<open>Both priorities\<close>

definition DQ_Enqueue :: "bool \<Rightarrow> QueuePriority \<Rightarrow> DAGRunRef \<Rightarrow> UTC \<Rightarrow> QDir \<Rightarrow> (QueueError, string \<times> QDir) result" where
  "DQ_Enqueue wr p run t d = QF_Push wr (priorityPrefix p) run t d"

definition DQ_Dequeue :: "(string \<Rightarrow> bool) \<Rightarrow> string \<Rightarrow> QDir \<Rightarrow> (QueueError, Job \<times> QDir) result" where
  "DQ_Dequeue rm dir d = (case QF_Pop rm dir ''high_'' d of
       Inr r \<Rightarrow> Ok r
     | Inl e \<Rightarrow> if e \<noteq> ErrQueueFileEmpty then Err e
        else (case QF_Pop rm dir ''low_'' d of
                Inr r \<Rightarrow> Ok r
              | Inl e' \<Rightarrow> if e' \<noteq> ErrQueueFileEmpty then Err e' else Err ErrQueueEmpty))"

definition DQ_DequeueByDAGRunID :: "(string \<Rightarrow> bool) \<Rightarrow> string \<Rightarrow> DAGRunRef \<Rightarrow> QDir \<Rightarrow> Job list \<times> QDir" where
  "DQ_DequeueByDAGRunID rm dir run d =
     (let (hs, d1) = QF_PopByDAGRunID rm dir ''high_'' run d; (ls, d2) = QF_PopByDAGRunID rm dir ''low_'' run d1
      in (hs @ ls, d2))"

text \<open>The number of removed files, the error that ended the loop early, and the directory.\<close>

fun DQ_DeleteByItemIDs :: "(string \<Rightarrow> bool) \<Rightarrow> string list \<Rightarrow> QDir \<Rightarrow> nat \<times> QueueError option \<times> QDir" where
  "DQ_DeleteByItemIDs rm [] d = (0, None, d)"
| "DQ_DeleteByItemIDs rm (i # is) d =
     (let f = baseName (i @ ''.json'')
      in if i = '''' \<or> f = ''.json'' \<or> f |\<notin>| fmdom d then DQ_DeleteByItemIDs rm is d
         else if \<not> rm f then (0, Some (ErrRemove f), d)
         else (let (n, e, d') = DQ_DeleteByItemIDs rm is (fmdrop f d) in (n + 1, e, d')))"

definition DQ_List :: "string \<Rightarrow> QDir \<Rightarrow> string list" where
  "DQ_List dir d = map id_FileName (listItems dir ''high_'' d) @ map id_FileName (listItems dir ''low_'' d)"

definition DQ_Len :: "string \<Rightarrow> QDir \<Rightarrow> nat" where
  "DQ_Len dir d = length (listItems dir ''high_'' d) + length (listItems dir ''low_'' d)"

definition DQ_FindByDAGRunID :: "string \<Rightarrow> string \<Rightarrow> QDir \<Rightarrow> (QueueError, string) result" where
  "DQ_FindByDAGRunID dir i d = (case QF_FindByDAGRunID dir ''high_'' i d of
       Inr f \<Rightarrow> Ok f
     | Inl _ \<Rightarrow> (case QF_FindByDAGRunID dir ''low_'' i d of Inr f \<Rightarrow> Ok f | Inl _ \<Rightarrow> Err ErrQueueItemNotFound))"

section \<open>Well-formed directories\<close>

text \<open>
  What \<open>Push\<close> leaves behind: every file has the name that belongs to its contents, and no two
  files of one priority have the same time.
\<close>

definition itemOf :: "QueuePriority \<Rightarrow> ItemData \<Rightarrow> bool" where
  "itemOf p it \<longleftrightarrow> validUTC (id_QueuedAt it) \<and> CHR 0x0A \<notin> set (dr_ID (id_DAGRun it))
     \<and> CHR ''/'' \<notin> set (dr_ID (id_DAGRun it))
     \<and> id_FileName it = queueFileName (priorityPrefix p) (dr_ID (id_DAGRun it)) (id_QueuedAt it)"

definition wfDir :: "QDir \<Rightarrow> bool" where
  "wfDir d \<longleftrightarrow> (\<forall>f c. fmlookup d f = Some c \<longrightarrow> (\<exists>it p. c = Some it \<and> id_FileName it = f \<and> itemOf p it))
     \<and> (\<forall>f g a b p. fmlookup d f = Some (Some a) \<longrightarrow> fmlookup d g = Some (Some b) \<longrightarrow> itemOf p a \<longrightarrow> itemOf p b
          \<longrightarrow> id_QueuedAt a = id_QueuedAt b \<longrightarrow> f = g)"

text \<open>The items of one priority in the order of their names.\<close>

definition itemPrefix :: "QueuePriority \<Rightarrow> string" where
  "itemPrefix p = ''item_'' @ priorityPrefix p"

definition namesOf :: "QueuePriority \<Rightarrow> QDir \<Rightarrow> string list" where
  "namesOf p d = filter (hasPrefix (itemPrefix p)) (fileNames d)"

definition contentOf :: "QDir \<Rightarrow> string \<Rightarrow> ItemData" where
  "contentOf d f = (case fmlookup d f of Some (Some it) \<Rightarrow> it
     | _ \<Rightarrow> \<lparr>id_FileName = f, id_DAGRun = \<lparr>dr_Name = [], dr_ID = []\<rparr>,
            id_QueuedAt = \<lparr>u_year = 0, u_month = 0, u_day = 0, u_hour = 0, u_min = 0, u_sec = 0, u_nano = 0\<rparr>\<rparr>)"

definition itemsOf :: "QueuePriority \<Rightarrow> QDir \<Rightarrow> ItemData list" where
  "itemsOf p d = map (contentOf d) (namesOf p d)"

lemma set_fileNames [simp]: "set (fileNames d) = fset (fmdom d)"
  by (simp add: fileNames_def)

lemma fileNames_sorted [simp]: "sorted (fileNames d)" "distinct (fileNames d)"
  by (simp_all add: fileNames_def)

lemma fileNames_upd: "f |\<notin>| fmdom d \<Longrightarrow> fileNames (fmupd f c d) = insort f (fileNames d)"
  by (simp add: fileNames_def)

lemma fileNames_drop: "fileNames (fmdrop f d) = remove1 f (fileNames d)"
  by (simp add: fileNames_def sorted_list_of_set_remove)

lemma insort_last:
  fixes x :: "'a :: linorder"
  shows "\<forall>y\<in>set xs. y < x \<Longrightarrow> insort x xs = xs @ [x]"
  by (induction xs) auto

lemma queueFileName_prefix:
  "hasPrefix (itemPrefix p) (queueFileName (priorityPrefix q) i t) \<longleftrightarrow> p = q"
  by (cases p; cases q) (simp_all add: hasPrefix_def queueFileName_def priorityPrefix_def itemPrefix_def)

lemma itemOf_prefix: "itemOf q it \<Longrightarrow> hasPrefix (itemPrefix p) (id_FileName it) \<longleftrightarrow> p = q"
  by (auto simp: itemOf_def queueFileName_prefix)

lemma wfDir_D:
  assumes "wfDir d" "f |\<in>| fmdom d"
  shows "\<exists>p. fmlookup d f = Some (Some (contentOf d f)) \<and> id_FileName (contentOf d f) = f \<and> itemOf p (contentOf d f)"
proof -
  obtain c where c: "fmlookup d f = Some c" using assms(2) by (meson fmdomE)
  then obtain it p where "c = Some it" "id_FileName it = f" "itemOf p it" using assms(1) unfolding wfDir_def by blast
  then show ?thesis using c by (auto simp: contentOf_def)
qed

lemma namesOf_wf:
  assumes "wfDir d" "f \<in> set (namesOf p d)"
  shows "fmlookup d f = Some (Some (contentOf d f))" "id_FileName (contentOf d f) = f" "itemOf p (contentOf d f)"
proof -
  have f: "f |\<in>| fmdom d" "hasPrefix (itemPrefix p) f" using assms(2) by (auto simp: namesOf_def)
  from wfDir_D[OF assms(1) f(1)] obtain q where q: "fmlookup d f = Some (Some (contentOf d f))"
    "id_FileName (contentOf d f) = f" "itemOf q (contentOf d f)" by blast
  then have "p = q" using itemOf_prefix[OF q(3), of p] f(2) by simp
  with q show "fmlookup d f = Some (Some (contentOf d f))" "id_FileName (contentOf d f) = f" "itemOf p (contentOf d f)"
    by simp_all
qed

lemma namesOf_sorted: "sorted (namesOf p d)" "distinct (namesOf p d)"
  by (simp_all add: namesOf_def sorted_filter[where f="\<lambda>x. x", simplified])

lemma timeFields_inj: "timeFields t = timeFields u \<Longrightarrow> t = u" for t u :: UTC
  by (cases t; cases u) (simp add: timeFields_def)

text \<open>The order of the names is the order of the times.\<close>

lemma itemsOf_times:
  assumes "wfDir d"
  shows "sorted_wrt (\<lambda>a b. Before (id_QueuedAt a) (id_QueuedAt b)) (itemsOf p d)"
proof -
  have before: "Before (id_QueuedAt (contentOf d f)) (id_QueuedAt (contentOf d g))"
    if fg: "f \<in> set (namesOf p d)" "g \<in> set (namesOf p d)" "f < g" for f g
  proof -
    note f = namesOf_wf[OF assms fg(1)] and g = namesOf_wf[OF assms fg(2)]
    let ?tf = "id_QueuedAt (contentOf d f)" and ?tg = "id_QueuedAt (contentOf d g)"
    have "f = g" if "?tf = ?tg" using assms that f(1,3) g(1,3) unfolding wfDir_def by blast
    then have ne: "timeFields ?tf \<noteq> timeFields ?tg" using timeFields_inj fg(3) by auto
    have "\<not> Before ?tg ?tf"
    proof
      assume "Before ?tg ?tf"
      then have "id_FileName (contentOf d g) < id_FileName (contentOf d f)"
        using f(3) g(3) queueFileName_less unfolding itemOf_def by auto
      then show False using f(2) g(2) fg(3) by simp
    qed
    then show ?thesis using ne unfolding Before_def by simp
  qed
  have "sorted_wrt (<) (namesOf p d)" using namesOf_sorted[of p d] by (simp add: strict_sorted_iff)
  then show ?thesis
    unfolding itemsOf_def sorted_wrt_map by (rule sorted_wrt_mono_rel[rotated]) (rule before)
qed

lemma matchName_None:
  assumes "\<not> hasPrefix (''item_'' @ pre) s"
  shows "matchName pre s = None"
  using assms by (simp add: matchName_def stripPrefix_def)

lemma parse_item:
  assumes "itemOf p it"
  shows "matchName (priorityPrefix p) (id_FileName it) \<noteq> None"
    "parseQueueFileName dir (id_FileName it) = Some (it\<lparr>id_DAGRun := \<lparr>dr_Name = dir, dr_ID = dr_ID (id_DAGRun it)\<rparr>\<rparr>)"
  using assms matchName_queueFileName[of "dr_ID (id_DAGRun it)" "priorityPrefix p" "id_QueuedAt it"]
    parse_queueFileName_aux[of "id_QueuedAt it" "dr_ID (id_DAGRun it)" dir p]
  by (cases it; auto simp: itemOf_def)+

lemma listItems_eq:
  assumes "wfDir d"
  shows "listItems dir (priorityPrefix p) d =
    map (\<lambda>it. it\<lparr>id_DAGRun := \<lparr>dr_Name = dir, dr_ID = dr_ID (id_DAGRun it)\<rparr>\<rparr>) (itemsOf p d)"
proof -
  let ?h = "\<lambda>it. it\<lparr>id_DAGRun := \<lparr>dr_Name = dir, dr_ID = dr_ID (id_DAGRun it)\<rparr>\<rparr>"
  let ?g = "\<lambda>f. if matchName (priorityPrefix p) f = None then None else parseQueueFileName dir f"
  have g: "?g f = (if hasPrefix (itemPrefix p) f then Some (?h (contentOf d f)) else None)" if "f |\<in>| fmdom d" for f
  proof (cases "hasPrefix (itemPrefix p) f")
    case True
    then have "f \<in> set (namesOf p d)" using that by (simp add: namesOf_def)
    then show ?thesis using namesOf_wf[OF assms] parse_item[of p "contentOf d f"] True by (metis (no_types, lifting))
  next
    case False
    then show ?thesis using matchName_None[of "priorityPrefix p" f] by (simp add: itemPrefix_def)
  qed
  have "List.map_filter ?g fs = map ?h (map (contentOf d) (filter (hasPrefix (itemPrefix p)) fs))"
    if "set fs \<subseteq> fset (fmdom d)" for fs
    using that
  proof (induction fs)
    case (Cons f fs)
    then show ?case using g[of f] by (auto simp: List.map_filter_simps)
  qed (simp add: List.map_filter_simps)
  from this[of "fileNames d"] have m: "List.map_filter ?g (fileNames d) = map ?h (itemsOf p d)"
    by (simp add: itemsOf_def namesOf_def)
  have "sorted (map (timeFields \<circ> id_QueuedAt) (map ?h (itemsOf p d)))"
    using itemsOf_times[OF assms, of p] unfolding sorted_map
    by (simp add: sorted_wrt_map) (rule sorted_wrt_mono_rel[rotated], assumption, simp add: Before_def)
  then show ?thesis unfolding listItems_def m by (rule sort_key_id_if_sorted)
qed

section \<open>Push and Pop on well-formed directories\<close>

lemma contentOf_other:
  "g \<noteq> f \<Longrightarrow> contentOf (fmupd f c d) g = contentOf d g" "g \<noteq> f \<Longrightarrow> contentOf (fmdrop f d) g = contentOf d g"
  by (simp_all add: contentOf_def)

lemma contentOf_upd [simp]: "contentOf (fmupd f (Some it) d) f = it"
  by (simp add: contentOf_def)

definition pushable :: "DAGRunRef \<Rightarrow> UTC \<Rightarrow> bool" where
  "pushable run t \<longleftrightarrow> validUTC t \<and> CHR 0x0A \<notin> set (dr_ID run) \<and> CHR ''/'' \<notin> set (dr_ID run)"

definition pushedItem :: "QueuePriority \<Rightarrow> DAGRunRef \<Rightarrow> UTC \<Rightarrow> ItemData" where
  "pushedItem p run t = \<lparr>id_FileName = queueFileName (priorityPrefix p) (dr_ID run) t, id_DAGRun = run, id_QueuedAt = t\<rparr>"

definition pushDir :: "QueuePriority \<Rightarrow> DAGRunRef \<Rightarrow> UTC \<Rightarrow> QDir \<Rightarrow> QDir" where
  "pushDir p run t d = fmupd (id_FileName (pushedItem p run t)) (Some (pushedItem p run t)) d"

lemma Push_eq: "DQ_Enqueue wr p run t d =
    (if wr then Ok (id_FileName (pushedItem p run t), pushDir p run t d) else Err ErrWrite)"
  by (simp add: DQ_Enqueue_def QF_Push_def pushedItem_def pushDir_def Let_def)

lemma Push_items:
  assumes wf: "wfDir d" and ok: "pushable run t"
    and later: "\<forall>it\<in>set (itemsOf p d). Before (id_QueuedAt it) t"
  shows "wfDir (pushDir p run t d)
    \<and> itemsOf p (pushDir p run t d) = itemsOf p d @ [pushedItem p run t]
    \<and> (\<forall>q. q \<noteq> p \<longrightarrow> itemsOf q (pushDir p run t d) = itemsOf q d)
    \<and> namesOf p (pushDir p run t d) = namesOf p d @ [id_FileName (pushedItem p run t)]"
proof -
  let ?it = "pushedItem p run t"
  let ?f = "id_FileName ?it"
  let ?d = "fmupd ?f (Some ?it) d"
  have it: "itemOf p ?it" "id_QueuedAt ?it = t" using ok by (auto simp: itemOf_def pushedItem_def pushable_def)
  have pre: "hasPrefix (itemPrefix q) ?f \<longleftrightarrow> q = p" for q using itemOf_prefix[OF it(1)] .
  have noteq: "id_QueuedAt (contentOf d g) \<noteq> t" if "g \<in> set (namesOf p d)" for g
    using later that by (auto simp: itemsOf_def Before_def)
  have f_less: "g < ?f" if "g \<in> set (namesOf p d)" for g
  proof -
    have "Before (id_QueuedAt (contentOf d g)) t" using later that by (auto simp: itemsOf_def)
    then have "queueFileName (priorityPrefix p) (dr_ID (id_DAGRun (contentOf d g))) (id_QueuedAt (contentOf d g)) < ?f"
      unfolding pushedItem_def using namesOf_wf(3)[OF wf that] ok
      by (simp add: queueFileName_less itemOf_def pushable_def)
    then show ?thesis using namesOf_wf(2,3)[OF wf that] by (simp add: itemOf_def)
  qed
  have new: "?f |\<notin>| fmdom d"
  proof
    assume "?f |\<in>| fmdom d"
    then have "?f \<in> set (namesOf p d)" using pre by (simp add: namesOf_def)
    then show False using f_less by blast
  qed
  have names: "namesOf p ?d = namesOf p d @ [?f]"
    using pre f_less insort_last[of "namesOf p d" ?f]
    by (simp add: namesOf_def fileNames_upd[OF new] filter_insort)
  have other: "namesOf q ?d = namesOf q d" if "q \<noteq> p" for q
    using pre that by (simp add: namesOf_def fileNames_upd[OF new] filter_insort_triv)
  have cont: "contentOf ?d g = contentOf d g" if "g |\<in>| fmdom d" for g
    using that new contentOf_other(1) by metis
  have sub: "set (namesOf q d) \<subseteq> fset (fmdom d)" for q by (auto simp: namesOf_def)
  have "itemsOf p ?d = itemsOf p d @ [?it]"
    using cont subsetD[OF sub[of p]] by (simp add: itemsOf_def names)
  moreover have "itemsOf q ?d = itemsOf q d" if "q \<noteq> p" for q
    using cont subsetD[OF sub[of q]] by (simp add: itemsOf_def other[OF that])
  moreover have "wfDir ?d"
  proof -
    have in_names: "g \<in> set (namesOf p d)" if "fmlookup d g = Some (Some b)" "itemOf p b" for g b
    proof -
      have "g |\<in>| fmdom d" using that(1) by (simp add: fmdomI)
      from wfDir_D[OF wf this] that have "b = contentOf d g" "id_FileName b = g" by auto
      then show ?thesis using that itemOf_prefix[OF that(2), of p] \<open>g |\<in>| fmdom d\<close> by (simp add: namesOf_def)
    qed
    have uniq: "f = g" if "fmlookup ?d f = Some (Some a)" "fmlookup ?d g = Some (Some b)" "itemOf q a" "itemOf q b"
      "id_QueuedAt a = id_QueuedAt b" for f g a b q
    proof (cases "f = ?f"; cases "g = ?f")
      assume "f \<noteq> ?f" "g \<noteq> ?f"
      then show ?thesis using that wf unfolding wfDir_def by (metis fmupd_lookup)
    next
      assume a: "f = ?f" "g \<noteq> ?f"
      then have "a = ?it" "fmlookup d g = Some (Some b)" using that by auto
      moreover then have "q = p" using that(3) itemOf_prefix[of q a p] pre by simp
      ultimately show ?thesis using noteq in_names that(4,5) namesOf_wf[OF wf] it(2)
        by (metis option.inject)
    next
      assume a: "f \<noteq> ?f" "g = ?f"
      then have "b = ?it" "fmlookup d f = Some (Some a)" using that by auto
      moreover then have "q = p" using that(4) itemOf_prefix[of q b p] pre by simp
      ultimately show ?thesis using noteq in_names that(3,5) namesOf_wf[OF wf] it(2)
        by (metis option.inject)
    qed simp
    have "\<exists>i q. c = Some i \<and> id_FileName i = f \<and> itemOf q i" if "fmlookup ?d f = Some c" for f c
    proof (cases "f = ?f")
      case True
      then show ?thesis using that it(1) by auto
    next
      case False
      then show ?thesis using that wf unfolding wfDir_def by auto
    qed
    then show ?thesis using uniq unfolding wfDir_def by blast
  qed
  ultimately show ?thesis using names by (simp add: pushDir_def)
qed

lemma namesOf_drop: "namesOf p (fmdrop f d) = remove1 f (namesOf p d)"
  by (simp add: namesOf_def fileNames_drop filter_remove1)

lemma Drop_items:
  assumes wf: "wfDir d"
  shows "wfDir (fmdrop f d)" "itemsOf q (fmdrop f d) = filter (\<lambda>it. id_FileName it \<noteq> f) (itemsOf q d)"
proof -
  show "wfDir (fmdrop f d)"
    using wf unfolding wfDir_def by (simp add: fmlookup_drop)
  have "itemsOf q (fmdrop f d) = map (contentOf (fmdrop f d)) (filter (\<lambda>g. g \<noteq> f) (namesOf q d))"
    by (simp add: itemsOf_def namesOf_drop distinct_remove1_removeAll namesOf_sorted removeAll_filter_not_eq
        eq_commute[of f])
  also have "\<dots> = map (contentOf d) (filter (\<lambda>g. g \<noteq> f) (namesOf q d))"
    by (simp add: contentOf_other)
  also have "\<dots> = filter (\<lambda>it. id_FileName it \<noteq> f) (map (contentOf d) (namesOf q d))"
    by (simp add: filter_map comp_def namesOf_wf(2)[OF wf] cong: filter_cong)
  finally show "itemsOf q (fmdrop f d) = filter (\<lambda>it. id_FileName it \<noteq> f) (itemsOf q d)"
    by (simp add: itemsOf_def)
qed

lemma itemsOf_names: "wfDir d \<Longrightarrow> map id_FileName (itemsOf p d) = namesOf p d"
  by (simp add: itemsOf_def namesOf_wf(2) map_idI)

lemma itemsOf_itemOf: "wfDir d \<Longrightarrow> it \<in> set (itemsOf p d) \<Longrightarrow> itemOf p it"
  by (auto simp: itemsOf_def namesOf_wf(3))

lemma Drop_head:
  assumes wf: "wfDir d" and h: "itemsOf p d = it # its"
  shows "itemsOf p (fmdrop (id_FileName it) d) = its"
    "q \<noteq> p \<Longrightarrow> itemsOf q (fmdrop (id_FileName it) d) = itemsOf q d"
proof -
  have "distinct (map id_FileName (itemsOf p d))" using itemsOf_names[OF wf] namesOf_sorted(2) by simp
  then show "itemsOf p (fmdrop (id_FileName it) d) = its"
    unfolding Drop_items(2)[OF wf] h by (simp add: filter_id_conv) (metis image_eqI)
  assume "q \<noteq> p"
  have "id_FileName it' \<noteq> id_FileName it" if "it' \<in> set (itemsOf q d)" for it'
  proof
    assume eq: "id_FileName it' = id_FileName it"
    have "itemOf p it" using itemsOf_itemOf[OF wf, of it p] h by simp
    then have "hasPrefix (itemPrefix p) (id_FileName it')" using itemOf_prefix[of p it p] eq by simp
    then show False using itemOf_prefix[OF itemsOf_itemOf[OF wf that], of p] \<open>q \<noteq> p\<close> by simp
  qed
  then show "itemsOf q (fmdrop (id_FileName it) d) = itemsOf q d"
    unfolding Drop_items(2)[OF wf] by (auto simp: filter_id_conv)
qed

definition jobOf :: "ItemData \<Rightarrow> Job" where
  "jobOf it = \<lparr>j_id = queueItemIDFromFileName (id_FileName it), j_data = it\<rparr>"

lemma Extract_item:
  assumes "wfDir d" "it \<in> set (itemsOf p d)"
  shows "ExtractJob (id_FileName it) d = Some (jobOf it)"
  using assms namesOf_wf(1,2)[OF assms(1)] by (auto simp: itemsOf_def ExtractJob_def jobOf_def)

lemma Pop_eq:
  assumes "wfDir d"
  shows "QF_Pop rm dir (priorityPrefix p) d = (case itemsOf p d of [] \<Rightarrow> Err ErrQueueFileEmpty
     | it # _ \<Rightarrow> if rm (id_FileName it) then Ok (jobOf it, fmdrop (id_FileName it) d) else Err (ErrRemove (id_FileName it)))"
  using Extract_item[OF assms, of _ p]
  by (cases "itemsOf p d") (simp_all add: QF_Pop_def listItems_eq[OF assms])

lemma Dequeue_eq:
  assumes "wfDir d"
  shows "DQ_Dequeue rm dir d = (case itemsOf QueuePriorityHigh d @ itemsOf QueuePriorityLow d of
       [] \<Rightarrow> Err ErrQueueEmpty
     | it # _ \<Rightarrow> if rm (id_FileName it) then Ok (jobOf it, fmdrop (id_FileName it) d) else Err (ErrRemove (id_FileName it)))"
  using Pop_eq[OF assms, of rm dir QueuePriorityHigh] Pop_eq[OF assms, of rm dir QueuePriorityLow]
  by (auto simp: DQ_Dequeue_def priorityPrefix_def split: list.splits if_splits)

section \<open>The interface of a two-priority queue\<close>

text \<open>
  \<open>items\<close> is the abstract state: the pending items of each priority, first in first out.
  \<open>fits\<close> says which entries may be added to which state.
\<close>

locale priority_fifo =
  fixes inv :: "'s \<Rightarrow> bool" and items :: "QueuePriority \<Rightarrow> 's \<Rightarrow> 'i list"
    and fits :: "QueuePriority \<Rightarrow> 'e \<Rightarrow> 's \<Rightarrow> bool" and item :: "QueuePriority \<Rightarrow> 'e \<Rightarrow> 'i"
    and enq :: "QueuePriority \<Rightarrow> 'e \<Rightarrow> 's \<Rightarrow> 's" and deq :: "'s \<Rightarrow> ('i \<times> 's) option"
  assumes enq_inv: "inv s \<Longrightarrow> fits p e s \<Longrightarrow> inv (enq p e s)"
    and enq_items: "inv s \<Longrightarrow> fits p e s \<Longrightarrow> items q (enq p e s) = (if q = p then items p s @ [item p e] else items q s)"
    and deq_empty: "inv s \<Longrightarrow> deq s = None \<longleftrightarrow> items QueuePriorityHigh s = [] \<and> items QueuePriorityLow s = []"
    and deq_inv: "inv s \<Longrightarrow> deq s = Some (i, s') \<Longrightarrow> inv s'"
    and deq_high: "inv s \<Longrightarrow> deq s = Some (i, s') \<Longrightarrow> items QueuePriorityHigh s = j # js \<Longrightarrow>
      i = j \<and> items QueuePriorityHigh s' = js \<and> items QueuePriorityLow s' = items QueuePriorityLow s"
    and deq_low: "inv s \<Longrightarrow> deq s = Some (i, s') \<Longrightarrow> items QueuePriorityHigh s = [] \<Longrightarrow> items QueuePriorityLow s = j # js \<Longrightarrow>
      i = j \<and> items QueuePriorityHigh s' = [] \<and> items QueuePriorityLow s' = js"
begin

definition pending :: "'s \<Rightarrow> 'i list" where
  "pending s = items QueuePriorityHigh s @ items QueuePriorityLow s"

primrec deqs :: "nat \<Rightarrow> 's \<Rightarrow> 'i list \<times> 's" where
  "deqs 0 s = ([], s)"
| "deqs (Suc k) s = (case deq s of None \<Rightarrow> ([], s)
     | Some (i, s') \<Rightarrow> (let (is, t) = deqs k s' in (i # is, t)))"

primrec enqs :: "(QueuePriority \<times> 'e) list \<Rightarrow> 's \<Rightarrow> 's" where
  "enqs [] s = s"
| "enqs (pe # es) s = enqs es (enq (fst pe) (snd pe) s)"

primrec fitsAll :: "(QueuePriority \<times> 'e) list \<Rightarrow> 's \<Rightarrow> bool" where
  "fitsAll [] s = True"
| "fitsAll (pe # es) s = (fits (fst pe) (snd pe) s \<and> fitsAll es (enq (fst pe) (snd pe) s))"

lemma enqs_items:
  "inv s \<Longrightarrow> fitsAll es s \<Longrightarrow> inv (enqs es s)
    \<and> items q (enqs es s) = items q s @ map (\<lambda>pe. item q (snd pe)) (filter (\<lambda>pe. fst pe = q) es)"
  by (induction es arbitrary: s) (auto simp: enq_inv enq_items)

lemma deq_pending:
  assumes "inv s" "deq s = Some (i, s')"
  shows "pending s = i # pending s'"
proof (cases "items QueuePriorityHigh s")
  case Nil
  then obtain j js where "items QueuePriorityLow s = j # js"
    using deq_empty[OF assms(1)] assms(2) by (cases "items QueuePriorityLow s") auto
  then show ?thesis using deq_low[OF assms Nil] Nil by (simp add: pending_def)
next
  case (Cons j js)
  then show ?thesis using deq_high[OF assms Cons] by (simp add: pending_def)
qed

lemma deqs_take: "inv s \<Longrightarrow> fst (deqs k s) = take k (pending s)"
proof (induction k arbitrary: s)
  case (Suc k)
  show ?case
  proof (cases "deq s")
    case None
    then show ?thesis using deq_empty[OF Suc.prems] by (simp add: pending_def)
  next
    case (Some r)
    obtain i s' where r: "r = (i, s')" by (cases r)
    then show ?thesis
      using Some deq_pending[OF Suc.prems] deq_inv[OF Suc.prems] Suc.IH[of s'] by (cases "deqs k s'") simp
  qed
qed simp

lemma deqs_rest:
  "inv s \<Longrightarrow> inv (snd (deqs k s)) \<and> pending (snd (deqs k s)) = drop k (pending s)"
proof (induction k arbitrary: s)
  case (Suc k)
  show ?case
  proof (cases "deq s")
    case None
    then show ?thesis using deq_empty[OF Suc.prems] Suc.prems by (simp add: pending_def)
  next
    case (Some r)
    obtain i s' where r: "r = (i, s')" by (cases r)
    then show ?thesis
      using Some deq_pending[OF Suc.prems] deq_inv[OF Suc.prems] Suc.IH[of s'] by (cases "deqs k s'") simp
  qed
qed simp

end

text \<open>The queue files implement it, for entries queued later than those of the same priority.\<close>

definition fitsDir :: "QueuePriority \<Rightarrow> DAGRunRef \<times> UTC \<Rightarrow> QDir \<Rightarrow> bool" where
  "fitsDir p e d \<longleftrightarrow> pushable (fst e) (snd e) \<and> (\<forall>it\<in>set (itemsOf p d). Before (id_QueuedAt it) (snd e))"

interpretation dual: priority_fifo wfDir itemsOf fitsDir "\<lambda>p e. pushedItem p (fst e) (snd e)"
  "\<lambda>p e d. case DQ_Enqueue True p (fst e) (snd e) d of Inr (f, d') \<Rightarrow> d' | Inl _ \<Rightarrow> d"
  "\<lambda>d. case DQ_Dequeue (\<lambda>_. True) dir d of Inr (j, d') \<Rightarrow> Some (j_data j, d') | Inl _ \<Rightarrow> None" for dir
proof (unfold_locales, goal_cases)
  case (1 s p e)
  then show ?case using Push_items by (auto simp: fitsDir_def Push_eq)
next
  case (2 s p e q)
  then show ?case using Push_items[of s "fst e" "snd e" p] by (auto simp: fitsDir_def Push_eq)
next
  case (3 s)
  then show ?case by (auto simp: Dequeue_eq split: list.splits)
next
  case (4 s i s')
  then show ?case by (auto simp: Dequeue_eq Drop_items split: list.splits)
next
  case (5 s i s' j js)
  then show ?case
    using Drop_head[of s QueuePriorityHigh j js] by (auto simp: Dequeue_eq jobOf_def)
next
  case (6 s i s' j js)
  then show ?case
    using Drop_head[of s QueuePriorityLow j js] by (auto simp: Dequeue_eq jobOf_def)
qed

end
