(* ===== verification/Queue_Store.thy ===== *)
theory Queue_Store
  imports Queue_Files
begin

text \<open>
  The queue store (\<open>internal/persis/filequeue/store.go\<close>) and the read index it keeps beside the
  item files (\<open>index.go\<close>).  A queue's state is its directory, the index file with its
  modification time, and the copy of the index cached in memory.  The clock, the modification time a written
  index gets, and whether writing succeeds are inputs.
\<close>

section \<open>The index\<close>

record queueReadIndex =
  qi_Version :: int
  qi_Revision :: int
  qi_High :: "string list"
  qi_Low :: "string list"

definition queueIndexVersion :: int where
  "queueIndexVersion = 1"

definition newQueueReadIndex :: "int \<Rightarrow> queueReadIndex" where
  "newQueueReadIndex now = \<lparr>qi_Version = queueIndexVersion, qi_Revision = now, qi_High = [], qi_Low = []\<rparr>"

definition ensureDefaults :: "int \<Rightarrow> queueReadIndex \<Rightarrow> queueReadIndex" where
  "ensureDefaults now x = x\<lparr>qi_Version := (if qi_Version x = 0 then queueIndexVersion else qi_Version x),
     qi_Revision := (if qi_Revision x = 0 then now else qi_Revision x)\<rparr>"

definition index_total :: "queueReadIndex \<Rightarrow> nat" where
  "index_total x = length (qi_High x) + length (qi_Low x)"

definition index_touch :: "int \<Rightarrow> queueReadIndex \<Rightarrow> queueReadIndex" where
  "index_touch now x = x\<lparr>qi_Revision := (if now \<le> qi_Revision x then qi_Revision x + 1 else now)\<rparr>"

definition index_append :: "int \<Rightarrow> QueuePriority \<Rightarrow> string \<Rightarrow> queueReadIndex \<Rightarrow> queueReadIndex" where
  "index_append now p f x = index_touch now (case p of
       QueuePriorityHigh \<Rightarrow> x\<lparr>qi_High := qi_High x @ [f]\<rparr>
     | QueuePriorityLow \<Rightarrow> x\<lparr>qi_Low := qi_Low x @ [f]\<rparr>)"

fun removeQueueFileNameByID :: "string \<Rightarrow> string list \<Rightarrow> bool \<times> string list" where
  "removeQueueFileNameByID i [] = (False, [])"
| "removeQueueFileNameByID i (f # fs) =
     (if queueItemIDFromFileName f = i then (True, fs)
      else (let (b, fs') = removeQueueFileNameByID i fs in (b, f # fs')))"

definition index_removeItemID :: "int \<Rightarrow> string \<Rightarrow> queueReadIndex \<Rightarrow> bool \<times> queueReadIndex" where
  "index_removeItemID now i x =
     (if i = '''' then (False, x)
      else (let (bh, hs) = removeQueueFileNameByID i (qi_High x);
                (bl, ls) = removeQueueFileNameByID i (qi_Low x);
                x' = x\<lparr>qi_High := hs, qi_Low := ls\<rparr>
            in if bh \<or> bl then (True, index_touch now x') else (False, x')))"

definition index_itemFileNameAt :: "queueReadIndex \<Rightarrow> int \<Rightarrow> string option" where
  "index_itemFileNameAt x offset =
     (if offset < 0 then None
      else if offset < int (length (qi_High x)) then Some (qi_High x ! nat offset)
      else if offset - int (length (qi_High x)) < int (length (qi_Low x))
           then Some (qi_Low x ! nat (offset - int (length (qi_High x))))
           else None)"

fun findPos :: "string \<Rightarrow> string list \<Rightarrow> nat option" where
  "findPos i [] = None"
| "findPos i (f # fs) = (if queueItemIDFromFileName f = i then Some 0 else map_option Suc (findPos i fs))"

definition index_findItemOffset :: "queueReadIndex \<Rightarrow> string \<Rightarrow> int" where
  "index_findItemOffset x i = (case findPos i (qi_High x) of
       Some k \<Rightarrow> int k
     | None \<Rightarrow> (case findPos i (qi_Low x) of Some k \<Rightarrow> int (length (qi_High x) + k) | None \<Rightarrow> -1))"

record queueReadCursor =
  qc_Version :: int
  qc_Queue :: string
  qc_Revision :: int
  qc_Offset :: int
  qc_AfterItemID :: string

definition index_resolveStart :: "queueReadIndex \<Rightarrow> queueReadCursor \<Rightarrow> (QueueError, int) result" where
  "index_resolveStart x c =
     (if qc_Offset c < 0 then Err ErrInvalidCursor
      else if qc_AfterItemID c = '''' then (if qc_Offset c \<noteq> 0 then Err ErrInvalidCursor else Ok 0)
      else if qc_Offset c > 0 \<and> map_option queueItemIDFromFileName (index_itemFileNameAt x (qc_Offset c - 1)) = Some (qc_AfterItemID c)
           then Ok (qc_Offset c)
      else if index_findItemOffset x (qc_AfterItemID c) \<ge> 0 then Ok (index_findItemOffset x (qc_AfterItemID c) + 1)
      else Err ErrInvalidCursor)"

text \<open>The loop of \<open>slice\<close> from position \<open>pos\<close> on, for \<open>n\<close> positions.\<close>

fun sliceFrom :: "queueReadIndex \<Rightarrow> int \<Rightarrow> nat \<Rightarrow> string list" where
  "sliceFrom x pos 0 = []"
| "sliceFrom x pos (Suc n) = (case index_itemFileNameAt x pos of None \<Rightarrow> [] | Some f \<Rightarrow> f # sliceFrom x (pos + 1) n)"

definition index_slice :: "queueReadIndex \<Rightarrow> int \<Rightarrow> int \<Rightarrow> string list" where
  "index_slice x start limit =
     (let start = (if start < 0 then 0 else start)
      in if limit \<le> 0 \<or> start \<ge> int (index_total x) then []
         else sliceFrom x start (nat (min (start + limit) (int (index_total x)) - start)))"

section \<open>The state of a queue\<close>

text \<open>
  \<open>qs_index\<close> is the index file with its modification time; \<open>BadIndex\<close> is a file that cannot be read or decoded.
  \<open>qs_cache\<close> is the entry of \<open>Store.indices\<close>; its time is \<open>None\<close> for the zero \<open>time.Time\<close>.
  The maps of the queues' own objects (\<open>Store.queues\<close>) hold no state beyond the directory.
\<close>

datatype IndexFile = BadIndex | GoodIndex queueReadIndex

record QueueState =
  qs_exists :: bool
  qs_files :: QDir
  qs_index :: "(IndexFile \<times> int) option"
  qs_cache :: "(queueReadIndex \<times> int option) option"

text \<open>
  What one operation meets: the clock, the modification time a new index file gets and whether it can be read
  back, whether the directory lock is acquired, and which reads, writes and removals succeed.
\<close>

record QueueIO =
  qio_now :: int
  qio_mtime :: int
  qio_statOk :: bool
  qio_lockOk :: bool
  qio_writeOk :: bool
  qio_rm :: "string \<Rightarrow> bool"
  qio_readDirOk :: bool
  qio_rebuildOk :: bool
  qio_saveOk :: bool
  qio_rmIndexOk :: bool

definition isHighQueueFileName :: "string \<Rightarrow> bool" where
  "isHighQueueFileName f \<longleftrightarrow> hasPrefix ''item_high_'' f \<and> stripSuffix ''.json'' f \<noteq> None"

definition isLowQueueFileName :: "string \<Rightarrow> bool" where
  "isLowQueueFileName f \<longleftrightarrow> hasPrefix ''item_low_'' f \<and> stripSuffix ''.json'' f \<noteq> None"

definition hasQueueItemEntries :: "QDir \<Rightarrow> bool" where
  "hasQueueItemEntries d = list_ex (\<lambda>f. isHighQueueFileName f \<or> isLowQueueFileName f) (fileNames d)"

definition saveQueueIndex :: "QueueIO \<Rightarrow> bool \<Rightarrow> queueReadIndex \<Rightarrow> QueueState \<Rightarrow> bool \<times> QueueState" where
  "saveQueueIndex io ok x s =
     (if index_total x = 0
      then (if ok \<or> qs_index s = None then (True, s\<lparr>qs_cache := None, qs_index := None\<rparr>) else (False, s\<lparr>qs_cache := None\<rparr>))
      else if \<not> ok then (False, s)
      else (let x' = ensureDefaults (qio_now io) x
            in (True, s\<lparr>qs_exists := True, qs_index := Some (GoodIndex x', qio_mtime io),
                        qs_cache := Some (x', if qio_statOk io then Some (qio_mtime io) else None)\<rparr>)))"

definition invalidateQueueIndex :: "QueueIO \<Rightarrow> QueueState \<Rightarrow> QueueState" where
  "invalidateQueueIndex io s =
     (if qio_rmIndexOk io then s\<lparr>qs_cache := None, qs_index := None\<rparr> else s\<lparr>qs_cache := None\<rparr>)"

definition rebuildQueueIndex :: "QueueIO \<Rightarrow> QueueState \<Rightarrow> (QueueError, queueReadIndex) result \<times> QueueState" where
  "rebuildQueueIndex io s =
     (if \<not> qio_readDirOk io then (Err ErrIndex, s)
      else (let x = (newQueueReadIndex (qio_now io))
                      \<lparr>qi_High := sort (filter isHighQueueFileName (fileNames (qs_files s))),
                       qi_Low := sort (filter isLowQueueFileName (fileNames (qs_files s)))\<rparr>;
                (ok, s') = saveQueueIndex io (qio_rebuildOk io) x s
            in if ok then (Ok x, s') else (Err ErrIndex, s')))"

definition readQueueIndex :: "QueueIO \<Rightarrow> IndexFile \<Rightarrow> int \<Rightarrow> QueueState \<Rightarrow> (QueueError, queueReadIndex) result \<times> QueueState" where
  "readQueueIndex io file m s = (case file of
       GoodIndex y \<Rightarrow>
         if qi_Version y = queueIndexVersion
         then (let y' = ensureDefaults (qio_now io) y in (Ok y', s\<lparr>qs_cache := Some (y', Some m)\<rparr>))
         else rebuildQueueIndex io s
     | BadIndex \<Rightarrow> rebuildQueueIndex io s)"

definition loadOrRebuildQueueIndex :: "QueueIO \<Rightarrow> QueueState \<Rightarrow> (QueueError, queueReadIndex) result \<times> QueueState" where
  "loadOrRebuildQueueIndex io s =
     (if \<not> qs_exists s then (Ok (newQueueReadIndex (qio_now io)), s\<lparr>qs_cache := None\<rparr>)
      else case qs_index s of
        None \<Rightarrow> rebuildQueueIndex io s
      | Some (file, m) \<Rightarrow> (case qs_cache s of
            Some (x, m') \<Rightarrow> if m' = Some m then (Ok x, s) else readQueueIndex io file m s
          | None \<Rightarrow> readQueueIndex io file m s))"

definition saveOrInvalidate :: "QueueIO \<Rightarrow> queueReadIndex \<Rightarrow> QueueState \<Rightarrow> QueueState" where
  "saveOrInvalidate io x s = (let (ok, s') = saveQueueIndex io (qio_saveOk io) x s
     in if ok then s' else invalidateQueueIndex io s')"

section \<open>The operations of the store\<close>

text \<open>\<open>Enqueue\<close> in its two halves, before and after the index is read: it does not take the directory lock.\<close>

definition finishEnqueue :: "QueueIO \<Rightarrow> QueuePriority \<Rightarrow> DAGRunRef \<Rightarrow> UTC \<Rightarrow> queueReadIndex \<Rightarrow> QueueState
    \<Rightarrow> (QueueError, unit) result \<times> QueueState" where
  "finishEnqueue io p run t x s = (case DQ_Enqueue (qio_writeOk io) p run t (qs_files s) of
       Inl e \<Rightarrow> (Err e, s)
     | Inr (f, d) \<Rightarrow> (Ok (), saveOrInvalidate io (index_append (qio_now io) p f x) (s\<lparr>qs_exists := True, qs_files := d\<rparr>)))"

definition Store_Enqueue :: "QueueIO \<Rightarrow> QueuePriority \<Rightarrow> DAGRunRef \<Rightarrow> UTC \<Rightarrow> QueueState
    \<Rightarrow> (QueueError, unit) result \<times> QueueState" where
  "Store_Enqueue io p run t s = (case loadOrRebuildQueueIndex io s of
       (Inl e, s1) \<Rightarrow> (Err e, s1)
     | (Inr x, s1) \<Rightarrow> finishEnqueue io p run t x s1)"

definition removeFromIndex :: "QueueIO \<Rightarrow> string list \<Rightarrow> QueueState \<Rightarrow> QueueState" where
  "removeFromIndex io ids s = (case loadOrRebuildQueueIndex io s of
       (Inl e, s1) \<Rightarrow> invalidateQueueIndex io s1
     | (Inr x, s1) \<Rightarrow> saveOrInvalidate io (fold (\<lambda>i x. snd (index_removeItemID (qio_now io) i x)) ids x) s1)"

text \<open>The removing operations hold the directory lock, which creates the directory and keeps it from being removed.\<close>

definition Store_DequeueByName :: "QueueIO \<Rightarrow> string \<Rightarrow> QueueState \<Rightarrow> (QueueError, Job) result \<times> QueueState" where
  "Store_DequeueByName io name s =
     (if \<not> qio_lockOk io then (Err ErrLock, s)
      else (let s1 = s\<lparr>qs_exists := True\<rparr>
            in case DQ_Dequeue (qio_rm io) name (qs_files s1) of
                 Inl e \<Rightarrow> (Err e, s1)
               | Inr (job, d) \<Rightarrow> (Ok job, removeFromIndex io [j_id job] (s1\<lparr>qs_files := d\<rparr>))))"

definition Store_DequeueByDAGRunID :: "QueueIO \<Rightarrow> string \<Rightarrow> DAGRunRef \<Rightarrow> QueueState
    \<Rightarrow> (QueueError, Job list) result \<times> QueueState" where
  "Store_DequeueByDAGRunID io name run s =
     (if \<not> qio_lockOk io then (Err ErrLock, s)
      else (let s1 = s\<lparr>qs_exists := True\<rparr>;
                (jobs, d) = DQ_DequeueByDAGRunID (qio_rm io) name run (qs_files s1);
                s2 = s1\<lparr>qs_files := d\<rparr>
            in if jobs = [] then (Err ErrQueueItemNotFound, s2)
               else (Ok jobs, removeFromIndex io (map j_id jobs) s2)))"

text \<open>The count is returned with an error too.  The IDs are those of items: the index file itself is not in \<open>qs_files\<close>.\<close>

definition Store_DeleteByItemIDs :: "QueueIO \<Rightarrow> string list \<Rightarrow> QueueState \<Rightarrow> (nat \<times> QueueError option) \<times> QueueState" where
  "Store_DeleteByItemIDs io ids s =
     (if \<not> qio_lockOk io then ((0, Some ErrLock), s)
      else (let s1 = s\<lparr>qs_exists := True\<rparr>;
                (n, e, d) = DQ_DeleteByItemIDs (qio_rm io) ids (qs_files s1);
                s2 = s1\<lparr>qs_files := d\<rparr>
            in if e \<noteq> None then ((n, e), s2) else ((n, None), removeFromIndex io ids s2)))"

definition Store_Len :: "QueueIO \<Rightarrow> QueueState \<Rightarrow> (QueueError, nat) result \<times> QueueState" where
  "Store_Len io s = (let (r, s1) = loadOrRebuildQueueIndex io s in (map_sum id index_total r, s1))"

text \<open>The listed items are given by the names of their files.\<close>

definition Store_List :: "QueueIO \<Rightarrow> QueueState \<Rightarrow> (QueueError, string list) result \<times> QueueState" where
  "Store_List io s = (let (r, s1) = loadOrRebuildQueueIndex io s in (map_sum id (\<lambda>x. qi_High x @ qi_Low x) r, s1))"

definition Store_ListByDAGName :: "QueueIO \<Rightarrow> string \<Rightarrow> QueueState \<Rightarrow> (QueueError, string list) result \<times> QueueState" where
  "Store_ListByDAGName io dagName s = (case Store_List io s of
       (Inl e, s1) \<Rightarrow> (Err e, s1)
     | (Inr fs, s1) \<Rightarrow> (Ok (filter (\<lambda>f. case ExtractJob f (qs_files s1) of
          None \<Rightarrow> False | Some job \<Rightarrow> dr_Name (id_DAGRun (j_data job)) = dagName) fs), s1))"

record CursorResult =
  cr_Items :: "string list"
  cr_HasMore :: bool
  cr_NextCursor :: string

text \<open>
  The text form of a cursor (\<open>exec.EncodeSearchCursor\<close>: JSON in URL-safe base 64) is a pair of functions
  \<open>enc\<close> and \<open>dec\<close>; \<open>dec\<close> fails with \<open>None\<close>.
\<close>

definition decodeQueueReadCursor :: "(string \<Rightarrow> queueReadCursor option) \<Rightarrow> string \<Rightarrow> string
    \<Rightarrow> (QueueError, queueReadCursor) result" where
  "decodeQueueReadCursor dec name raw =
     (if raw = '''' then Ok \<lparr>qc_Version = queueIndexVersion, qc_Queue = name, qc_Revision = 0, qc_Offset = 0, qc_AfterItemID = ''''\<rparr>
      else case dec raw of
        None \<Rightarrow> Err ErrInvalidCursor
      | Some c \<Rightarrow> if qc_Version c \<noteq> queueIndexVersion \<or> qc_Queue c \<noteq> name then Err ErrInvalidCursor else Ok c)"

definition encodeQueueReadCursor :: "(queueReadCursor \<Rightarrow> string) \<Rightarrow> string \<Rightarrow> queueReadIndex \<Rightarrow> int \<Rightarrow> string \<Rightarrow> string" where
  "encodeQueueReadCursor enc name x offset f =
     (if f = '''' then ''''
      else enc \<lparr>qc_Version = queueIndexVersion, qc_Queue = name, qc_Revision = qi_Revision x,
             qc_Offset = offset, qc_AfterItemID = queueItemIDFromFileName f\<rparr>)"

definition Store_ListCursor :: "(queueReadCursor \<Rightarrow> string) \<Rightarrow> (string \<Rightarrow> queueReadCursor option) \<Rightarrow> QueueIO \<Rightarrow> string
    \<Rightarrow> string \<Rightarrow> int \<Rightarrow> QueueState \<Rightarrow> (QueueError, CursorResult) result \<times> QueueState" where
  "Store_ListCursor enc dec io name cursor limit s =
     (let limit = (if limit \<le> 0 then 1 else limit)
      in case loadOrRebuildQueueIndex io s of
           (Inl e, s1) \<Rightarrow> (Err e, s1)
         | (Inr x, s1) \<Rightarrow>
            (result_bind (decodeQueueReadCursor dec name cursor) (\<lambda>c.
             result_bind (index_resolveStart x c) (\<lambda>start.
               (let files = index_slice x start limit;
                    hasMore = (start + int (length files) < int (index_total x))
                in Ok \<lparr>cr_Items = files, cr_HasMore = hasMore,
                       cr_NextCursor = (if hasMore \<and> files \<noteq> []
                         then encodeQueueReadCursor enc name x (start + int (length files)) (last files) else '''')\<rparr>))), s1))"

text \<open>All queues: the names of the directories in the order of \<open>os.ReadDir\<close>, and every item by path.\<close>

definition Store_QueueList :: "(string \<times> QDir option) list \<Rightarrow> string list" where
  "Store_QueueList dirs = map fst (filter (\<lambda>(name, d). case d of None \<Rightarrow> False | Some d \<Rightarrow> hasQueueItemEntries d) dirs)"

definition Store_All :: "string \<Rightarrow> (string \<times> QDir) list \<Rightarrow> string list" where
  "Store_All baseDir dirs =
     (let paths = (\<lambda>ok. sort (concat (map (\<lambda>(name, d). map (\<lambda>f. baseDir @ ''/'' @ name @ ''/'' @ f) (filter ok (fileNames d))) dirs)))
      in paths isHighQueueFileName @ paths isLowQueueFileName)"

section \<open>Item IDs\<close>

lemma baseName_noslash: "CHR ''/'' \<notin> set x \<Longrightarrow> baseName (x @ ''.json'') = x @ ''.json''"
proof -
  assume "CHR ''/'' \<notin> set x"
  then have "\<forall>c\<in>set (rev x). c \<noteq> CHR ''/''" by auto
  then have "takeWhile (\<lambda>c. c \<noteq> CHR ''/'') (rev x) = rev x" by (simp only: takeWhile_eq_all_conv)
  then show "baseName (x @ ''.json'') = x @ ''.json''" by (simp add: baseName_def del: takeWhile_eq_all_conv)
qed

lemma queueItemID_json [simp]:
  assumes "CHR ''/'' \<notin> set x"
  shows "queueItemIDFromFileName (x @ ''.json'') = x"
proof -
  have "fileExt (x @ ''.json'') = ''.json''" by (simp add: fileExt_def Let_def)
  then show ?thesis using baseName_noslash[OF assms] by (simp add: queueItemIDFromFileName_def Let_def)
qed

lemma padNat_noslash [simp]: "CHR ''/'' \<notin> set (padNat w n)"
  using padNat_digits[of w n] by (auto simp: list_all_iff isDigit_def)

lemma itemName:
  assumes "itemOf p it"
  shows "\<exists>x. id_FileName it = x @ ''.json'' \<and> CHR ''/'' \<notin> set x"
proof -
  let ?x = "''item_'' @ priorityPrefix p @ formatDate (id_QueuedAt it) @ ''_'' @ formatClock (id_QueuedAt it) @ ''_''
     @ padNat 9 (u_nano (id_QueuedAt it)) @ ''Z_'' @ dr_ID (id_DAGRun it)"
  have "CHR ''/'' \<notin> set ?x"
    using assms by (cases p) (auto simp: itemOf_def priorityPrefix_def formatDate_def formatClock_def)
  moreover have "id_FileName it = ?x @ ''.json''" using assms by (simp add: itemOf_def queueFileName_def)
  ultimately show ?thesis by blast
qed

lemma itemID:
  assumes "itemOf p it"
  shows "queueItemIDFromFileName (id_FileName it) @ ''.json'' = id_FileName it"
    "CHR ''/'' \<notin> set (queueItemIDFromFileName (id_FileName it))"
  using itemName[OF assms] by auto

lemma namesOf_ID: "wfDir d \<Longrightarrow> f \<in> set (namesOf p d) \<Longrightarrow> queueItemIDFromFileName f @ ''.json'' = f"
  using itemID(1) namesOf_wf(2,3) by metis

lemma namesOf_ID_nonempty:
  assumes "wfDir d" "f \<in> set (namesOf p d)"
  shows "queueItemIDFromFileName f \<noteq> ''''"
proof
  assume "queueItemIDFromFileName f = ''''"
  then have "f = ''.json''" using namesOf_ID[OF assms] by simp
  then show False using assms(2) by (cases p) (simp_all add: namesOf_def itemPrefix_def priorityPrefix_def hasPrefix_def)
qed

lemma namesOf_ID_inj: "wfDir d \<Longrightarrow> inj_on queueItemIDFromFileName (set (namesOf p d))"
  by (rule inj_onI) (metis namesOf_ID)

section \<open>The index of a directory\<close>

definition indexes :: "queueReadIndex \<Rightarrow> QDir \<Rightarrow> bool" where
  "indexes x d \<longleftrightarrow> qi_High x = namesOf QueuePriorityHigh d \<and> qi_Low x = namesOf QueuePriorityLow d"

lemma indexes_simps [simp]:
  "indexes (ensureDefaults now x) d = indexes x d" "indexes (index_touch now x) d = indexes x d"
  by (simp_all add: indexes_def ensureDefaults_def index_touch_def)

lemma namesOf_json:
  assumes "wfDir d" "f \<in> set (namesOf p d)"
  shows "stripSuffix ''.json'' f \<noteq> None"
  using namesOf_ID[OF assms] stripSuffix_append[of "''.json''" "queueItemIDFromFileName f"] by simp

lemma rebuilt_names:
  assumes "wfDir d"
  shows "sort (filter isHighQueueFileName (fileNames d)) = namesOf QueuePriorityHigh d"
    "sort (filter isLowQueueFileName (fileNames d)) = namesOf QueuePriorityLow d"
proof -
  have "filter isHighQueueFileName (fileNames d) = namesOf QueuePriorityHigh d"
    unfolding namesOf_def
    by (rule filter_cong[OF refl]) (use namesOf_json[OF assms, of _ QueuePriorityHigh] in
      \<open>auto simp: isHighQueueFileName_def namesOf_def itemPrefix_def priorityPrefix_def\<close>)
  then show "sort (filter isHighQueueFileName (fileNames d)) = namesOf QueuePriorityHigh d"
    using namesOf_sorted(1) by (simp add: sorted_sort_id)
  have "filter isLowQueueFileName (fileNames d) = namesOf QueuePriorityLow d"
    unfolding namesOf_def
    by (rule filter_cong[OF refl]) (use namesOf_json[OF assms, of _ QueuePriorityLow] in
      \<open>auto simp: isLowQueueFileName_def namesOf_def itemPrefix_def priorityPrefix_def\<close>)
  then show "sort (filter isLowQueueFileName (fileNames d)) = namesOf QueuePriorityLow d"
    using namesOf_sorted(1) by (simp add: sorted_sort_id)
qed

lemma namesOf_push:
  assumes "wfDir d" "pushable run t" "\<forall>it\<in>set (itemsOf p d). Before (id_QueuedAt it) t" "indexes x d"
  shows "indexes (index_append now p (id_FileName (pushedItem p run t)) x) (pushDir p run t d)"
proof -
  note P = Push_items[OF assms(1-3)]
  have "namesOf q (pushDir p run t d) = namesOf q d" if "q \<noteq> p" for q
    using P that itemsOf_names[OF assms(1), of q] itemsOf_names[of "pushDir p run t d" q] by simp
  then show ?thesis using P assms(4) by (cases p) (simp_all add: index_append_def indexes_def index_touch_def)
qed

lemma removeByID:
  "inj_on queueItemIDFromFileName (set fs) \<Longrightarrow> distinct fs \<Longrightarrow>
    snd (removeQueueFileNameByID i fs) = filter (\<lambda>f. queueItemIDFromFileName f \<noteq> i) fs"
proof (induction fs)
  case (Cons f fs)
  show ?case
  proof (cases "queueItemIDFromFileName f = i")
    case True
    then have "queueItemIDFromFileName g \<noteq> i" if "g \<in> set fs" for g
      using Cons.prems that by (auto simp: inj_on_def)
    then show ?thesis using True by (auto intro!: filter_True[symmetric])
  next
    case False
    then show ?thesis using Cons by (auto simp: split_beta inj_on_def)
  qed
qed simp

text \<open>The names left when the items of some IDs are gone.\<close>

lemma removeIDs:
  assumes "\<forall>f\<in>set (qi_High x) \<union> set (qi_Low x). queueItemIDFromFileName f \<noteq> ''''"
    "inj_on queueItemIDFromFileName (set (qi_High x))" "distinct (qi_High x)"
    "inj_on queueItemIDFromFileName (set (qi_Low x))" "distinct (qi_Low x)"
  shows "qi_High (fold (\<lambda>i x. snd (index_removeItemID now i x)) ids x) = filter (\<lambda>f. queueItemIDFromFileName f \<notin> set ids) (qi_High x)
    \<and> qi_Low (fold (\<lambda>i x. snd (index_removeItemID now i x)) ids x) = filter (\<lambda>f. queueItemIDFromFileName f \<notin> set ids) (qi_Low x)"
  using assms
proof (induction ids arbitrary: x)
  case (Cons i ids)
  let ?x = "snd (index_removeItemID now i x)"
  have x: "qi_High ?x = filter (\<lambda>f. queueItemIDFromFileName f \<noteq> i) (qi_High x)"
    "qi_Low ?x = filter (\<lambda>f. queueItemIDFromFileName f \<noteq> i) (qi_Low x)"
    using Cons.prems removeByID
    by (auto simp: index_removeItemID_def split_beta Let_def index_touch_def intro!: filter_True[symmetric])
  have "inj_on queueItemIDFromFileName (set (qi_High ?x))" "inj_on queueItemIDFromFileName (set (qi_Low ?x))"
    "\<forall>f\<in>set (qi_High ?x) \<union> set (qi_Low ?x). queueItemIDFromFileName f \<noteq> ''''"
    unfolding x using Cons.prems by (auto intro: inj_on_subset)
  then show ?case using Cons.IH[of ?x] Cons.prems x by (simp add: conj_commute)
qed simp

section \<open>Coherence\<close>

text \<open>
  \<open>tracks d s\<close>: every index the store may use, on disk or cached, lists the names of \<open>d\<close>.  Between the
  removal of files and the update of the index, \<open>d\<close> is the directory before the removal.
\<close>

definition tracks :: "QDir \<Rightarrow> QueueState \<Rightarrow> bool" where
  "tracks d s \<longleftrightarrow> (\<forall>y m. qs_index s = Some (GoodIndex y, m) \<longrightarrow> indexes y d)
     \<and> (\<forall>x m ixf. qs_cache s = Some (x, Some m) \<longrightarrow> qs_index s = Some (ixf, m) \<longrightarrow> indexes x d)"

definition storeInv :: "QueueState \<Rightarrow> bool" where
  "storeInv s \<longleftrightarrow> wfDir (qs_files s) \<and> tracks (qs_files s) s
     \<and> (\<not> qs_exists s \<longrightarrow> qs_files s = fmempty \<and> qs_index s = None)"

lemma namesOf_empty [simp]: "namesOf p fmempty = []"
  by (simp add: namesOf_def fileNames_def)

lemma rebuild_ok:
  assumes "wfDir (qs_files s)" "tracks d s" "rebuildQueueIndex io s = (r, s')" "qs_exists s"
  shows "qs_files s' = qs_files s \<and> qs_exists s'
    \<and> (case r of Inl e \<Rightarrow> True | Inr x \<Rightarrow> indexes x (qs_files s) \<and> tracks (qs_files s) s')"
    "r = Inl e \<Longrightarrow> tracks d s'"
  using assms rebuilt_names[OF assms(1)]
  by (auto simp: rebuildQueueIndex_def saveQueueIndex_def Let_def tracks_def indexes_def ensureDefaults_def
      split: if_splits)

lemma load_ok:
  assumes "wfDir (qs_files s)" "tracks d s" "qs_exists s" "loadOrRebuildQueueIndex io s = (r, s')"
  shows "qs_files s' = qs_files s \<and> qs_exists s'
    \<and> (case r of Inl e \<Rightarrow> tracks d s'
        | Inr x \<Rightarrow> \<exists>d'\<in>{d, qs_files s}. indexes x d' \<and> tracks d' s')"
proof -
  have rb: ?thesis if "rebuildQueueIndex io s = (r, s')"
    using rebuild_ok[OF assms(1,2) that assms(3)] by (auto split: sum.splits)
  have rd: ?thesis if "readQueueIndex io ixf m s = (r, s')" "qs_index s = Some (ixf, m)" for ixf m
  proof (cases ixf)
    case BadIndex
    then show ?thesis using rb that by (simp add: readQueueIndex_def)
  next
    case (GoodIndex y)
    then show ?thesis using rb that assms(2,3)
      by (auto simp: readQueueIndex_def Let_def tracks_def split: if_splits)
  qed
  show ?thesis
  proof (cases "qs_index s")
    case None
    then show ?thesis using rb assms(3,4) by (simp add: loadOrRebuildQueueIndex_def)
  next
    case (Some fm)
    obtain ixf m where fm: "fm = (ixf, m)" by (cases fm)
    show ?thesis
    proof (cases "\<exists>x. qs_cache s = Some (x, Some m)")
      case True
      then show ?thesis using Some fm assms by (auto simp: loadOrRebuildQueueIndex_def tracks_def)
    next
      case False
      then have "loadOrRebuildQueueIndex io s = readQueueIndex io ixf m s"
        using Some fm assms(3) by (auto simp: loadOrRebuildQueueIndex_def split: option.splits)
      then show ?thesis using rd Some fm assms(4) by simp
    qed
  qed
qed

lemma saveOrInvalidate_ok:
  assumes "qio_rmIndexOk io" "wfDir (qs_files s)" "qs_exists s" "indexes x (qs_files s)"
  shows "storeInv (saveOrInvalidate io x s) \<and> qs_files (saveOrInvalidate io x s) = qs_files s"
  using assms
  by (auto simp: saveOrInvalidate_def saveQueueIndex_def invalidateQueueIndex_def storeInv_def tracks_def Let_def)

lemma Enqueue_ok:
  assumes "qio_rmIndexOk io" "storeInv s" "fitsDir p (run, t) (qs_files s)"
    and step: "Store_Enqueue io p run t s = (r, s')"
  shows "storeInv s' \<and> qs_files s' = (if r = Ok () then pushDir p run t (qs_files s) else qs_files s)"
proof -
  obtain l s1 where l: "loadOrRebuildQueueIndex io s = (l, s1)" by fastforce
  have s: "wfDir (qs_files s)" "tracks (qs_files s) s" using assms(2) by (auto simp: storeInv_def)
  have L: "qs_files s1 = qs_files s \<and> storeInv s1 \<and> (\<forall>x. l = Inr x \<longrightarrow> indexes x (qs_files s))"
  proof (cases "qs_exists s")
    case True
    then show ?thesis using load_ok[OF s True l] s by (auto simp: storeInv_def split: sum.splits)
  next
    case False
    then show ?thesis using l assms(2)
      by (auto simp: loadOrRebuildQueueIndex_def storeInv_def tracks_def indexes_def newQueueReadIndex_def)
  qed
  show ?thesis
  proof (cases l)
    case (Inl e)
    then show ?thesis using step l L by (auto simp: Store_Enqueue_def)
  next
    case (Inr x)
    let ?s = "s1\<lparr>qs_exists := True, qs_files := pushDir p run t (qs_files s)\<rparr>"
    have fit: "pushable run t" "\<forall>it\<in>set (itemsOf p (qs_files s)). Before (id_QueuedAt it) t"
      using assms(3) by (auto simp: fitsDir_def)
    have "wfDir (pushDir p run t (qs_files s))" using Push_items[OF s(1) fit] by simp
    moreover have "indexes (index_append (qio_now io) p (id_FileName (pushedItem p run t)) x) (pushDir p run t (qs_files s))"
      using namesOf_push[OF s(1) fit] L Inr by simp
    ultimately have "storeInv (saveOrInvalidate io (index_append (qio_now io) p (id_FileName (pushedItem p run t)) x) ?s)
      \<and> qs_files (saveOrInvalidate io (index_append (qio_now io) p (id_FileName (pushedItem p run t)) x) ?s) = pushDir p run t (qs_files s)"
      using saveOrInvalidate_ok[OF assms(1), of ?s] by simp
    then show ?thesis using step l L Inr
      by (auto simp: Store_Enqueue_def finishEnqueue_def Push_eq split: if_splits)
  qed
qed

lemma removeFromIndex_ok:
  assumes io: "qio_rmIndexOk io" and d: "wfDir d" "tracks d s" "qs_exists s"
    and d': "wfDir (qs_files s)"
      "\<And>p. namesOf p (qs_files s) = filter (\<lambda>f. queueItemIDFromFileName f \<notin> set ids) (namesOf p d)"
  shows "storeInv (removeFromIndex io ids s) \<and> qs_files (removeFromIndex io ids s) = qs_files s"
proof -
  obtain l s1 where l: "loadOrRebuildQueueIndex io s = (l, s1)" by fastforce
  note L = load_ok[OF d'(1) d(2,3) l]
  show ?thesis
  proof (cases l)
    case (Inl e)
    then show ?thesis using l L io d' by (auto simp: removeFromIndex_def invalidateQueueIndex_def storeInv_def tracks_def)
  next
    case (Inr x)
    then obtain e where e: "e \<in> {d, qs_files s}" "indexes x e" using L by auto
    let ?x = "fold (\<lambda>i x. snd (index_removeItemID (qio_now io) i x)) ids x"
    have we: "wfDir e" using e(1) d(1) d'(1) by auto
    have "\<forall>f\<in>set (qi_High x) \<union> set (qi_Low x). queueItemIDFromFileName f \<noteq> ''''"
      using e(2) namesOf_ID_nonempty[OF we] by (auto simp: indexes_def)
    then have "qi_High ?x = filter (\<lambda>f. queueItemIDFromFileName f \<notin> set ids) (namesOf QueuePriorityHigh e)"
      "qi_Low ?x = filter (\<lambda>f. queueItemIDFromFileName f \<notin> set ids) (namesOf QueuePriorityLow e)"
      using removeIDs[of x "qio_now io" ids] e(2) namesOf_ID_inj[OF we] namesOf_sorted(2) by (simp_all add: indexes_def)
    then have "indexes ?x (qs_files s)" using e(1) d'(2) by (auto simp: indexes_def)
    then show ?thesis using saveOrInvalidate_ok[OF io, of s1 ?x] L l Inr d' by (auto simp: removeFromIndex_def)
  qed
qed

section \<open>Removing items\<close>

lemma drops_wf: "wfDir d \<Longrightarrow> wfDir (fold fmdrop fs d)"
  by (induction fs arbitrary: d) (simp_all add: Drop_items(1))

lemma drops_names: "namesOf p (fold fmdrop fs d) = filter (\<lambda>f. f \<notin> set fs) (namesOf p d)"
proof (induction fs arbitrary: d)
  case (Cons f fs)
  have "namesOf p (fmdrop f d) = filter (\<lambda>g. g \<noteq> f) (namesOf p d)"
    using namesOf_drop[of p f d] namesOf_sorted(2)[of p d]
    by (simp add: distinct_remove1_removeAll removeAll_filter_not_eq eq_commute[of f])
  then show ?case using Cons[of "fmdrop f d"] by (auto intro!: filter_cong)
qed simp

text \<open>Dropping files from the directory drops their IDs from the names.\<close>

lemma drops_IDs:
  assumes "wfDir d" "\<And>f p. f \<in> set (namesOf p d) \<Longrightarrow> f \<in> set fs \<longleftrightarrow> queueItemIDFromFileName f \<in> set ids"
  shows "namesOf p (fold fmdrop fs d) = filter (\<lambda>f. queueItemIDFromFileName f \<notin> set ids) (namesOf p d)"
  unfolding drops_names by (rule filter_cong[OF refl]) (use assms(2) in blast)

lemma drops_removeFromIndex:
  assumes "qio_rmIndexOk io" "storeInv s"
    "\<And>f p. f \<in> set (namesOf p (qs_files s)) \<Longrightarrow> f \<in> set fs \<longleftrightarrow> queueItemIDFromFileName f \<in> set ids"
  shows "storeInv (removeFromIndex io ids (s\<lparr>qs_exists := True, qs_files := fold fmdrop fs (qs_files s)\<rparr>))
    \<and> qs_files (removeFromIndex io ids (s\<lparr>qs_exists := True, qs_files := fold fmdrop fs (qs_files s)\<rparr>)) = fold fmdrop fs (qs_files s)"
proof -
  have s: "wfDir (qs_files s)" "tracks (qs_files s) s" using assms(2) by (auto simp: storeInv_def)
  let ?s = "s\<lparr>qs_exists := True, qs_files := fold fmdrop fs (qs_files s)\<rparr>"
  have "tracks (qs_files s) ?s" using s(2) by (simp add: tracks_def)
  then show ?thesis
    using removeFromIndex_ok[OF assms(1) s(1), of ?s ids] drops_wf[OF s(1)] drops_IDs[OF s(1) assms(3)] by simp
qed

lemma ID_iff:
  assumes "wfDir d" "f \<in> set (namesOf p d)" "set fs \<subseteq> fset (fmdom d)"
  shows "f \<in> set fs \<longleftrightarrow> queueItemIDFromFileName f \<in> queueItemIDFromFileName ` set fs"
proof
  assume "queueItemIDFromFileName f \<in> queueItemIDFromFileName ` set fs"
  then obtain g where g: "g \<in> set fs" "queueItemIDFromFileName f = queueItemIDFromFileName g" by auto
  then have "g |\<in>| fmdom d" using assms(3) by auto
  from wfDir_D[OF assms(1) this] have "queueItemIDFromFileName g @ ''.json'' = g" using itemID(1) by metis
  then have "f = g" using g namesOf_ID[OF assms(1,2)] by metis
  then show "f \<in> set fs" using g by simp
qed simp

lemma storeInv_exists: "storeInv s \<Longrightarrow> storeInv (s\<lparr>qs_exists := True\<rparr>)"
  by (auto simp: storeInv_def tracks_def)

lemma Dequeue_ok:
  assumes "qio_rmIndexOk io" "storeInv s" and step: "Store_DequeueByName io name s = (r, s')"
  shows "storeInv s' \<and> (case r of Inr job \<Rightarrow> (\<exists>it its. itemsOf QueuePriorityHigh (qs_files s) @ itemsOf QueuePriorityLow (qs_files s) = it # its
       \<and> job = jobOf it \<and> qs_files s' = fmdrop (id_FileName it) (qs_files s)) | Inl _ \<Rightarrow> qs_files s' = qs_files s)"
proof -
  have s: "wfDir (qs_files s)" using assms(2) by (auto simp: storeInv_def)
  let ?q = "itemsOf QueuePriorityHigh (qs_files s) @ itemsOf QueuePriorityLow (qs_files s)"
  have err: ?thesis if "r = Inl e" "s' = s \<or> s' = s\<lparr>qs_exists := True\<rparr>" for e
    using that assms(2) storeInv_exists by auto
  show ?thesis
  proof (cases "qio_lockOk io \<and> ?q \<noteq> [] \<and> qio_rm io (id_FileName (hd ?q))")
    case False
    then consider "\<not> qio_lockOk io" | "qio_lockOk io" "?q = []"
      | it its where "qio_lockOk io" "?q = it # its" "\<not> qio_rm io (id_FileName it)"
      by (cases ?q) auto
    then show ?thesis
      by cases (use step err in \<open>auto simp: Store_DequeueByName_def Dequeue_eq[OF s] Let_def\<close>)
  next
    case True
    then obtain it its where q: "?q = it # its" by (cases ?q) auto
    let ?s = "s\<lparr>qs_exists := True, qs_files := fmdrop (id_FileName it) (qs_files s)\<rparr>"
    have r: "r = Inr (jobOf it)" "s' = removeFromIndex io [j_id (jobOf it)] ?s"
      using step True q by (auto simp: Store_DequeueByName_def Dequeue_eq[OF s] Let_def)
    have "\<exists>p. it \<in> set (itemsOf p (qs_files s))" using arg_cong[OF q, of set] by auto
    then obtain p where "id_FileName it \<in> set (namesOf p (qs_files s))"
      using itemsOf_names[OF s] by (metis image_eqI list.set_map)
    then have "set [id_FileName it] \<subseteq> fset (fmdom (qs_files s))" by (simp add: namesOf_def)
    then have "\<And>f p. f \<in> set (namesOf p (qs_files s)) \<Longrightarrow> f \<in> set [id_FileName it] \<longleftrightarrow> queueItemIDFromFileName f \<in> set [j_id (jobOf it)]"
      using ID_iff[OF s, of _ _ "[id_FileName it]"] by (simp add: jobOf_def)
    from drops_removeFromIndex[OF assms(1,2) this] show ?thesis using r q by simp
  qed
qed

lemma popMatching_drops:
  "popMatching rm run its d = (js, d') \<Longrightarrow>
    \<exists>fs. d' = fold fmdrop fs d \<and> map j_id js = map queueItemIDFromFileName fs \<and> set fs \<subseteq> fset (fmdom d)"
proof (induction rm run its d arbitrary: js d' rule: popMatching.induct)
  case (1 rm run d)
  then show ?case by (auto intro!: exI[of _ "[]"])
next
  case (2 rm run it its d)
  show ?case
  proof (cases "\<exists>job. ExtractJob (id_FileName it) d = Some job \<and> id_DAGRun (j_data job) = run \<and> rm (id_FileName it)")
    case True
    then obtain job where job: "ExtractJob (id_FileName it) d = Some job" "id_DAGRun (j_data job) = run" "rm (id_FileName it)" by blast
    obtain js' where js': "popMatching rm run its (fmdrop (id_FileName it) d) = (js', d')" "js = job # js'"
      using 2(4) job by (auto split: prod.splits)
    obtain fs where fs: "d' = fold fmdrop fs (fmdrop (id_FileName it) d)" "map j_id js' = map queueItemIDFromFileName fs"
      "set fs \<subseteq> fset (fmdom (fmdrop (id_FileName it) d))"
      using 2(2)[OF job(1) _ js'(1)] job by auto
    have "j_id job = queueItemIDFromFileName (id_FileName it)" "id_FileName it |\<in>| fmdom d"
      using job(1) by (auto simp: ExtractJob_def fmdomI split: option.splits)
    then show ?thesis using fs js'(2) by (intro exI[of _ "id_FileName it # fs"]) auto
  next
    case False
    then have "popMatching rm run its d = (js, d')" using 2(4) by (auto split: option.splits if_splits)
    then show ?thesis using 2(1,3) False by (cases "ExtractJob (id_FileName it) d") auto
  qed
qed

lemma DequeueRun_ok:
  assumes "qio_rmIndexOk io" "storeInv s" and step: "Store_DequeueByDAGRunID io name run s = (r, s')"
  shows "storeInv s' \<and> (\<exists>fs. qs_files s' = fold fmdrop fs (qs_files s))"
proof (cases "qio_lockOk io")
  case False
  then show ?thesis using step assms(2) by (auto simp: Store_DequeueByDAGRunID_def intro: exI[of _ "[]"])
next
  case True
  have s: "wfDir (qs_files s)" using assms(2) by (simp add: storeInv_def)
  obtain hs d1 where hs: "QF_PopByDAGRunID (qio_rm io) name ''high_'' run (qs_files s) = (hs, d1)" by fastforce
  obtain ls d2 where ls: "QF_PopByDAGRunID (qio_rm io) name ''low_'' run d1 = (ls, d2)" by fastforce
  obtain fs where fs: "d1 = fold fmdrop fs (qs_files s)" "map j_id hs = map queueItemIDFromFileName fs"
    "set fs \<subseteq> fset (fmdom (qs_files s))"
    using popMatching_drops hs unfolding QF_PopByDAGRunID_def by blast
  obtain gs where gs: "d2 = fold fmdrop gs d1" "map j_id ls = map queueItemIDFromFileName gs" "set gs \<subseteq> fset (fmdom d1)"
    using popMatching_drops ls unfolding QF_PopByDAGRunID_def by blast
  have dom: "fset (fmdom (fold fmdrop xs d)) \<subseteq> fset (fmdom d)" for xs :: "string list" and d :: QDir
    by (induction xs arbitrary: d) (simp, fastforce)
  let ?fs = "fs @ gs"
  have sub: "set ?fs \<subseteq> fset (fmdom (qs_files s))" using fs(1,3) gs(3) dom by fastforce
  have d2: "d2 = fold fmdrop ?fs (qs_files s)" using fs gs by simp
  have ids: "map j_id (hs @ ls) = map queueItemIDFromFileName ?fs" using fs(2) gs(2) by simp
  then have "set (map j_id (hs @ ls)) = queueItemIDFromFileName ` set ?fs" by (metis list.set_map)
  then have iff: "f \<in> set ?fs \<longleftrightarrow> queueItemIDFromFileName f \<in> set (map j_id (hs @ ls))" if "f \<in> set (namesOf p (qs_files s))" for f p
    using ID_iff[OF s that sub] by simp
  show ?thesis
  proof (cases "hs @ ls = []")
    case True
    then have "?fs = []" using ids by simp
    then have "s' = s\<lparr>qs_exists := True\<rparr>"
      using step \<open>qio_lockOk io\<close> hs ls d2 True by (simp add: Store_DequeueByDAGRunID_def DQ_DequeueByDAGRunID_def)
    then show ?thesis using storeInv_exists[OF assms(2)] by (auto intro: exI[of _ "[]"])
  next
    case False
    then have "s' = removeFromIndex io (map j_id (hs @ ls)) (s\<lparr>qs_exists := True, qs_files := fold fmdrop ?fs (qs_files s)\<rparr>)"
      using step \<open>qio_lockOk io\<close> hs ls d2 by (auto simp: Store_DequeueByDAGRunID_def DQ_DequeueByDAGRunID_def)
    moreover note drops_removeFromIndex[OF assms(1,2), of ?fs "map j_id (hs @ ls)"]
    ultimately show ?thesis using iff by blast
  qed
qed

lemma Delete_drops:
  "DQ_DeleteByItemIDs rm ids d = (n, None, d') \<Longrightarrow> \<forall>i\<in>set ids. CHR ''/'' \<notin> set i \<Longrightarrow>
    d' = fold fmdrop (map (\<lambda>i. i @ ''.json'') (filter (\<lambda>i. i \<noteq> '''') ids)) d"
proof (induction rm ids d arbitrary: n d' rule: DQ_DeleteByItemIDs.induct)
  case (2 rm i ids d)
  have f: "baseName (i @ ''.json'') = i @ ''.json''" using baseName_noslash 2(4) by simp
  consider "i = ''''" | "i \<noteq> ''''" "i @ ''.json'' |\<notin>| fmdom d" | "i \<noteq> ''''" "i @ ''.json'' |\<in>| fmdom d" by blast
  then show ?case
  proof cases
    case 1
    then show ?thesis using 2 f by simp
  next
    case c2: 2
    then have "fmdrop (i @ ''.json'') d = d" by (simp add: fmdrop_idle)
    then show ?thesis using c2 2 f by simp
  next
    case 3
    then show ?thesis using 2 f by (auto simp: Let_def split: if_splits prod.splits)
  qed
qed simp

lemma Delete_ok:
  assumes "qio_rmIndexOk io" "storeInv s" "\<forall>i\<in>set ids. CHR ''/'' \<notin> set i"
    and step: "Store_DeleteByItemIDs io ids s = ((n, None), s')"
  shows "storeInv s' \<and> qs_files s' = fold fmdrop (map (\<lambda>i. i @ ''.json'') (filter (\<lambda>i. i \<noteq> '''') ids)) (qs_files s)"
proof -
  have s: "wfDir (qs_files s)" using assms(2) by (simp add: storeInv_def)
  let ?fs = "map (\<lambda>i. i @ ''.json'') (filter (\<lambda>i. i \<noteq> '''') ids)"
  obtain m e d where d: "DQ_DeleteByItemIDs (qio_rm io) ids (qs_files s) = (m, e, d)" using prod_cases3 by blast
  have e: "e = None" "s' = removeFromIndex io ids (s\<lparr>qs_exists := True, qs_files := d\<rparr>)"
    using step d by (auto simp: Store_DeleteByItemIDs_def Let_def split: if_splits)
  have "d = fold fmdrop ?fs (qs_files s)" using Delete_drops[of "qio_rm io" ids "qs_files s"] d e(1) assms(3) by simp
  moreover have "f \<in> set ?fs \<longleftrightarrow> queueItemIDFromFileName f \<in> set ids" if "f \<in> set (namesOf p (qs_files s))" for f p
  proof
    assume "f \<in> set ?fs"
    then show "queueItemIDFromFileName f \<in> set ids" using assms(3) by auto
  next
    assume "queueItemIDFromFileName f \<in> set ids"
    then have "queueItemIDFromFileName f \<in> set (filter (\<lambda>i. i \<noteq> '''') ids)" using namesOf_ID_nonempty[OF s that] by simp
    then show "f \<in> set ?fs" unfolding set_map by (rule image_eqI[rotated]) (rule namesOf_ID[OF s that, symmetric])
  qed
  moreover note drops_removeFromIndex[OF assms(1,2), of ?fs ids]
  ultimately show ?thesis unfolding e(2) by blast
qed

end
