(* ===== verification/Queue_Refine.thy ===== *)
theory Queue_Refine
  imports Queue_Store
begin

text \<open>
  What the queue store promises: the listing read from the index is the order in which items are
  handed out, over every sequence of operations and every failure of the index; the store implements
  two first-in-first-out queues; and the ways in which the index goes wrong.
\<close>

section \<open>Sequences of operations\<close>

datatype StoreOp = OpEnqueue QueuePriority DAGRunRef UTC | OpDequeue | OpDequeueRun DAGRunRef
  | OpDelete "string list" | OpList

definition storeOp :: "QueueIO \<Rightarrow> string \<Rightarrow> StoreOp \<Rightarrow> QueueState \<Rightarrow> QueueState" where
  "storeOp io name op s = (case op of
       OpEnqueue p run t \<Rightarrow> snd (Store_Enqueue io p run t s)
     | OpDequeue \<Rightarrow> snd (Store_DequeueByName io name s)
     | OpDequeueRun run \<Rightarrow> snd (Store_DequeueByDAGRunID io name run s)
     | OpDelete ids \<Rightarrow> snd (Store_DeleteByItemIDs io ids s)
     | OpList \<Rightarrow> snd (Store_List io s))"

text \<open>
  The index file can be removed, a new item is later than those of its priority, and a deletion by ID is not
  interrupted by an item file that cannot be removed.  Every other failure is allowed.
\<close>

definition okOp :: "QueueIO \<Rightarrow> StoreOp \<Rightarrow> QueueState \<Rightarrow> bool" where
  "okOp io op s \<longleftrightarrow> qio_rmIndexOk io \<and> (case op of
       OpEnqueue p run t \<Rightarrow> fitsDir p (run, t) (qs_files s)
     | OpDelete ids \<Rightarrow> (\<forall>i\<in>set ids. CHR ''/'' \<notin> set i) \<and> (qio_lockOk io \<longrightarrow> snd (fst (Store_DeleteByItemIDs io ids s)) = None)
     | _ \<Rightarrow> True)"

definition emptyQueue :: QueueState where
  "emptyQueue = \<lparr>qs_exists = False, qs_files = fmempty, qs_index = None, qs_cache = None\<rparr>"

inductive queueReach :: "string \<Rightarrow> QueueState \<Rightarrow> bool" for name where
  queueReach_empty: "queueReach name emptyQueue"
| queueReach_step: "queueReach name s \<Longrightarrow> okOp io op s \<Longrightarrow> queueReach name (storeOp io name op s)"

lemma load_storeInv:
  assumes "storeInv s" "loadOrRebuildQueueIndex io s = (r, s')"
  shows "storeInv s' \<and> qs_files s' = qs_files s \<and> (\<forall>x. r = Inr x \<longrightarrow> indexes x (qs_files s))"
proof (cases "qs_exists s")
  case True
  have "wfDir (qs_files s)" "tracks (qs_files s) s" using assms(1) by (auto simp: storeInv_def)
  from load_ok[OF this True assms(2)] this show ?thesis by (auto simp: storeInv_def split: sum.splits)
next
  case False
  then show ?thesis using assms
    by (auto simp: loadOrRebuildQueueIndex_def storeInv_def tracks_def indexes_def newQueueReadIndex_def)
qed

lemma List_ok:
  assumes "storeInv s" "Store_List io s = (r, s')"
  shows "storeInv s' \<and> qs_files s' = qs_files s
    \<and> (\<forall>fs. r = Inr fs \<longrightarrow> fs = namesOf QueuePriorityHigh (qs_files s) @ namesOf QueuePriorityLow (qs_files s))"
proof -
  obtain l s1 where l: "loadOrRebuildQueueIndex io s = (l, s1)" by fastforce
  then show ?thesis using load_storeInv[OF assms(1) l] assms(2)
    by (cases l) (auto simp: Store_List_def indexes_def)
qed

lemma storeInv_empty: "storeInv emptyQueue"
  by (simp add: storeInv_def emptyQueue_def tracks_def wfDir_def)

lemma storeOp_inv:
  assumes "storeInv s" "okOp io op s"
  shows "storeInv (storeOp io name op s)"
proof (cases op)
  case (OpEnqueue p run t)
  then show ?thesis using Enqueue_ok[OF _ assms(1)] assms(2)
    by (cases "Store_Enqueue io p run t s") (auto simp: storeOp_def okOp_def)
next
  case OpDequeue
  then show ?thesis using Dequeue_ok[OF _ assms(1)] assms(2)
    by (cases "Store_DequeueByName io name s") (auto simp: storeOp_def okOp_def)
next
  case (OpDequeueRun run)
  then show ?thesis using DequeueRun_ok[OF _ assms(1)] assms(2)
    by (cases "Store_DequeueByDAGRunID io name run s") (auto simp: storeOp_def okOp_def)
next
  case (OpDelete ids)
  show ?thesis
  proof (cases "qio_lockOk io")
    case True
    then obtain n s' where "Store_DeleteByItemIDs io ids s = ((n, None), s')"
      using assms(2) OpDelete by (cases "Store_DeleteByItemIDs io ids s") (auto simp: okOp_def)
    then show ?thesis using Delete_ok[OF _ assms(1)] assms(2) OpDelete by (auto simp: storeOp_def okOp_def)
  next
    case False
    then show ?thesis using OpDelete assms(1) by (simp add: storeOp_def Store_DeleteByItemIDs_def)
  qed
next
  case OpList
  then show ?thesis using List_ok[OF assms(1)] by (cases "Store_List io s") (auto simp: storeOp_def)
qed

lemma queueReach_inv: "queueReach name s \<Longrightarrow> storeInv s"
  by (induction rule: queueReach.induct) (simp_all add: storeInv_empty storeOp_inv)

lemma DQ_List_eq:
  assumes "wfDir d"
  shows "DQ_List dir d = namesOf QueuePriorityHigh d @ namesOf QueuePriorityLow d"
  using listItems_eq[OF assms, of dir QueuePriorityHigh] listItems_eq[OF assms, of dir QueuePriorityLow]
    itemsOf_names[OF assms]
  by (simp add: DQ_List_def priorityPrefix_def comp_def)

lemma Drop_pending:
  assumes "wfDir d" "itemsOf QueuePriorityHigh d @ itemsOf QueuePriorityLow d = it # its"
  shows "itemsOf QueuePriorityHigh (fmdrop (id_FileName it) d) @ itemsOf QueuePriorityLow (fmdrop (id_FileName it) d) = its"
proof (cases "itemsOf QueuePriorityHigh d")
  case Nil
  then show ?thesis using assms Drop_head[OF assms(1), of QueuePriorityLow it its] by simp
next
  case (Cons a as)
  then show ?thesis using assms Drop_head[OF assms(1) Cons] by simp
qed

lemma pending_names:
  "wfDir d \<Longrightarrow> namesOf QueuePriorityHigh d @ namesOf QueuePriorityLow d
    = map id_FileName (itemsOf QueuePriorityHigh d @ itemsOf QueuePriorityLow d)"
  by (simp add: itemsOf_names)

lemma Dequeue_listing:
  assumes "storeInv s" "qio_rmIndexOk io" "Store_DequeueByName io name s = (Ok job, s')"
  shows "namesOf QueuePriorityHigh (qs_files s) @ namesOf QueuePriorityLow (qs_files s)
    = (j_id job @ ''.json'') # namesOf QueuePriorityHigh (qs_files s') @ namesOf QueuePriorityLow (qs_files s')"
proof -
  have wf: "wfDir (qs_files s)" "wfDir (qs_files s')"
    using assms(1) Dequeue_ok[OF assms(2,1,3)] by (auto simp: storeInv_def)
  obtain it its where it: "itemsOf QueuePriorityHigh (qs_files s) @ itemsOf QueuePriorityLow (qs_files s) = it # its"
    "job = jobOf it" "qs_files s' = fmdrop (id_FileName it) (qs_files s)"
    using Dequeue_ok[OF assms(2,1,3)] by auto
  have "\<exists>p. it \<in> set (itemsOf p (qs_files s))" using arg_cong[OF it(1), of set] by auto
  then have "j_id job @ ''.json'' = id_FileName it"
    using itemID(1) itemsOf_itemOf[OF wf(1)] it(2) by (auto simp: jobOf_def)
  then show ?thesis
    unfolding pending_names[OF wf(1)] pending_names[OF wf(2)] it(1) using it(3) Drop_pending[OF wf(1) it(1)] by simp
qed


section \<open>Two first-in-first-out queues\<close>

text \<open>A store whose locks, reads and writes succeed.\<close>

definition goodIO :: "int \<Rightarrow> int \<Rightarrow> QueueIO" where
  "goodIO now m = \<lparr>qio_now = now, qio_mtime = m, qio_statOk = True, qio_lockOk = True, qio_writeOk = True,
     qio_rm = (\<lambda>_. True), qio_readDirOk = True, qio_rebuildOk = True, qio_saveOk = True, qio_rmIndexOk = True\<rparr>"

lemma goodIO_sel [simp]:
  "qio_now (goodIO now m) = now" "qio_mtime (goodIO now m) = m" "qio_statOk (goodIO now m)" "qio_lockOk (goodIO now m)"
  "qio_writeOk (goodIO now m)" "qio_rm (goodIO now m) f" "qio_readDirOk (goodIO now m)" "qio_rebuildOk (goodIO now m)"
  "qio_saveOk (goodIO now m)" "qio_rmIndexOk (goodIO now m)"
  by (simp_all add: goodIO_def)

lemma load_good: "\<exists>x s'. loadOrRebuildQueueIndex (goodIO now m) s = (Ok x, s')"
  by (auto simp: loadOrRebuildQueueIndex_def rebuildQueueIndex_def readQueueIndex_def saveQueueIndex_def Let_def
      split: option.splits prod.splits IndexFile.splits)

lemma Enqueue_good:
  assumes "storeInv s" "fitsDir p (run, t) (qs_files s)"
  shows "\<exists>s'. Store_Enqueue (goodIO now m) p run t s = (Ok (), s') \<and> storeInv s' \<and> qs_files s' = pushDir p run t (qs_files s)"
proof -
  obtain x s1 where "loadOrRebuildQueueIndex (goodIO now m) s = (Ok x, s1)" using load_good by blast
  then obtain s' where "Store_Enqueue (goodIO now m) p run t s = (Ok (), s')"
    by (simp add: Store_Enqueue_def finishEnqueue_def Push_eq)
  then show ?thesis using Enqueue_ok[OF goodIO_sel(10) assms] by fastforce
qed

lemma Dequeue_good:
  assumes "storeInv s"
  shows "case itemsOf QueuePriorityHigh (qs_files s) @ itemsOf QueuePriorityLow (qs_files s) of
      [] \<Rightarrow> fst (Store_DequeueByName (goodIO now m) name s) = Err ErrQueueEmpty
    | it # its \<Rightarrow> \<exists>s'. Store_DequeueByName (goodIO now m) name s = (Ok (jobOf it), s') \<and> storeInv s'
        \<and> qs_files s' = fmdrop (id_FileName it) (qs_files s)"
proof -
  have wf: "wfDir (qs_files s)" using assms by (simp add: storeInv_def)
  show ?thesis
  proof (cases "itemsOf QueuePriorityHigh (qs_files s) @ itemsOf QueuePriorityLow (qs_files s)")
    case Nil
    then show ?thesis by (simp add: Store_DequeueByName_def Dequeue_eq[OF wf] Let_def)
  next
    case (Cons it its)
    then obtain s' where "Store_DequeueByName (goodIO now m) name s = (Ok (jobOf it), s')"
      by (simp add: Store_DequeueByName_def Dequeue_eq[OF wf] Let_def)
    then show ?thesis using Dequeue_ok[OF goodIO_sel(10) assms] Cons by fastforce
  qed
qed

text \<open>One dequeue as an item and the state after it, the form of the interface.\<close>

definition takeItem :: "int \<Rightarrow> int \<Rightarrow> string \<Rightarrow> QueueState \<Rightarrow> (ItemData \<times> QueueState) option" where
  "takeItem now m name s = (case Store_DequeueByName (goodIO now m) name s of
     (Inr job, s') \<Rightarrow> Some (j_data job, s') | _ \<Rightarrow> None)"

lemma takeItem_eq:
  assumes "storeInv s"
  shows "case itemsOf QueuePriorityHigh (qs_files s) @ itemsOf QueuePriorityLow (qs_files s) of
      [] \<Rightarrow> takeItem now m name s = None
    | it # its \<Rightarrow> \<exists>s'. takeItem now m name s = Some (it, s') \<and> storeInv s' \<and> qs_files s' = fmdrop (id_FileName it) (qs_files s)"
  using Dequeue_good[OF assms, of now m name]
  by (auto simp: takeItem_def jobOf_def split: list.splits prod.splits sum.splits)

interpretation store: priority_fifo storeInv "\<lambda>p s. itemsOf p (qs_files s)" "\<lambda>p e s. fitsDir p e (qs_files s)"
  "\<lambda>p e. pushedItem p (fst e) (snd e)" "\<lambda>p e s. snd (Store_Enqueue (goodIO now m) p (fst e) (snd e) s)"
  "takeItem now m name" for now m name
proof (unfold_locales, goal_cases)
  case (1 s p e)
  then show ?case using Enqueue_good[of s p "fst e" "snd e" now m] by auto
next
  case (2 s p e q)
  then show ?case using Enqueue_good[of s p "fst e" "snd e" now m] Push_items[of "qs_files s" "fst e" "snd e" p]
    by (auto simp: fitsDir_def storeInv_def)
next
  case (3 s)
  then show ?case using takeItem_eq[OF 3, of now m name] by (auto split: list.splits)
next
  case (4 s i s')
  then show ?case using takeItem_eq[OF 4(1), of now m name] by (auto split: list.splits)
next
  case (5 s i s' j js)
  then show ?case using takeItem_eq[OF 5(1), of now m name] Drop_head[of "qs_files s" QueuePriorityHigh j js]
    by (auto simp: storeInv_def)
next
  case (6 s i s' j js)
  then show ?case using takeItem_eq[OF 6(1), of now m name] Drop_head[of "qs_files s" QueuePriorityLow j js]
    by (auto simp: storeInv_def)
qed

primrec fillQueue :: "int \<Rightarrow> int \<Rightarrow> (QueuePriority \<times> DAGRunRef \<times> UTC) list \<Rightarrow> QueueState \<Rightarrow> QueueState" where
  "fillQueue now m [] s = s"
| "fillQueue now m (e # es) s = fillQueue now m es (snd (Store_Enqueue (goodIO now m) (fst e) (fst (snd e)) (snd (snd e)) s))"

primrec drainQueue :: "int \<Rightarrow> int \<Rightarrow> string \<Rightarrow> nat \<Rightarrow> QueueState \<Rightarrow> ItemData list \<times> QueueState" where
  "drainQueue now m name 0 s = ([], s)"
| "drainQueue now m name (Suc k) s = (case takeItem now m name s of None \<Rightarrow> ([], s)
     | Some (i, s') \<Rightarrow> (let (is, t) = drainQueue now m name k s' in (i # is, t)))"

lemma fill_enqs: "fillQueue now m es s = store.enqs now m es s"
  by (induction es arbitrary: s) simp_all

lemma drain_deqs: "drainQueue now m name k s = store.deqs now m name k s"
  by (induction k arbitrary: s) (simp_all split: option.splits)

definition queueable :: "(QueuePriority \<times> DAGRunRef \<times> UTC) list \<Rightarrow> bool" where
  "queueable es \<longleftrightarrow> list_all (\<lambda>e. pushable (fst (snd e)) (snd (snd e))) es
     \<and> sorted_wrt (\<lambda>a b. Before (snd (snd a)) (snd (snd b))) es"

lemma queueable_fits:
  assumes "queueable es" "storeInv s" "\<forall>e\<in>set es. \<forall>p. \<forall>it\<in>set (itemsOf p (qs_files s)). Before (id_QueuedAt it) (snd (snd e))"
  shows "store.fitsAll now m es s"
  using assms
proof (induction es arbitrary: s)
  case (Cons e es)
  let ?s = "snd (Store_Enqueue (goodIO now m) (fst e) (fst (snd e)) (snd (snd e)) s)"
  have fit: "fitsDir (fst e) (snd e) (qs_files s)" using Cons.prems by (auto simp: fitsDir_def queueable_def)
  have "storeInv ?s" using store.enq_inv[OF Cons.prems(2) fit] .
  moreover have "\<forall>e'\<in>set es. \<forall>p. \<forall>it\<in>set (itemsOf p (qs_files ?s)). Before (id_QueuedAt it) (snd (snd e'))"
    using Cons.prems store.enq_items[OF Cons.prems(2) fit] by (auto simp: queueable_def pushedItem_def)
  ultimately show ?case using Cons.IH[of ?s] Cons.prems(1) fit by (auto simp: queueable_def)
qed simp

text \<open>C8: the store refines two first-in-first-out queues served by priority: after any number of enqueues at
  increasing times, \<open>k\<close> calls of \<open>DequeueByName\<close> hand out the first \<open>k\<close> of the
  high-priority items in order of arrival followed by the low-priority ones, and the listing is the rest.\<close>

theorem store_serves_by_priority:
  assumes "queueable es"
  shows "let q = map (\<lambda>e. pushedItem QueuePriorityHigh (fst (snd e)) (snd (snd e))) (filter (\<lambda>e. fst e = QueuePriorityHigh) es)
             @ map (\<lambda>e. pushedItem QueuePriorityLow (fst (snd e)) (snd (snd e))) (filter (\<lambda>e. fst e = QueuePriorityLow) es);
           (is, s) = drainQueue now m name k (fillQueue now m es emptyQueue)
         in is = take k q \<and> fst (Store_List (goodIO now' m') s) = Ok (map id_FileName (drop k q))"
proof -
  let ?q = "map (\<lambda>e. pushedItem QueuePriorityHigh (fst (snd e)) (snd (snd e))) (filter (\<lambda>e. fst e = QueuePriorityHigh) es)
    @ map (\<lambda>e. pushedItem QueuePriorityLow (fst (snd e)) (snd (snd e))) (filter (\<lambda>e. fst e = QueuePriorityLow) es)"
  let ?s = "fillQueue now m es emptyQueue"
  have none: "itemsOf p (qs_files emptyQueue) = []" for p by (simp add: itemsOf_def emptyQueue_def)
  have "store.fitsAll now m es emptyQueue" using queueable_fits[OF assms storeInv_empty] none by simp
  note E = store.enqs_items[OF storeInv_empty this, folded fill_enqs]
  have pend: "store.pending ?s = ?q" using E none by (simp add: store.pending_def)
  have inv: "storeInv ?s" using E by blast
  obtain r s' where d: "drainQueue now m name k ?s = (r, s')" by fastforce
  have rest: "r = take k ?q" "storeInv s'" "store.pending s' = drop k ?q"
    using store.deqs_take[OF inv, of now m name k] store.deqs_rest[OF inv, of now m name k] d pend by (simp_all add: drain_deqs)
  obtain x s1 where "loadOrRebuildQueueIndex (goodIO now' m') s' = (Ok x, s1)" using load_good by blast
  then obtain fs where fs: "Store_List (goodIO now' m') s' = (Ok fs, s1)" by (simp add: Store_List_def)
  have "fs = map id_FileName (store.pending s')"
    using List_ok[OF rest(2) fs] pending_names[of "qs_files s'"] rest(2) by (simp add: store.pending_def storeInv_def)
  then show ?thesis using d fs rest by simp
qed

definition clockAt :: "nat \<Rightarrow> UTC" where
  "clockAt n = \<lparr>u_year = 2026, u_month = 1, u_day = 2, u_hour = 3, u_min = 4, u_sec = 5, u_nano = n\<rparr>"

definition runRef :: "string \<Rightarrow> DAGRunRef" where
  "runRef i = \<lparr>dr_Name = ''etl'', dr_ID = i\<rparr>"

lemma clockAt_valid: "n < 10 ^ 9 \<Longrightarrow> validUTC (clockAt n)"
  by (simp add: clockAt_def validUTC_def validDateTime_def daysIn_def)

lemma clockAt_Before: "Before (clockAt a) (clockAt b) \<longleftrightarrow> a < b"
  by (simp add: clockAt_def Before_def timeFields_def)

theorem store_serves_by_priority_witness:
  "let es = [(QueuePriorityLow, runRef ''a'', clockAt 1), (QueuePriorityHigh, runRef ''b'', clockAt 2),
             (QueuePriorityLow, runRef ''c'', clockAt 3)]
   in queueable es \<and> map (dr_ID \<circ> id_DAGRun) (fst (drainQueue 7 8 ''etl'' 2 (fillQueue 7 8 es emptyQueue))) = [''b'', ''a'']"
proof -
  let ?es = "[(QueuePriorityLow, runRef ''a'', clockAt 1), (QueuePriorityHigh, runRef ''b'', clockAt 2),
             (QueuePriorityLow, runRef ''c'', clockAt 3)]"
  have q: "queueable ?es" by (simp add: queueable_def pushable_def clockAt_valid clockAt_Before runRef_def)
  show ?thesis
    using store_serves_by_priority[OF q, of 7 8 "''etl''" 2 7 8] q
    by (auto simp: pushedItem_def runRef_def Let_def split: prod.splits)
qed

definition raceName :: "string \<Rightarrow> nat \<Rightarrow> string" where
  "raceName i n = id_FileName (pushedItem QueuePriorityLow (runRef i) (clockAt n))"

text \<open>Two processes enqueue; the first has read the index before the second one writes it.\<close>

definition enqueueRace :: QueueState where
  "enqueueRace =
     (case loadOrRebuildQueueIndex (goodIO 10 20) emptyQueue of (Inl e, s) \<Rightarrow> s
      | (Inr x, s1) \<Rightarrow>
         (let s2 = snd (Store_Enqueue (goodIO 11 21) QueuePriorityLow (runRef ''b'') (clockAt 1) (s1\<lparr>qs_cache := None\<rparr>))
          in snd (finishEnqueue (goodIO 12 22) QueuePriorityLow (runRef ''a'') (clockAt 2) x (s2\<lparr>qs_cache := qs_cache s1\<rparr>))))"

lemmas store_defs = finishEnqueue_def Store_Enqueue_def saveOrInvalidate_def saveQueueIndex_def loadOrRebuildQueueIndex_def
  readQueueIndex_def newQueueReadIndex_def index_append_def index_touch_def index_total_def ensureDefaults_def queueIndexVersion_def

lemma two_pushes:
  assumes "a < b" and ok: "pushable (runRef x) (clockAt a)" "pushable (runRef y) (clockAt b)"
  shows "wfDir (pushDir p (runRef y) (clockAt b) (pushDir p (runRef x) (clockAt a) fmempty))
    \<and> namesOf p (pushDir p (runRef y) (clockAt b) (pushDir p (runRef x) (clockAt a) fmempty))
        = [id_FileName (pushedItem p (runRef x) (clockAt a)), id_FileName (pushedItem p (runRef y) (clockAt b))]
    \<and> (\<forall>q. q \<noteq> p \<longrightarrow> namesOf q (pushDir p (runRef y) (clockAt b) (pushDir p (runRef x) (clockAt a) fmempty)) = [])"
proof -
  let ?d = "pushDir p (runRef x) (clockAt a) fmempty"
  have d0: "wfDir fmempty" "\<And>q. itemsOf q fmempty = []" by (simp_all add: wfDir_def itemsOf_def)
  note 1 = Push_items[OF d0(1) ok(1), of p, unfolded d0(2) namesOf_empty, simplified]
  have "\<forall>it\<in>set (itemsOf p ?d). Before (id_QueuedAt it) (clockAt b)"
    using 1 assms(1) by (simp add: pushedItem_def clockAt_Before)
  from Push_items[OF _ ok(2) this] 1 show ?thesis
    using itemsOf_names[of "pushDir p (runRef y) (clockAt b) ?d"] by (metis append_Cons append_Nil map_is_Nil_conv)
qed

text \<open>C9: \<open>Enqueue\<close> reads, changes and writes the index without the directory lock.  When two processes enqueue
  at once, the one that wrote the index first loses its entry: both items are in the directory, but the
  listing that the queue processor starts runs from holds only the other one, and the stale
  index is taken as valid by every later reader.\<close>

theorem enqueue_race_hides_item:
  "DQ_List ''etl'' (qs_files enqueueRace) = [raceName ''b'' 1, raceName ''a'' 2]
   \<and> fst (Store_List io (enqueueRace\<lparr>qs_cache := None\<rparr>)) = Ok [raceName ''a'' 2]
   \<and> qs_index (snd (Store_List io (enqueueRace\<lparr>qs_cache := None\<rparr>))) = qs_index enqueueRace"
proof -
  have files: "qs_files enqueueRace = pushDir QueuePriorityLow (runRef ''a'') (clockAt 2) (pushDir QueuePriorityLow (runRef ''b'') (clockAt 1) fmempty)"
    by (simp add: enqueueRace_def emptyQueue_def store_defs Push_eq Let_def)
  have "pushable (runRef ''b'') (clockAt 1)" "pushable (runRef ''a'') (clockAt 2)"
    by (simp_all add: pushable_def clockAt_valid runRef_def)
  note P = two_pushes[OF _ this, of QueuePriorityLow]
  have "DQ_List ''etl'' (qs_files enqueueRace) = [raceName ''b'' 1, raceName ''a'' 2]"
    using P unfolding files by (simp add: DQ_List_eq raceName_def)
  moreover have "fst (Store_List io (enqueueRace\<lparr>qs_cache := None\<rparr>)) = Ok [raceName ''a'' 2]
      \<and> qs_index (snd (Store_List io (enqueueRace\<lparr>qs_cache := None\<rparr>))) = qs_index enqueueRace"
    by (simp add: Store_List_def enqueueRace_def emptyQueue_def store_defs Push_eq Let_def raceName_def)
  ultimately show ?thesis by blast
qed

text \<open>When \<open>DeleteByItemIDs\<close> meets a file it cannot remove it returns at once, without bringing the index up to
  date with the files it has removed: the listing keeps an item whose file is gone.\<close>

theorem delete_error_leaves_ghost:
  "let s = fillQueue 10 20 [(QueuePriorityLow, runRef ''a'', clockAt 1), (QueuePriorityLow, runRef ''b'', clockAt 2)] emptyQueue;
       a = raceName ''a'' 1; b = raceName ''b'' 2;
       io = (goodIO 11 21)\<lparr>qio_rm := (\<lambda>f. f \<noteq> b)\<rparr>;
       (r, s') = Store_DeleteByItemIDs io [queueItemIDFromFileName a, queueItemIDFromFileName b] s
   in r = (1, Some (ErrRemove b)) \<and> DQ_List ''etl'' (qs_files s') = [b] \<and> fst (Store_List (goodIO 12 22) s') = Ok [a, b]"
proof -
  let ?s = "fillQueue 10 20 [(QueuePriorityLow, runRef ''a'', clockAt 1), (QueuePriorityLow, runRef ''b'', clockAt 2)] emptyQueue"
  let ?a = "raceName ''a'' 1" and ?b = "raceName ''b'' 2"
  let ?d = "pushDir QueuePriorityLow (runRef ''b'') (clockAt 2) (pushDir QueuePriorityLow (runRef ''a'') (clockAt 1) fmempty)"
  let ?io = "(goodIO 11 21)\<lparr>qio_rm := (\<lambda>f. f \<noteq> ?b)\<rparr>"
  have files: "qs_files ?s = ?d"
    by (simp add: emptyQueue_def store_defs Push_eq Let_def)
  have "pushable (runRef ''a'') (clockAt 1)" "pushable (runRef ''b'') (clockAt 2)"
    by (simp_all add: pushable_def clockAt_valid runRef_def)
  from two_pushes[OF _ this, of QueuePriorityLow]
  have d: "wfDir ?d" "namesOf QueuePriorityLow ?d = [?a, ?b]" "namesOf QueuePriorityHigh ?d = []"
    by (simp_all add: raceName_def)
  have ab: "?a \<noteq> ?b" using namesOf_sorted(2)[of QueuePriorityLow ?d] d(2) by simp
  have f: "baseName (queueItemIDFromFileName f @ ''.json'') = f" "queueItemIDFromFileName f \<noteq> ''''" "f |\<in>| fmdom ?d" "f \<noteq> ''.json''"
    if "f \<in> {?a, ?b}" for f
  proof -
    have n: "f \<in> set (namesOf QueuePriorityLow ?d)" using that d(2) by auto
    show "baseName (queueItemIDFromFileName f @ ''.json'') = f" "f \<noteq> ''.json''"
      using namesOf_ID[OF d(1) n] namesOf_ID_nonempty[OF d(1) n] namesOf_wf(2,3)[OF d(1) n] itemID(2) baseName_noslash
      by (metis, metis append_Nil append_same_eq)
    show "queueItemIDFromFileName f \<noteq> ''''" using namesOf_ID_nonempty[OF d(1) n] .
    show "f |\<in>| fmdom ?d" using n by (simp add: namesOf_def)
  qed
  have del: "DQ_DeleteByItemIDs (qio_rm ?io) [queueItemIDFromFileName ?a, queueItemIDFromFileName ?b] ?d
      = (1, Some (ErrRemove ?b), fmdrop ?a ?d)"
    using f[of ?a] f[of ?b] ab by (simp add: Let_def)
  have "DQ_List ''etl'' (fmdrop ?a ?d) = [?b]"
    using d ab Drop_items(1)[OF d(1)] by (simp add: DQ_List_eq namesOf_drop)
  moreover have "fst (Store_List (goodIO 12 22) (?s\<lparr>qs_exists := True, qs_files := fmdrop ?a ?d\<rparr>)) = Ok [?a, ?b]"
    by (simp add: Store_List_def emptyQueue_def store_defs Push_eq Let_def raceName_def)
  ultimately show ?thesis
    using del files by (simp add: Store_DeleteByItemIDs_def Let_def del: fillQueue.simps DQ_DeleteByItemIDs.simps)
qed

definition twoQueued :: QueueState where
  "twoQueued = storeOp (goodIO 10 20) ''etl'' (OpEnqueue QueuePriorityLow (runRef ''b'') (clockAt 2))
     (storeOp (goodIO 10 20) ''etl'' (OpEnqueue QueuePriorityLow (runRef ''a'') (clockAt 1)) emptyQueue)"

lemma twoQueued_files: "qs_files twoQueued =
    pushDir QueuePriorityLow (runRef ''b'') (clockAt 2) (pushDir QueuePriorityLow (runRef ''a'') (clockAt 1) fmempty)"
  by (simp add: twoQueued_def storeOp_def emptyQueue_def store_defs Push_eq Let_def)

lemma ref_pushable: "pushable (runRef ''a'') (clockAt 1)" "pushable (runRef ''b'') (clockAt 2)"
  by (simp_all add: pushable_def clockAt_valid runRef_def)

lemma twoQueued_list: "DQ_List ''etl'' (qs_files twoQueued) = [raceName ''a'' 1, raceName ''b'' 2]"
  using two_pushes[OF _ ref_pushable, of QueuePriorityLow]
  by (simp add: twoQueued_files DQ_List_eq raceName_def)

lemma twoQueued_reach: "queueReach ''etl'' twoQueued"
proof -
  let ?s = "storeOp (goodIO 10 20) ''etl'' (OpEnqueue QueuePriorityLow (runRef ''a'') (clockAt 1)) emptyQueue"
  have none: "itemsOf p fmempty = []" "wfDir fmempty" for p by (simp_all add: itemsOf_def wfDir_def)
  have "okOp (goodIO 10 20) (OpEnqueue QueuePriorityLow (runRef ''a'') (clockAt 1)) emptyQueue"
    using ref_pushable none by (simp add: okOp_def fitsDir_def emptyQueue_def)
  then have 1: "queueReach ''etl'' ?s" by (rule queueReach_step[OF queueReach_empty])
  have "qs_files ?s = pushDir QueuePriorityLow (runRef ''a'') (clockAt 1) fmempty"
    by (simp add: storeOp_def emptyQueue_def store_defs Push_eq Let_def)
  then have "okOp (goodIO 10 20) (OpEnqueue QueuePriorityLow (runRef ''b'') (clockAt 2)) ?s"
    using Push_items[OF none(2) ref_pushable(1), of QueuePriorityLow] ref_pushable(2) none(1)
    by (simp add: okOp_def fitsDir_def pushedItem_def clockAt_Before)
  from queueReach_step[OF 1 this] show ?thesis unfolding twoQueued_def .
qed

lemma List_good:
  assumes "storeInv s"
  shows "\<exists>s1. Store_List (goodIO now m) s = (Ok (DQ_List name (qs_files s)), s1)"
proof -
  obtain x s1 where "loadOrRebuildQueueIndex (goodIO now m) s = (Ok x, s1)" using load_good by blast
  then have l: "Store_List (goodIO now m) s = (Ok (qi_High x @ qi_Low x), s1)" by (simp add: Store_List_def)
  then show ?thesis using List_ok[OF assms l] assms by (simp add: DQ_List_eq storeInv_def)
qed


end
