(* ===== verification/Queue_Cursor.thy ===== *)
theory Queue_Cursor
  imports Queue_Refine "HOL-Library.Countable"
begin

text \<open>
  Paging through a queue: \<open>ListCursor\<close> of the queue store, and the loop of the frontend that collects the visible
  items of a page (\<open>listVisibleQueuedItems\<close> in \<open>internal/service/frontend/api/v1/queues.go\<close>).
\<close>

section \<open>Positions in the index\<close>

definition listed :: "queueReadIndex \<Rightarrow> string list" where
  "listed x = qi_High x @ qi_Low x"

lemma total_listed: "index_total x = length (listed x)"
  by (simp add: index_total_def listed_def)

lemma itemFileNameAt_listed:
  "index_itemFileNameAt x (int k) = (if k < length (listed x) then Some (listed x ! k) else None)"
  by (auto simp: index_itemFileNameAt_def listed_def nth_append nat_diff_distrib)

lemma sliceFrom_listed: "sliceFrom x (int k) n = take n (drop k (listed x))"
proof (induction n arbitrary: k)
  case (Suc n)
  have "int k + 1 = int (Suc k)" by simp
  then show ?case using Suc[of "Suc k"] by (auto simp: itemFileNameAt_listed Cons_nth_drop_Suc[symmetric] add.commute)
qed simp

lemma slice_listed: "0 < b \<Longrightarrow> index_slice x (int k) (int b) = take b (drop k (listed x))"
proof -
  assume "0 < b"
  have "nat (min (int k + int b) (int (length (listed x))) - int k) = min b (length (listed x) - k)" by auto
  then show ?thesis using \<open>0 < b\<close> by (auto simp: index_slice_def total_listed sliceFrom_listed Let_def min_def)
qed

lemma findPos_Some: "findPos i fs = Some k \<Longrightarrow> k < length fs \<and> queueItemIDFromFileName (fs ! k) = i"
  by (induction fs arbitrary: k) (auto split: if_splits)

lemma findPos_None: "findPos i fs = None \<longleftrightarrow> i \<notin> queueItemIDFromFileName ` set fs"
  by (induction fs) auto

lemma findItemOffset_listed:
  "index_findItemOffset x i = -1 \<and> i \<notin> queueItemIDFromFileName ` set (listed x)
   \<or> (\<exists>k. index_findItemOffset x i = int k \<and> k < length (listed x) \<and> queueItemIDFromFileName (listed x ! k) = i)"
proof (cases "findPos i (qi_High x)")
  case None
  show ?thesis
  proof (cases "findPos i (qi_Low x)")
    case None
    then have "i \<notin> queueItemIDFromFileName ` set (listed x)"
      using \<open>findPos i (qi_High x) = None\<close> by (auto simp: findPos_None listed_def)
    then show ?thesis using None \<open>findPos i (qi_High x) = None\<close> by (simp add: index_findItemOffset_def)
  next
    case (Some k)
    then show ?thesis using \<open>findPos i (qi_High x) = None\<close> findPos_Some[OF Some]
      by (auto simp: index_findItemOffset_def listed_def nth_append intro!: exI[of _ "length (qi_High x) + k"])
  qed
next
  case (Some k)
  then show ?thesis using findPos_Some[OF Some] by (auto simp: index_findItemOffset_def listed_def nth_append intro!: exI[of _ k])
qed

text \<open>A cursor made after item \<open>f\<close> resolves to the position after \<open>f\<close>, wherever that is now.\<close>

lemma resolveStart_after:
  assumes "distinct (map queueItemIDFromFileName (listed x))" "qc_AfterItemID c = queueItemIDFromFileName f"
    "queueItemIDFromFileName f \<noteq> ''''" "0 < qc_Offset c" "inj_on queueItemIDFromFileName (insert f (set (listed x)))"
  shows "index_resolveStart x c = (if f \<in> set (listed x)
    then Ok (1 + int (length (takeWhile (\<lambda>g. g \<noteq> f) (listed x)))) else Err ErrInvalidCursor)"
proof -
  let ?L = "listed x" and ?i = "queueItemIDFromFileName f"
  have pos: "k = length (takeWhile (\<lambda>g. g \<noteq> f) ?L) \<and> f \<in> set ?L" if "k < length ?L" "queueItemIDFromFileName (?L ! k) = ?i" for k
  proof -
    have f: "?L ! k = f" using that assms(5) by (auto simp: inj_on_def)
    then have mem: "f \<in> set ?L" using that(1) by auto
    have "takeWhile (\<lambda>g. g \<noteq> f) ?L = take k ?L"
    proof (rule takeWhile_eq_take_P_nth)
      fix i assume "i < k" "i < length ?L"
      then show "?L ! i \<noteq> f" using f that(1) assms(1) by (auto simp: distinct_map nth_eq_iff_index_eq)
    qed (use f in simp)
    then show ?thesis using that(1) mem by simp
  qed
  have at: "?thesis" if "qc_Offset c = int (Suc k)" "k < length ?L" "queueItemIDFromFileName (?L ! k) = ?i" for k
    using that pos[OF that(2,3)] assms(2-4) itemFileNameAt_listed[of x k] by (simp add: index_resolveStart_def)
  obtain k where k: "qc_Offset c = int (Suc k)" using assms(4) by (metis gr0_implies_Suc zero_less_imp_eq_int of_nat_0_less_iff)
  show ?thesis
  proof (cases "k < length ?L \<and> queueItemIDFromFileName (?L ! k) = ?i")
    case True
    then show ?thesis using at[OF k] by blast
  next
    case False
    then have 1: "\<not> (map_option queueItemIDFromFileName (index_itemFileNameAt x (qc_Offset c - 1)) = Some (qc_AfterItemID c))"
      using k assms(2) by (auto simp: itemFileNameAt_listed)
    from findItemOffset_listed[of x ?i] show ?thesis
    proof
      assume "index_findItemOffset x ?i = -1 \<and> ?i \<notin> queueItemIDFromFileName ` set ?L"
      then show ?thesis using 1 assms(2-4) by (auto simp: index_resolveStart_def)
    next
      assume "\<exists>k. index_findItemOffset x ?i = int k \<and> k < length ?L \<and> queueItemIDFromFileName (?L ! k) = ?i"
      then obtain j where "index_findItemOffset x ?i = int j" "j < length ?L" "queueItemIDFromFileName (?L ! j) = ?i" by blast
      then show ?thesis using 1 assms(2-4) pos[of j] by (auto simp: index_resolveStart_def)
    qed
  qed
qed

section \<open>Pages\<close>

lemma listed_index: "indexes x d \<Longrightarrow> listed x = namesOf QueuePriorityHigh d @ namesOf QueuePriorityLow d"
  by (simp add: indexes_def listed_def)

lemma listed_dom: "indexes x d \<Longrightarrow> f \<in> set (listed x) \<Longrightarrow> \<exists>p. f \<in> set (namesOf p d)"
  by (auto simp: listed_index)

lemma listed_ID:
  assumes "wfDir d" "indexes x d" "f \<in> set (listed x)"
  shows "queueItemIDFromFileName f @ ''.json'' = f" "queueItemIDFromFileName f \<noteq> ''''"
  using listed_dom[OF assms(2,3)] namesOf_ID[OF assms(1)] namesOf_ID_nonempty[OF assms(1)] by blast+

lemma listed_distinct:
  assumes "wfDir d" "indexes x d"
  shows "distinct (map queueItemIDFromFileName (listed x))"
proof -
  have "set (namesOf QueuePriorityHigh d) \<inter> set (namesOf QueuePriorityLow d) = {}"
  proof (rule ccontr)
    assume "set (namesOf QueuePriorityHigh d) \<inter> set (namesOf QueuePriorityLow d) \<noteq> {}"
    then obtain f where f: "f \<in> set (namesOf QueuePriorityHigh d)" "f \<in> set (namesOf QueuePriorityLow d)" by blast
    then show False
      using itemOf_prefix[OF namesOf_wf(3)[OF assms(1) f(1)], of QueuePriorityLow] namesOf_wf(2)[OF assms(1) f(1)]
      by (simp add: namesOf_def)
  qed
  then have "distinct (listed x)" using namesOf_sorted(2) by (simp add: listed_index[OF assms(2)])
  moreover have "inj_on queueItemIDFromFileName (set (listed x))"
    using listed_ID(1)[OF assms] by (intro inj_onI) metis
  ultimately show ?thesis by (simp add: distinct_map)
qed

lemma ListCursor_page:
  assumes "loadOrRebuildQueueIndex io s = (Ok x, s1)" "decodeQueueReadCursor dec name c = Ok c'"
    "index_resolveStart x c' = Ok (int k)" "0 < b"
  shows "Store_ListCursor enc dec io name c (int b) s =
    (let fs = take b (drop k (listed x)); more = (k + length fs < length (listed x))
     in (Ok \<lparr>cr_Items = fs, cr_HasMore = more,
            cr_NextCursor = (if more \<and> fs \<noteq> [] then encodeQueueReadCursor enc name x (int (k + length fs)) (last fs) else '''')\<rparr>, s1))"
  using assms
  by (simp add: Store_ListCursor_def slice_listed total_listed Let_def of_nat_add[symmetric]
      del: of_nat_add length_take length_drop)

lemma List_loads:
  assumes "Store_List io s = (Ok fs, s')"
  shows "\<exists>x. loadOrRebuildQueueIndex io s = (Ok x, s') \<and> fs = listed x"
proof -
  obtain l s1 where l: "loadOrRebuildQueueIndex io s = (l, s1)" by fastforce
  then show ?thesis using assms by (cases l) (auto simp: Store_List_def listed_def)
qed

lemma resolveStart_nonneg: "index_resolveStart x c = Ok st \<Longrightarrow> 0 \<le> st"
  by (auto simp: index_resolveStart_def split: if_splits)

text \<open>The next cursor of a page names the last item of the page.\<close>

lemma NextCursor_last:
  assumes "Store_ListCursor enc dec io name c b s = (Ok page, s1)" "cr_NextCursor page \<noteq> ''''" "storeInv s"
  shows "\<exists>r off. cr_NextCursor page = enc \<lparr>qc_Version = queueIndexVersion, qc_Queue = name, qc_Revision = r, qc_Offset = off,
      qc_AfterItemID = queueItemIDFromFileName (last (cr_Items page))\<rparr> \<and> 0 < off
    \<and> queueItemIDFromFileName (last (cr_Items page)) @ ''.json'' = last (cr_Items page)
    \<and> queueItemIDFromFileName (last (cr_Items page)) \<noteq> ''''"
proof -
  obtain x where l: "loadOrRebuildQueueIndex io s = (Ok x, s1)"
    using assms(1) by (auto simp: Store_ListCursor_def Let_def split: prod.splits sum.splits)
  then obtain c' st where c': "decodeQueueReadCursor dec name c = Ok c'" "index_resolveStart x c' = Ok st"
    using assms(1) by (auto simp: Store_ListCursor_def Let_def result_bind_eq_Ok)
  obtain k where k: "st = int k" using resolveStart_nonneg[OF c'(2)] nonneg_int_cases by blast
  obtain b' where b': "(if b \<le> 0 then 1 else b) = int b'" "0 < b'"
    by (metis linorder_not_le of_nat_0_less_iff of_nat_1 zero_less_imp_eq_int zero_less_one)
  let ?fs = "take b' (drop k (listed x))"
  have "Store_ListCursor enc dec io name c b s = Store_ListCursor enc dec io name c (int b') s"
    using b' by (simp add: Store_ListCursor_def Let_def)
  then have p: "cr_Items page = ?fs" "cr_NextCursor page = encodeQueueReadCursor enc name x (int (k + length ?fs)) (last ?fs)" "?fs \<noteq> []"
    using assms(1,2) ListCursor_page[OF l c'(1) c'(2)[unfolded k] b'(2), of enc] by (auto simp: Let_def split: if_splits)
  have inv: "wfDir (qs_files s)" "indexes x (qs_files s)" using load_storeInv[OF assms(3) l] assms(3) by (auto simp: storeInv_def)
  have "last ?fs \<in> set (listed x)" using p(3) by (meson in_set_dropD in_set_takeD last_in_set)
  note ID = listed_ID[OF inv this]
  have "last ?fs \<noteq> ''''" using ID by auto
  moreover have "0 < int (k + length ?fs)" using p(3) by (simp only: of_nat_0_less_iff add_gr_0 length_greater_0_conv) simp
  ultimately show ?thesis using p ID unfolding encodeQueueReadCursor_def by metis
qed


section \<open>Collecting the visible items\<close>

text \<open>
  \<open>vis\<close> is what the frontend shows for a queue file: \<open>None\<close> when its data or the summary of its run cannot be
  read, or when the run is already running.
\<close>

definition queueCursorScanBatch :: nat where
  "queueCursorScanBatch = 64"

fun addVisible :: "(string \<Rightarrow> 'v option) \<Rightarrow> nat \<Rightarrow> 'v list \<Rightarrow> string list \<Rightarrow> 'v list" where
  "addVisible vis limit items [] = items"
| "addVisible vis limit items (f # fs) = (case vis f of
      None \<Rightarrow> addVisible vis limit items fs
    | Some v \<Rightarrow> if length (items @ [v]) = limit then items @ [v] else addVisible vis limit (items @ [v]) fs)"

fun visibleLoop :: "(queueReadCursor \<Rightarrow> string) \<Rightarrow> (string \<Rightarrow> queueReadCursor option) \<Rightarrow> QueueIO \<Rightarrow> string
    \<Rightarrow> (string \<Rightarrow> 'v option) \<Rightarrow> nat \<Rightarrow> nat \<Rightarrow> 'v list \<Rightarrow> string \<Rightarrow> QueueState
    \<Rightarrow> ((QueueError, 'v list \<times> string) result \<times> QueueState) option" where
  "visibleLoop enc dec io name vis limit 0 items cursor s = None"
| "visibleLoop enc dec io name vis limit (Suc n) items cursor s =
     (if \<not> length items < limit then Some (Ok (items, cursor), s)
      else (let batchSize = min (max (limit - length items) 1) queueCursorScanBatch
            in case Store_ListCursor enc dec io name cursor (int batchSize) s of
                 (Inl e, s1) \<Rightarrow> Some (Err e, s1)
               | (Inr page, s1) \<Rightarrow>
                   if cr_Items page = [] then Some (Ok (items, ''''), s1)
                   else (let items' = addVisible vis limit items (cr_Items page)
                         in if \<not> cr_HasMore page then Some (Ok (items', ''''), s1)
                            else visibleLoop enc dec io name vis limit n items' (cr_NextCursor page) s1)))"

definition listVisibleQueuedItems :: "(queueReadCursor \<Rightarrow> string) \<Rightarrow> (string \<Rightarrow> queueReadCursor option) \<Rightarrow> QueueIO \<Rightarrow> string
    \<Rightarrow> (string \<Rightarrow> 'v option) \<Rightarrow> int \<Rightarrow> string \<Rightarrow> nat \<Rightarrow> QueueState
    \<Rightarrow> ((QueueError, 'v list \<times> string) result \<times> QueueState) option" where
  "listVisibleQueuedItems enc dec io name vis limit cursor fuel s =
     (if limit \<le> 0 then Some (Ok ([], ''''), s) else visibleLoop enc dec io name vis (nat limit) fuel [] cursor s)"

lemma addVisible_all:
  "length items + length fs \<le> limit \<Longrightarrow> addVisible vis limit items fs = items @ List.map_filter vis fs"
proof (induction fs arbitrary: items)
  case (Cons f fs)
  show ?case
  proof (cases "vis f")
    case None
    then show ?thesis using Cons by (simp add: List.map_filter_simps)
  next
    case (Some v)
    show ?thesis
    proof (cases "length (items @ [v]) = limit")
      case True
      then have "length fs \<le> 0" using Cons.prems unfolding length_append list.size by linarith
      then have "fs = []" by simp
      then show ?thesis using Some by (simp add: List.map_filter_simps)
    next
      case False
      then show ?thesis using Some Cons.IH[of "items @ [v]"] Cons.prems by (simp add: List.map_filter_simps)
    qed
  qed
qed (simp add: List.map_filter_simps)

text \<open>A cursor at a position of the listing.\<close>

definition cursorAt :: "(queueReadCursor \<Rightarrow> string) \<Rightarrow> string \<Rightarrow> string list \<Rightarrow> nat \<Rightarrow> string \<Rightarrow> bool" where
  "cursorAt enc name L k c \<longleftrightarrow> c = '''' \<and> k = 0 \<or> 0 < k \<and> k \<le> length L
     \<and> (\<exists>r. c = enc \<lparr>qc_Version = queueIndexVersion, qc_Queue = name, qc_Revision = r, qc_Offset = int k,
              qc_AfterItemID = queueItemIDFromFileName (L ! (k - 1))\<rparr>)"

lemma ListCursor_at:
  assumes codec: "\<And>c. dec (enc c) = Some c" "\<And>c. enc c \<noteq> ''''" and "storeInv s" "0 < b"
    and L: "L = namesOf QueuePriorityHigh (qs_files s) @ namesOf QueuePriorityLow (qs_files s)"
    and at: "cursorAt enc name L k c"
  shows "\<exists>page s1. Store_ListCursor enc dec (goodIO now m) name c (int b) s = (Ok page, s1) \<and> storeInv s1
    \<and> qs_files s1 = qs_files s \<and> cr_Items page = take b (drop k L)
    \<and> (cr_HasMore page \<longleftrightarrow> k + length (cr_Items page) < length L)
    \<and> (cr_HasMore page \<longrightarrow> cursorAt enc name L (k + length (cr_Items page)) (cr_NextCursor page))"
proof -
  obtain x s1 where x: "loadOrRebuildQueueIndex (goodIO now m) s = (Ok x, s1)" using load_good by blast
  have s1: "storeInv s1" "qs_files s1 = qs_files s" "indexes x (qs_files s)" "wfDir (qs_files s)"
    using load_storeInv[OF assms(3) x] assms(3) by (auto simp: storeInv_def)
  have Lx: "listed x = L" using listed_index[OF s1(3)] L by simp
  have ID: "queueItemIDFromFileName f \<noteq> ''''" "f \<noteq> ''''" if "f \<in> set L" for f
    using listed_ID[OF s1(4,3)] that Lx by fastforce+
  obtain c' where c': "decodeQueueReadCursor dec name c = Ok c'" "index_resolveStart x c' = Ok (int k)"
  proof (cases "c = ''''")
    case True
    then have "k = 0" using at codec(2) by (auto simp: cursorAt_def) (metis codec(2))+
    then show ?thesis using that True by (simp add: decodeQueueReadCursor_def index_resolveStart_def)
  next
    case False
    then obtain r where r: "0 < k" "k \<le> length L" "c = enc \<lparr>qc_Version = queueIndexVersion, qc_Queue = name, qc_Revision = r,
        qc_Offset = int k, qc_AfterItemID = queueItemIDFromFileName (L ! (k - 1))\<rparr>"
      using at by (auto simp: cursorAt_def)
    have e: "int k - 1 = int (k - 1)" and lt: "k - 1 < length L" using r(1,2) by auto
    have "queueItemIDFromFileName (L ! (k - 1)) \<noteq> ''''" using ID(1) lt by simp
    moreover have "index_itemFileNameAt x (int k - 1) = Some (L ! (k - 1))"
      unfolding e itemFileNameAt_listed Lx using lt by simp
    ultimately have "index_resolveStart x \<lparr>qc_Version = queueIndexVersion, qc_Queue = name, qc_Revision = r,
        qc_Offset = int k, qc_AfterItemID = queueItemIDFromFileName (L ! (k - 1))\<rparr> = Ok (int k)"
      using r(1) by (simp add: index_resolveStart_def)
    then show ?thesis using codec r(3) by (intro that) (simp_all add: decodeQueueReadCursor_def)
  qed
  let ?fs = "take b (drop k L)"
  note P = ListCursor_page[OF x c' assms(4), of enc, unfolded Lx]
  have "cursorAt enc name L (k + length ?fs) (encodeQueueReadCursor enc name x (int (k + length ?fs)) (last ?fs))"
    if "k + length ?fs < length L"
  proof -
    have ne: "?fs \<noteq> []" using that assms(4) by auto
    have len: "k + b < length L" "length ?fs = b" using that by auto
    then have "last ?fs = L ! (k + length ?fs - 1)" using ne assms(4) by (simp add: last_conv_nth)
    moreover have "last ?fs \<noteq> ''''" using ID(2) ne by (meson in_set_dropD in_set_takeD last_in_set)
    moreover have "0 < length ?fs" using ne by (simp only: length_greater_0_conv) simp
    ultimately show ?thesis using that unfolding cursorAt_def encodeQueueReadCursor_def
      by (metis add_gr_0 less_imp_le)
  qed
  moreover have "?fs \<noteq> []" if "k + length ?fs < length L" using that assms(4) by auto
  ultimately show ?thesis using P s1 by (auto simp: Let_def)
qed

lemma visibleLoop_collects:
  assumes codec: "\<And>c. dec (enc c) = Some c" "\<And>c. enc c \<noteq> ''''"
    and "storeInv s" "L = namesOf QueuePriorityHigh (qs_files s) @ namesOf QueuePriorityLow (qs_files s)"
    and "cursorAt enc name L k c" "length L - k < fuel" "length items \<le> limit"
  shows "\<exists>j next s'. visibleLoop enc dec (goodIO now m) name vis limit fuel items c s
      = Some (Ok (items @ List.map_filter vis (take j (drop k L)), next), s')
    \<and> (next = '''' \<and> length L \<le> k + j \<and> length (items @ List.map_filter vis (take j (drop k L))) \<le> limit
       \<or> cursorAt enc name L (k + j) next \<and> length (items @ List.map_filter vis (take j (drop k L))) = limit)"
  using assms(3-)
proof (induction fuel arbitrary: items c s k)
  case (Suc n)
  show ?case
  proof (cases "length items < limit")
    case False
    then show ?thesis using Suc.prems by (intro exI[of _ 0]) (simp add: List.map_filter_simps)
  next
    case True
    define b where "b = min (max (limit - length items) 1) queueCursorScanBatch"
    have b: "0 < b" "b \<le> limit - length items" using True by (auto simp: b_def queueCursorScanBatch_def)
    obtain page s1 where p: "Store_ListCursor enc dec (goodIO now m) name c (int b) s = (Ok page, s1)" "storeInv s1"
      "qs_files s1 = qs_files s" "cr_Items page = take b (drop k L)"
      "cr_HasMore page \<longleftrightarrow> k + length (cr_Items page) < length L"
      "cr_HasMore page \<longrightarrow> cursorAt enc name L (k + length (cr_Items page)) (cr_NextCursor page)"
      using ListCursor_at[OF codec Suc.prems(1) b(1) Suc.prems(2,3)] by blast
    have step: "visibleLoop enc dec (goodIO now m) name vis limit (Suc n) items c s =
        (if cr_Items page = [] then Some (Ok (items, ''''), s1)
         else if \<not> cr_HasMore page then Some (Ok (addVisible vis limit items (cr_Items page), ''''), s1)
         else visibleLoop enc dec (goodIO now m) name vis limit n (addVisible vis limit items (cr_Items page)) (cr_NextCursor page) s1)"
      unfolding visibleLoop.simps Let_def b_def[symmetric] p(1) using True by simp
    let ?fs = "take b (drop k L)"
    have fits: "length items + length ?fs \<le> limit" using b by auto
    have len: "length (List.map_filter vis ?fs) \<le> length ?fs" unfolding List.map_filter_def by (simp add: order_trans[OF length_filter_le])
    note add = addVisible_all[OF fits, of vis]
    consider "?fs = []" | "?fs \<noteq> []" "\<not> cr_HasMore page" | "?fs \<noteq> []" "cr_HasMore page" by blast
    then show ?thesis
    proof cases
      case 1
      then have "length L \<le> k" using b(1) by simp
      then show ?thesis using True p 1 unfolding step by (intro exI[of _ 0]) (simp add: List.map_filter_simps)
    next
      case 2
      then show ?thesis using p add len fits unfolding step
        by (intro exI[of _ b] exI[of _ "''''"] exI[of _ s1]) auto
    next
      case 3
      let ?k = "k + length ?fs"
      have pos: "0 < length ?fs" using 3(1) by (simp only: length_greater_0_conv) simp
      have kb: "?k < length L" "length ?fs = b" using p(4,5) 3(2) by auto
      let ?items = "items @ List.map_filter vis ?fs"
      have eq: "visibleLoop enc dec (goodIO now m) name vis limit (Suc n) items c s
          = visibleLoop enc dec (goodIO now m) name vis limit n ?items (cr_NextCursor page) s1"
        unfolding step using p(4) 3 add by simp
      have c: "cursorAt enc name L ?k (cr_NextCursor page)" using p(4,6) 3(2) by simp
      have n: "length L - ?k < n" using Suc.prems(4) pos kb by linarith
      have l: "length ?items \<le> limit" using fits len unfolding length_append by linarith
      have L: "L = namesOf QueuePriorityHigh (qs_files s1) @ namesOf QueuePriorityLow (qs_files s1)"
        using Suc.prems(2) p(3) by simp
      obtain j nx s' where j: "visibleLoop enc dec (goodIO now m) name vis limit n ?items (cr_NextCursor page) s1
          = Some (Ok (?items @ List.map_filter vis (take j (drop ?k L)), nx), s')"
        "nx = '''' \<and> length L \<le> ?k + j \<and> length (?items @ List.map_filter vis (take j (drop ?k L))) \<le> limit
         \<or> cursorAt enc name L (?k + j) nx \<and> length (?items @ List.map_filter vis (take j (drop ?k L))) = limit"
        using Suc.IH[OF p(2) L c n l] by blast
      have "take (b + j) (drop k L) = ?fs @ take j (drop ?k L)" unfolding kb(2) by (simp add: take_add add.commute)
      then have "List.map_filter vis (take (b + j) (drop k L)) = List.map_filter vis ?fs @ List.map_filter vis (take j (drop ?k L))"
        by (simp add: List.map_filter_def)
      then have items: "?items @ List.map_filter vis (take j (drop ?k L)) = items @ List.map_filter vis (take (b + j) (drop k L))" by simp
      have "?k + j = k + (b + j)" using kb(2) by simp
      then show ?thesis using j unfolding eq items by metis
    qed
  qed
qed simp

text \<open>C13: listing the visible items of a queue page by page loses and repeats nothing and ends: from the cursor at position
  \<open>k\<close> the loop returns the visible ones among the next \<open>j\<close> items of the queue, in order; either these are all the
  remaining ones and the returned cursor is empty, or exactly \<open>limit\<close> of them are visible and the
  returned cursor stands at position \<open>k + j\<close>.\<close>

theorem listVisibleQueuedItems_complete:
  assumes "\<And>c. dec (enc c) = Some c" "\<And>c. enc c \<noteq> ''''" "queueReach name s" "0 < limit"
    and "cursorAt enc name (DQ_List name (qs_files s)) k c" "length (DQ_List name (qs_files s)) < fuel"
  shows "\<exists>j next s'. let items = List.map_filter vis (take j (drop k (DQ_List name (qs_files s))))
    in listVisibleQueuedItems enc dec (goodIO now m) name vis limit c fuel s = Some (Ok (items, next), s')
      \<and> (next = '''' \<and> length (DQ_List name (qs_files s)) \<le> k + j \<and> int (length items) \<le> limit
         \<or> cursorAt enc name (DQ_List name (qs_files s)) (k + j) next \<and> int (length items) = limit)"
proof -
  have inv: "storeInv s" using queueReach_inv[OF assms(3)] .
  then have L: "DQ_List name (qs_files s) = namesOf QueuePriorityHigh (qs_files s) @ namesOf QueuePriorityLow (qs_files s)"
    by (simp add: DQ_List_eq storeInv_def)
  have "length (DQ_List name (qs_files s)) - k < fuel" using assms(6) by simp
  note V = visibleLoop_collects[OF assms(1,2) inv L assms(5) this, of "[]" "nat limit" now m vis]
  have conv: "n \<le> nat limit \<longleftrightarrow> int n \<le> limit" "n = nat limit \<longleftrightarrow> int n = limit" for n using assms(4) by auto
  have "listVisibleQueuedItems enc dec (goodIO now m) name vis limit c fuel s
      = visibleLoop enc dec (goodIO now m) name vis (nat limit) fuel [] c s"
    using assms(4) by (simp add: listVisibleQueuedItems_def)
  then show ?thesis using V assms(4) unfolding append_Nil conv Let_def by simp
qed

section \<open>Witnesses\<close>

text \<open>A cursor code with a decoder: the number of the cursor in unary.\<close>

definition unaryEnc :: "queueReadCursor \<Rightarrow> string" where
  "unaryEnc c = replicate (Suc (to_nat (qc_Version c, qc_Queue c, qc_Revision c, qc_Offset c, qc_AfterItemID c))) CHR ''x''"

definition unaryDec :: "string \<Rightarrow> queueReadCursor option" where
  "unaryDec s = (case from_nat (length s - 1) of (v, q, r, n, i) \<Rightarrow>
     Some \<lparr>qc_Version = v, qc_Queue = q, qc_Revision = r, qc_Offset = n, qc_AfterItemID = i\<rparr>)"

lemma unary_code: "unaryDec (unaryEnc c) = Some c" "unaryEnc c \<noteq> ''''"
  by (simp_all add: unaryDec_def unaryEnc_def)

lemma twoQueued_page:
  "\<exists>page s1. Store_ListCursor unaryEnc unaryDec (goodIO 11 21) ''etl'' '''' 1 twoQueued = (Ok page, s1)
    \<and> cr_Items page = [raceName ''a'' 1] \<and> cr_NextCursor page \<noteq> ''''"
proof -
  have inv: "storeInv twoQueued" using queueReach_inv[OF twoQueued_reach] .
  then have L: "[raceName ''a'' 1, raceName ''b'' 2] = namesOf QueuePriorityHigh (qs_files twoQueued) @ namesOf QueuePriorityLow (qs_files twoQueued)"
    using twoQueued_list by (simp add: DQ_List_eq storeInv_def)
  have "cursorAt unaryEnc ''etl'' [raceName ''a'' 1, raceName ''b'' 2] 0 ''''" by (simp add: cursorAt_def)
  from ListCursor_at[OF unary_code inv _ L this, of 1 11 21] show ?thesis by (auto simp: cursorAt_def unary_code(2))
qed


theorem listVisibleQueuedItems_complete_witness:
  "\<exists>s'. listVisibleQueuedItems unaryEnc unaryDec (goodIO 11 21) ''etl'' Some 5 '''' 3 twoQueued
     = Some (Ok ([raceName ''a'' 1, raceName ''b'' 2], ''''), s')"
  using listVisibleQueuedItems_complete[OF unary_code twoQueued_reach, of 5 0 "''''" 3 Some 11 21]
  by (fastforce simp: twoQueued_list cursorAt_def List.map_filter_def unary_code(2) Let_def)

end
