(* ===== verification/Dir_Lock.thy ===== *)
theory Dir_Lock
  imports Prelude
begin

text \<open>
  The directory lock (\<open>internal/cmn/dirlock/dirlock.go\<close>).  The lock is a directory \<open>.ayatsuri_lock\<close> with a file
  \<open>owner\<close> that holds the token of the process that made it.  \<open>TryLock\<close> is a sequence of file system
  operations; each is one step, so that processes interleave between them.  Times are
  nanoseconds, tokens and the failures of file system operations are inputs.
\<close>

section \<open>One lock object\<close>

datatype LockError = ErrLockConflict | ErrNotLocked | ErrLockNotHeld | ErrStatus | ErrRemoveStale | ErrTargetDir
  | ErrCreateDir | ErrWriteToken | ErrTouch | ErrRemoveDir | ErrContext

text \<open>The lock directory: its modification time and the contents of its \<open>owner\<close> file, if that can be read.\<close>

record LockDir =
  ld_mtime :: int
  ld_owner :: "string option"

record DirLock =
  dl_StaleThreshold :: int
  dl_RetryInterval :: int
  dl_isHeld :: bool
  dl_fenceToken :: string

definition New :: "int \<Rightarrow> int \<Rightarrow> DirLock" where
  "New stale retry = \<lparr>dl_StaleThreshold = (if stale = 0 then 30 * 10 ^ 9 else stale),
     dl_RetryInterval = (if retry = 0 then 50 * 10 ^ 6 else retry), dl_isHeld = False, dl_fenceToken = ''''\<rparr>"

definition isStaleInfo :: "int \<Rightarrow> DirLock \<Rightarrow> LockDir \<Rightarrow> bool" where
  "isStaleInfo now l d \<longleftrightarrow> now - ld_mtime d > dl_StaleThreshold l"

text \<open>The token check that \<open>Heartbeat\<close>, \<open>Unlock\<close> and \<open>IsHeldByMe\<close> share.\<close>

definition ownsDir :: "DirLock \<Rightarrow> LockDir option \<Rightarrow> bool" where
  "ownsDir l dir \<longleftrightarrow> (case dir of None \<Rightarrow> False | Some d \<Rightarrow> ld_owner d = Some (dl_fenceToken l))"

lemma ownsDir_simps [simp]:
  "\<not> ownsDir l None" "ownsDir l (Some d) \<longleftrightarrow> ld_owner d = Some (dl_fenceToken l)"
  "ownsDir l (map_option (\<lambda>d. d\<lparr>ld_mtime := t\<rparr>) dir) = ownsDir l dir" "ownsDir (l\<lparr>dl_isHeld := b\<rparr>) dir = ownsDir l dir"
  by (auto simp: ownsDir_def split: option.splits)

definition Heartbeat :: "int \<Rightarrow> bool \<Rightarrow> DirLock \<Rightarrow> LockDir option \<Rightarrow> (LockError, unit) result \<times> DirLock \<times> LockDir option" where
  "Heartbeat now ok l dir =
     (if \<not> dl_isHeld l then (Err ErrNotLocked, l, dir)
      else if \<not> ownsDir l dir then (Err ErrLockNotHeld, l\<lparr>dl_isHeld := False\<rparr>, dir)
      else if \<not> ok then (Err ErrTouch, l, dir)
      else (Ok (), l, map_option (\<lambda>d. d\<lparr>ld_mtime := now\<rparr>) dir))"

definition Unlock :: "bool \<Rightarrow> DirLock \<Rightarrow> LockDir option \<Rightarrow> (LockError, unit) result \<times> DirLock \<times> LockDir option" where
  "Unlock ok l dir =
     (if \<not> dl_isHeld l then (Ok (), l, dir)
      else if \<not> ownsDir l dir then (Err ErrLockNotHeld, l\<lparr>dl_isHeld := False\<rparr>, dir)
      else if \<not> ok then (Err ErrRemoveDir, l, dir)
      else (Ok (), l\<lparr>dl_isHeld := False\<rparr>, None))"

definition IsLocked :: "int \<Rightarrow> DirLock \<Rightarrow> LockDir option \<Rightarrow> bool" where
  "IsLocked now l dir = (case dir of None \<Rightarrow> False | Some d \<Rightarrow> \<not> isStaleInfo now l d)"

definition IsHeldByMe :: "DirLock \<Rightarrow> LockDir option \<Rightarrow> bool \<times> DirLock" where
  "IsHeldByMe l dir =
     (if \<not> dl_isHeld l then (False, l)
      else if \<not> ownsDir l dir then (False, l\<lparr>dl_isHeld := False\<rparr>)
      else (True, l))"

text \<open>The time the lock was acquired, \<open>None\<close> when there is no lock or it is stale.\<close>

definition LockInfo :: "int \<Rightarrow> DirLock \<Rightarrow> LockDir option \<Rightarrow> int option" where
  "LockInfo now l dir = (case dir of None \<Rightarrow> None | Some d \<Rightarrow> if isStaleInfo now l d then None else Some (ld_mtime d))"

definition ForceUnlock :: "bool \<Rightarrow> LockDir option \<Rightarrow> (LockError, unit) result \<times> LockDir option" where
  "ForceUnlock ok dir = (if ok then (Ok (), None) else (Err ErrRemoveDir, dir))"

section \<open>Acquiring the lock\<close>

text \<open>Where a call of \<open>TryLock\<close> stands: before which of its file system operations, or returned.\<close>

datatype LockPC = PcStat | PcRemoveStale | PcTargetDir | PcMkdir | PcToken | PcReturn "(LockError, unit) result"

definition tryStep :: "int \<Rightarrow> bool \<Rightarrow> string \<Rightarrow> LockPC \<Rightarrow> DirLock \<Rightarrow> LockDir option \<Rightarrow> LockPC \<times> DirLock \<times> LockDir option" where
  "tryStep now ok token pc l dir = (case pc of
       PcStat \<Rightarrow>
         if dl_isHeld l then (PcReturn (Ok ()), l, dir)
         else if \<not> ok then (PcReturn (Err ErrStatus), l, dir)
         else (case dir of
             None \<Rightarrow> (PcTargetDir, l, dir)
           | Some d \<Rightarrow> if isStaleInfo now l d then (PcRemoveStale, l, dir) else (PcReturn (Err ErrLockConflict), l, dir))
     | PcRemoveStale \<Rightarrow> if ok then (PcTargetDir, l, None) else (PcReturn (Err ErrRemoveStale), l, dir)
     | PcTargetDir \<Rightarrow> if ok then (PcMkdir, l, dir) else (PcReturn (Err ErrTargetDir), l, dir)
     | PcMkdir \<Rightarrow>
         if dir \<noteq> None then (PcReturn (Err ErrLockConflict), l, dir)
         else if \<not> ok then (PcReturn (Err ErrCreateDir), l, dir)
         else (PcToken, l, Some \<lparr>ld_mtime = now, ld_owner = None\<rparr>)
     | PcToken \<Rightarrow>
         (case dir of
            None \<Rightarrow> (PcReturn (Err ErrWriteToken), l, None)
          | Some d \<Rightarrow>
              if ok then (PcReturn (Ok ()), l\<lparr>dl_fenceToken := token, dl_isHeld := True\<rparr>,
                          Some (d\<lparr>ld_mtime := now, ld_owner := Some token\<rparr>))
              else (PcReturn (Err ErrWriteToken), l, None))
     | PcReturn r \<Rightarrow> (PcReturn r, l, dir))"

text \<open>\<open>TryLock\<close> without interference: at most five steps, with one input each.\<close>

fun tryRun :: "(int \<times> bool \<times> string) list \<Rightarrow> LockPC \<Rightarrow> DirLock \<Rightarrow> LockDir option \<Rightarrow> LockPC \<times> DirLock \<times> LockDir option" where
  "tryRun [] pc l dir = (pc, l, dir)"
| "tryRun ((now, ok, token) # ins) pc l dir =
     (let (pc', l', dir') = tryStep now ok token pc l dir in tryRun ins pc' l' dir')"

definition TryLock :: "(nat \<Rightarrow> int \<times> bool \<times> string) \<Rightarrow> DirLock \<Rightarrow> LockDir option \<Rightarrow> (LockError, unit) result \<times> DirLock \<times> LockDir option" where
  "TryLock ins l dir = (case tryRun (map ins [0..<5]) PcStat l dir of
     (PcReturn r, l', dir') \<Rightarrow> (r, l', dir') | (_, l', dir') \<Rightarrow> (Err ErrStatus, l', dir'))"

text \<open>
  \<open>Lock\<close>: a first attempt, then one per tick until the context is done.  Each wake-up says whether it is the
  context, and what other processes have made of the directory meanwhile.  The call has not
  returned (\<open>None\<close>) when the wake-ups are used up.
\<close>

record LockWake =
  lw_done :: bool
  lw_ins :: "nat \<Rightarrow> int \<times> bool \<times> string"
  lw_dir :: "LockDir option"

fun lockLoop :: "LockWake list \<Rightarrow> DirLock \<Rightarrow> ((LockError, unit) result \<times> DirLock \<times> LockDir option) option" where
  "lockLoop [] l = None"
| "lockLoop (w # ws) l =
     (if lw_done w then Some (Err ErrContext, l, lw_dir w)
      else (case TryLock (lw_ins w) l (lw_dir w) of
          (Inr _, l', dir') \<Rightarrow> Some (Ok (), l', dir')
        | (Inl e, l', dir') \<Rightarrow> if e \<noteq> ErrLockConflict then Some (Err e, l', dir') else lockLoop ws l'))"

definition Lock :: "(nat \<Rightarrow> int \<times> bool \<times> string) \<Rightarrow> LockWake list \<Rightarrow> DirLock
    \<Rightarrow> LockDir option \<Rightarrow> ((LockError, unit) result \<times> DirLock \<times> LockDir option) option" where
  "Lock ins ws l dir = lockLoop (\<lparr>lw_done = False, lw_ins = ins, lw_dir = dir\<rparr> # ws) l"

lemma TryLock_returns: "\<exists>r l' dir'. tryRun (map ins [0..<5]) PcStat l dir = (PcReturn r, l', dir')"
proof -
  have "[0..<5] = [0, 1, 2, 3, 4 :: nat]" by code_simp
  then show ?thesis
    by (cases "ins 0"; cases "ins 1"; cases "ins 2"; cases "ins 3"; cases "ins 4"; cases dir)
       (auto simp: tryStep_def Let_def)
qed

section \<open>Several processes\<close>

record LockSys =
  ls_clock :: int
  ls_dir :: "LockDir option"
  ls_lock :: "nat \<Rightarrow> DirLock"
  ls_pc :: "nat \<Rightarrow> LockPC"

text \<open>Each process runs one operation at a time: its mutex is held from the first to the last step of \<open>TryLock\<close>.\<close>

datatype LockEvent = LkTick nat | LkStep nat bool string | LkCall nat | LkBeat nat bool | LkUnlock nat bool | LkCheck nat

definition returned :: "LockPC \<Rightarrow> bool" where
  "returned pc \<longleftrightarrow> (case pc of PcReturn _ \<Rightarrow> True | _ \<Rightarrow> False)"

definition enabled :: "LockEvent \<Rightarrow> LockSys \<Rightarrow> bool" where
  "enabled e s \<longleftrightarrow> (case e of
       LkTick n \<Rightarrow> True
     | LkStep i ok token \<Rightarrow> \<not> returned (ls_pc s i)
     | LkCall i \<Rightarrow> returned (ls_pc s i)
     | LkBeat i ok \<Rightarrow> returned (ls_pc s i)
     | LkUnlock i ok \<Rightarrow> returned (ls_pc s i)
     | LkCheck i \<Rightarrow> returned (ls_pc s i))"

definition lockEvent :: "LockEvent \<Rightarrow> LockSys \<Rightarrow> LockSys" where
  "lockEvent e s = (case e of
       LkTick n \<Rightarrow> s\<lparr>ls_clock := ls_clock s + int n\<rparr>
     | LkStep i ok token \<Rightarrow>
         (let (pc, l, dir) = tryStep (ls_clock s) ok token (ls_pc s i) (ls_lock s i) (ls_dir s)
          in s\<lparr>ls_pc := (ls_pc s)(i := pc), ls_lock := (ls_lock s)(i := l), ls_dir := dir\<rparr>)
     | LkCall i \<Rightarrow> s\<lparr>ls_pc := (ls_pc s)(i := PcStat)\<rparr>
     | LkBeat i ok \<Rightarrow>
         (let (r, l, dir) = Heartbeat (ls_clock s) ok (ls_lock s i) (ls_dir s)
          in s\<lparr>ls_lock := (ls_lock s)(i := l), ls_dir := dir\<rparr>)
     | LkUnlock i ok \<Rightarrow>
         (let (r, l, dir) = Unlock ok (ls_lock s i) (ls_dir s) in s\<lparr>ls_lock := (ls_lock s)(i := l), ls_dir := dir\<rparr>)
     | LkCheck i \<Rightarrow> s\<lparr>ls_lock := (ls_lock s)(i := snd (IsHeldByMe (ls_lock s i) (ls_dir s)))\<rparr>)"

text \<open>Tokens contain the host, the process and the time: two processes never write the same.\<close>

definition freshToken :: "LockEvent \<Rightarrow> LockSys \<Rightarrow> bool" where
  "freshToken e s \<longleftrightarrow> (case e of LkStep i ok token \<Rightarrow> ls_pc s i = PcToken \<longrightarrow> (\<forall>j. j \<noteq> i \<longrightarrow> token \<noteq> dl_fenceToken (ls_lock s j))
     | _ \<Rightarrow> True)"

text \<open>Some process is about to take the present lock for stale.\<close>

definition seesStale :: "LockEvent \<Rightarrow> LockSys \<Rightarrow> bool" where
  "seesStale e s \<longleftrightarrow> (case e of
       LkStep i ok token \<Rightarrow> ls_pc s i = PcStat
         \<and> (case ls_dir s of None \<Rightarrow> False | Some d \<Rightarrow> isStaleInfo (ls_clock s) (ls_lock s i) d)
     | _ \<Rightarrow> False)"

definition initLocks :: "int \<Rightarrow> int \<Rightarrow> int \<Rightarrow> LockSys" where
  "initLocks now stale retry = \<lparr>ls_clock = now, ls_dir = None, ls_lock = (\<lambda>_. New stale retry), ls_pc = (\<lambda>_. PcReturn (Ok ()))\<rparr>"

text \<open>\<open>calm\<close> executions are those in which no lock is ever taken for stale.\<close>

inductive lockReach :: "bool \<Rightarrow> LockSys \<Rightarrow> LockSys \<Rightarrow> bool" for calm s0 where
  lockReach_init: "lockReach calm s0 s0"
| lockReach_step: "lockReach calm s0 s \<Longrightarrow> enabled e s \<Longrightarrow> freshToken e s \<Longrightarrow> (calm \<longrightarrow> \<not> seesStale e s)
    \<Longrightarrow> lockReach calm s0 (lockEvent e s)"

definition holder :: "LockSys \<Rightarrow> nat \<Rightarrow> bool" where
  "holder s i \<longleftrightarrow> dl_isHeld (ls_lock s i)"

definition verified :: "LockSys \<Rightarrow> nat \<Rightarrow> bool" where
  "verified s i \<longleftrightarrow> fst (IsHeldByMe (ls_lock s i) (ls_dir s))"

definition tokenInv :: "LockSys \<Rightarrow> bool" where
  "tokenInv s \<longleftrightarrow> (\<forall>i j. holder s i \<longrightarrow> holder s j \<longrightarrow> dl_fenceToken (ls_lock s i) = dl_fenceToken (ls_lock s j) \<longrightarrow> i = j)"

definition busy :: "LockSys \<Rightarrow> nat \<Rightarrow> bool" where
  "busy s i \<longleftrightarrow> holder s i \<or> ls_pc s i = PcToken"

definition calmInv :: "LockSys \<Rightarrow> bool" where
  "calmInv s \<longleftrightarrow> (\<forall>i. ls_pc s i \<noteq> PcRemoveStale) \<and> (\<forall>i. ls_pc s i = PcToken \<longrightarrow> \<not> holder s i)
     \<and> (\<forall>i. busy s i \<longrightarrow> ls_dir s \<noteq> None) \<and> (\<forall>i j. busy s i \<longrightarrow> busy s j \<longrightarrow> i = j)
     \<and> (\<forall>i. holder s i \<longrightarrow> ownsDir (ls_lock s i) (ls_dir s))"

lemma tokenInv_step:
  assumes "tokenInv s" "freshToken e s"
  shows "tokenInv (lockEvent e s)"
proof (cases e)
  case (LkStep i ok token)
  have "ls_pc s i = PcToken \<longrightarrow> (\<forall>j. j \<noteq> i \<longrightarrow> token \<noteq> dl_fenceToken (ls_lock s j))"
    using assms(2) LkStep by (simp add: freshToken_def)
  then show ?thesis using assms(1) LkStep
    by (auto simp: lockEvent_def tryStep_def tokenInv_def holder_def split: LockPC.splits option.splits)
qed (use assms(1) in \<open>auto simp: lockEvent_def tokenInv_def holder_def Heartbeat_def Unlock_def IsHeldByMe_def Let_def split: prod.splits\<close>)

lemma calmInv_step:
  assumes "calmInv s" "enabled e s" "\<not> seesStale e s"
  shows "calmInv (lockEvent e s)"
proof (cases e)
  case (LkStep i ok token)
  have pc: "ls_pc s i \<noteq> PcRemoveStale" "ls_pc s i = PcToken \<longrightarrow> \<not> holder s i" using assms(1) by (auto simp: calmInv_def)
  show ?thesis
  proof (cases "ls_pc s i")
    case PcStat
    then show ?thesis using assms LkStep
      by (auto simp: lockEvent_def tryStep_def calmInv_def busy_def holder_def seesStale_def split: option.splits)
  next
    case PcMkdir
    then show ?thesis using assms LkStep
      by (auto simp: lockEvent_def tryStep_def calmInv_def busy_def holder_def split: option.splits)
  next
    case PcToken
    then have "\<forall>j. \<not> holder s j" using assms(1) unfolding calmInv_def busy_def by blast
    then show ?thesis using assms LkStep PcToken
      by (auto simp: lockEvent_def tryStep_def calmInv_def busy_def holder_def split: option.splits)
  qed (use assms LkStep pc in \<open>auto simp: lockEvent_def tryStep_def calmInv_def busy_def holder_def\<close>)
next
  case (LkCheck i)
  then have "lockEvent e s = s \<or> lockEvent e s = s\<lparr>ls_lock := (ls_lock s)(i := (ls_lock s i)\<lparr>dl_isHeld := False\<rparr>)\<rparr>"
    by (simp add: lockEvent_def IsHeldByMe_def)
  then show ?thesis
  proof
    assume "lockEvent e s = s\<lparr>ls_lock := (ls_lock s)(i := (ls_lock s i)\<lparr>dl_isHeld := False\<rparr>)\<rparr>"
    then show ?thesis using assms(1) by (auto simp: calmInv_def busy_def holder_def)
  qed (use assms(1) in simp)
qed (use assms in \<open>auto simp: lockEvent_def calmInv_def busy_def holder_def enabled_def returned_def Heartbeat_def Unlock_def IsHeldByMe_def
  Let_def split: prod.splits LockPC.splits\<close>)

lemma lockReach_tokenInv: "lockReach calm (initLocks now stale retry) s \<Longrightarrow> tokenInv s"
  by (induction rule: lockReach.induct)
     (simp_all add: tokenInv_step, simp add: tokenInv_def initLocks_def holder_def New_def)

lemma lockReach_calmInv: "lockReach calm (initLocks now stale retry) s \<Longrightarrow> calm \<Longrightarrow> calmInv s"
  by (induction rule: lockReach.induct)
     (simp_all add: calmInv_step, simp add: calmInv_def busy_def initLocks_def holder_def New_def)

lemma verified_iff: "verified s i \<longleftrightarrow> holder s i \<and> ownsDir (ls_lock s i) (ls_dir s)"
  by (simp add: verified_def IsHeldByMe_def holder_def)

text \<open>C15: mutual exclusion of the directory lock in every interleaving of the file system operations of any number of
  processes, with failures: at most one process passes the token check; and as long as no process takes a
  lock for stale, at most one process believes to hold it and this one passes the check.\<close>

theorem dirlock_exclusive:
  assumes "lockReach calm (initLocks now stale retry) s"
  shows "(verified s i \<longrightarrow> verified s j \<longrightarrow> i = j)
    \<and> (calm \<longrightarrow> holder s i \<longrightarrow> verified s i \<and> (holder s j \<longrightarrow> i = j))"
proof (intro conjI impI)
  assume v: "verified s i" "verified s j"
  then have "dl_fenceToken (ls_lock s i) = dl_fenceToken (ls_lock s j)"
    by (cases "ls_dir s") (auto simp: verified_iff)
  then show "i = j" using lockReach_tokenInv[OF assms] v by (auto simp: tokenInv_def verified_iff)
next
  assume c: "calm" "holder s i"
  note C = lockReach_calmInv[OF assms c(1)]
  show "verified s i" using C c(2) by (simp add: calmInv_def verified_iff)
  show "i = j" if "holder s j" using C c(2) that by (auto simp: calmInv_def busy_def)
qed

text \<open>A sequence of events with its guards.\<close>

fun lockTrace :: "bool \<Rightarrow> LockEvent list \<Rightarrow> LockSys \<Rightarrow> bool" where
  "lockTrace calm [] s = True"
| "lockTrace calm (e # es) s = (enabled e s \<and> freshToken e s \<and> (calm \<longrightarrow> \<not> seesStale e s) \<and> lockTrace calm es (lockEvent e s))"

lemma lockTrace_reach: "lockReach calm s0 s \<Longrightarrow> lockTrace calm es s \<Longrightarrow> lockReach calm s0 (fold lockEvent es s)"
  by (induction es arbitrary: s) (auto intro: lockReach_step)

definition acquire :: "nat \<Rightarrow> string \<Rightarrow> LockEvent list" where
  "acquire i token = [LkCall i, LkStep i True '''', LkStep i True '''', LkStep i True '''', LkStep i True token]"

lemmas lock_defs = enabled_def returned_def freshToken_def seesStale_def lockEvent_def tryStep_def initLocks_def New_def
  isStaleInfo_def holder_def acquire_def

theorem dirlock_exclusive_witness:
  "let s = fold lockEvent (acquire 0 ''a'' @ [LkTick 7, LkCall 1, LkStep 1 True ''b'']) (initLocks 0 0 0)
   in lockReach True (initLocks 0 0 0) s \<and> verified s 0 \<and> \<not> holder s 1 \<and> ls_pc s 1 = PcReturn (Err ErrLockConflict)"
proof -
  let ?es = "acquire 0 ''a'' @ [LkTick 7, LkCall 1, LkStep 1 True ''b'']"
  let ?s = "fold lockEvent ?es (initLocks 0 0 0)"
  have "lockTrace True ?es (initLocks 0 0 0)" by (simp add: lock_defs)
  then have r: "lockReach True (initLocks 0 0 0) ?s" using lockTrace_reach[OF lockReach_init] by blast
  have h: "holder ?s 0" "\<not> holder ?s 1" "ls_pc ?s 1 = PcReturn (Err ErrLockConflict)" by (simp_all add: lock_defs)
  show ?thesis using dirlock_exclusive[OF r, of 0 1] r h by simp
qed

text \<open>The lock of a queue: \<open>NewDualQueue\<close> passes 30 and 50, commented as seconds and milliseconds.\<close>

definition dualQueueLock :: DirLock where
  "dualQueueLock = New 30 50"

definition takeover :: "nat \<Rightarrow> string \<Rightarrow> LockEvent list" where
  "takeover i token = [LkCall i, LkStep i True '''', LkStep i True '''', LkStep i True '''', LkStep i True '''', LkStep i True token]"

text \<open>C17: the lock of a queue does not exclude: its stale threshold is 30 nanoseconds, so a second process that asks 31
  nanoseconds after the first one got the lock removes it and holds the lock at the same
  time, without a heartbeat being late; under the 30 seconds of the comment it is refused.\<close>

theorem dualqueue_lock_stolen:
  "let es = acquire 0 ''a'' @ LkTick 31 # takeover 1 ''b'';
       s = fold lockEvent es (initLocks 0 (dl_StaleThreshold dualQueueLock) (dl_RetryInterval dualQueueLock))
   in lockReach False (initLocks 0 (dl_StaleThreshold dualQueueLock) (dl_RetryInterval dualQueueLock)) s
      \<and> ls_lock (initLocks 0 (dl_StaleThreshold dualQueueLock) (dl_RetryInterval dualQueueLock)) 0 = dualQueueLock
      \<and> holder s 0 \<and> holder s 1 \<and> verified s 1
      \<and> ls_pc (fold lockEvent (acquire 0 ''a'' @ [LkTick 31, LkCall 1, LkStep 1 True '''']) (initLocks 0 (30 * 10 ^ 9) (50 * 10 ^ 6))) 1
          = PcReturn (Err ErrLockConflict)"
proof -
  let ?i = "initLocks 0 30 50"
  let ?es = "acquire 0 ''a'' @ LkTick 31 # takeover 1 ''b''"
  have "lockTrace False ?es ?i" by (simp add: lock_defs takeover_def)
  then have "lockReach False ?i (fold lockEvent ?es ?i)" using lockTrace_reach[OF lockReach_init] by blast
  moreover have "holder (fold lockEvent ?es ?i) 0" "holder (fold lockEvent ?es ?i) 1" "verified (fold lockEvent ?es ?i) 1"
    by (simp_all add: lock_defs takeover_def verified_iff)
  moreover have "ls_pc (fold lockEvent (acquire 0 ''a'' @ [LkTick 31, LkCall 1, LkStep 1 True '''']) (initLocks 0 (30 * 10 ^ 9) (50 * 10 ^ 6))) 1
      = PcReturn (Err ErrLockConflict)"
    by (simp add: lock_defs)
  moreover have "dl_StaleThreshold dualQueueLock = 30" "dl_RetryInterval dualQueueLock = 50" "ls_lock ?i 0 = dualQueueLock"
    by (simp_all add: dualQueueLock_def New_def initLocks_def)
  ultimately show ?thesis by (simp only: Let_def simp_thms)
qed

end
