(* ===== verification/Sched_Core.thy ===== *)
theory Sched_Core
  imports Queue_Name Status
begin

text \<open>
  Times and schedules (\<open>internal/core/schedule.go\<close>).  A time is its number of nanoseconds since the Unix epoch;
  the zero \<open>time.Time\<close> is the first instant of the year 1.  The cron library is a parameter:
  a parsed expression is the function that gives the next activation after a time, the zero time when there is none.
\<close>

section \<open>Times\<close>

definition minute :: int where
  "minute = 60 * second"

definition day :: int where
  "day = 24 * 60 * minute"

text \<open>Days since the epoch of a date of the Gregorian calendar, and back.\<close>

definition daysFromCivil :: "int \<Rightarrow> int \<Rightarrow> int \<Rightarrow> int" where
  "daysFromCivil y m d =
     (let y' = (if m \<le> 2 then y - 1 else y); era = y' div 400; yoe = y' - era * 400;
          doy = (153 * (if m > 2 then m - 3 else m + 9) + 2) div 5 + d - 1;
          doe = yoe * 365 + yoe div 4 - yoe div 100 + doy
      in era * 146097 + doe - 719468)"

definition civilFromDays :: "int \<Rightarrow> int \<times> int \<times> int" where
  "civilFromDays days =
     (let z = days + 719468; era = z div 146097; doe = z - era * 146097;
          yoe = (doe - doe div 1460 + doe div 36524 - doe div 146096) div 365;
          doy = doe - (365 * yoe + yoe div 4 - yoe div 100);
          mp = (5 * doy + 2) div 153; d = doy - (153 * mp + 2) div 5 + 1;
          m = (if mp < 10 then mp + 3 else mp - 9); y = yoe + era * 400
      in (if m \<le> 2 then y + 1 else y, m, d))"

definition zeroTime :: int where
  "zeroTime = daysFromCivil 1 1 1 * day"

lemma zeroTime_eq: "zeroTime = -62135596800 * 10 ^ 9"
  by (simp add: zeroTime_def daysFromCivil_def day_def minute_def second_def)

definition IsZero :: "int \<Rightarrow> bool" where
  "IsZero t \<longleftrightarrow> t = zeroTime"

text \<open>\<open>Truncate\<close> rounds down to a multiple of a duration since the zero time.\<close>

definition Truncate :: "int \<Rightarrow> int \<Rightarrow> int" where
  "Truncate d t = (if d \<le> 0 then t else t - (t - zeroTime) mod d)"

definition utcFields :: "int \<Rightarrow> UTC" where
  "utcFields t = (case civilFromDays (t div day) of (y, m, d) \<Rightarrow>
     (let s = (t mod day) div second
      in \<lparr>u_year = nat y, u_month = nat m, u_day = nat d, u_hour = nat (s div 3600), u_min = nat (s div 60 mod 60),
          u_sec = nat (s mod 60), u_nano = nat (t mod second)\<rparr>))"

section \<open>Text\<close>

definition isSpaceChar :: "char \<Rightarrow> bool" where
  "isSpaceChar c \<longleftrightarrow> c \<in> {CHR 0x09, CHR 0x0A, CHR 0x0B, CHR 0x0C, CHR 0x0D, CHR '' ''}"

definition TrimSpace :: "string \<Rightarrow> string" where
  "TrimSpace s = rev (dropWhile isSpaceChar (rev (dropWhile isSpaceChar s)))"

text \<open>\<open>strings.Fields\<close>.\<close>

fun fieldsAcc :: "string \<Rightarrow> string \<Rightarrow> string list" where
  "fieldsAcc w [] = (if w = [] then [] else [w])"
| "fieldsAcc w (c # cs) =
     (if isSpaceChar c then (if w = [] then fieldsAcc [] cs else w # fieldsAcc [] cs) else fieldsAcc (w @ [c]) cs)"

definition Fields :: "string \<Rightarrow> string list" where
  "Fields s = fieldsAcc [] s"

fun joinStr :: "string \<Rightarrow> string list \<Rightarrow> string" where
  "joinStr sep [] = []"
| "joinStr sep [x] = x"
| "joinStr sep (x # y # ys) = x @ sep @ joinStr sep (y # ys)"

section \<open>Schedules\<close>

record Schedule =
  sc_Kind :: string
  sc_Expression :: string
  sc_At :: string
  sc_Parsed :: "(int \<Rightarrow> int) option"
  sc_AtTime :: int

definition zeroSchedule :: Schedule where
  "zeroSchedule = \<lparr>sc_Kind = '''', sc_Expression = '''', sc_At = '''', sc_Parsed = None, sc_AtTime = zeroTime\<rparr>"

definition ScheduleKindCron :: string where
  "ScheduleKindCron = ''cron''"

definition ScheduleKindAt :: string where
  "ScheduleKindAt = ''at''"

definition GetKind :: "Schedule \<Rightarrow> string" where
  "GetKind s =
     (if sc_Kind s \<noteq> '''' then sc_Kind s
      else if sc_At s \<noteq> '''' \<or> \<not> IsZero (sc_AtTime s) then ScheduleKindAt
      else if sc_Expression s \<noteq> '''' \<or> sc_Parsed s \<noteq> None then ScheduleKindCron
      else '''')"

definition IsCron :: "Schedule \<Rightarrow> bool" where
  "IsCron s \<longleftrightarrow> GetKind s = ScheduleKindCron"

definition IsOneOff :: "Schedule \<Rightarrow> bool" where
  "IsOneOff s \<longleftrightarrow> GetKind s = ScheduleKindAt"

text \<open>
  \<open>cp\<close> is \<open>standardCronParser.Parse\<close>.  A one-off timestamp has minute precision and a zone; its canonical form
  writes a zero offset as \<open>Z\<close>.
\<close>

type_synonym cronParser = "string \<Rightarrow> (int \<Rightarrow> int) option"

definition parseCronExpression :: "cronParser \<Rightarrow> string \<Rightarrow> ((int \<Rightarrow> int) \<times> string) option" where
  "parseCronExpression cp expr =
     (let normalized = joinStr '' '' (Fields expr)
      in if normalized = '''' then None else map_option (\<lambda>p. (p, normalized)) (cp normalized))"

definition parseZone :: "string \<Rightarrow> int option" where
  "parseZone z =
     (if z = ''Z'' then Some 0
      else if length z = 6 \<and> z ! 0 \<in> {CHR ''+'', CHR ''-''} \<and> z ! 3 = CHR '':''
           \<and> list_all isDigit [z ! 1, z ! 2, z ! 4, z ! 5]
           \<and> digitsVal [z ! 1, z ! 2] \<le> 24 \<and> digitsVal [z ! 4, z ! 5] \<le> 60
      then Some ((if z ! 0 = CHR ''-'' then -1 else 1) * int (60 * digitsVal [z ! 1, z ! 2] + digitsVal [z ! 4, z ! 5]))
      else None)"

definition parseOneOffTime :: "string \<Rightarrow> (int \<times> string) option" where
  "parseOneOffTime raw =
     (let d = take 4 raw @ take 2 (drop 5 raw) @ take 2 (drop 8 raw); c = take 2 (drop 11 raw) @ take 2 (drop 14 raw);
          zone = drop 19 raw
      in if length raw < 20 \<or> raw ! 4 \<noteq> CHR ''-'' \<or> raw ! 7 \<noteq> CHR ''-'' \<or> raw ! 10 \<noteq> CHR ''T'' \<or> raw ! 13 \<noteq> CHR '':''
            \<or> take 3 (drop 16 raw) \<noteq> '':00'' \<or> \<not> list_all isDigit (d @ c) then None
         else case (parseZone zone, parseDateTime d (c @ ''00'')) of
             (Some z, Some t) \<Rightarrow>
               Some ((daysFromCivil (int (u_year t)) (int (u_month t)) (int (u_day t))) * day
                      + (int (60 * u_hour t + u_min t) - z) * minute,
                     if z = 0 then take 19 raw @ ''Z'' else raw)
           | _ \<Rightarrow> None)"

definition NewCronSchedule :: "cronParser \<Rightarrow> string \<Rightarrow> Schedule option" where
  "NewCronSchedule cp expr = map_option (\<lambda>(p, normalized).
     zeroSchedule\<lparr>sc_Kind := ScheduleKindCron, sc_Expression := normalized, sc_Parsed := Some p\<rparr>) (parseCronExpression cp expr)"

definition NewOneOffSchedule :: "string \<Rightarrow> Schedule option" where
  "NewOneOffSchedule at = map_option (\<lambda>(t, normalized).
     zeroSchedule\<lparr>sc_Kind := ScheduleKindAt, sc_At := normalized, sc_AtTime := t\<rparr>) (parseOneOffTime at)"

definition normalizeSchedule :: "cronParser \<Rightarrow> Schedule \<Rightarrow> Schedule option" where
  "normalizeSchedule cp s =
     (if GetKind s = ScheduleKindCron then NewCronSchedule cp (sc_Expression s)
      else if GetKind s = ScheduleKindAt then NewOneOffSchedule (sc_At s)
      else if GetKind s = '''' then Some zeroSchedule
      else None)"

definition parsedCron :: "cronParser \<Rightarrow> Schedule \<Rightarrow> (int \<Rightarrow> int) option" where
  "parsedCron cp s =
     (if sc_Parsed s \<noteq> None then sc_Parsed s
      else if \<not> IsCron s \<or> sc_Expression s = '''' then None
      else map_option fst (parseCronExpression cp (sc_Expression s)))"

definition oneOffTime :: "Schedule \<Rightarrow> int option" where
  "oneOffTime s =
     (if \<not> IsZero (sc_AtTime s) then Some (sc_AtTime s)
      else if \<not> IsOneOff s \<or> sc_At s = '''' then None
      else map_option fst (parseOneOffTime (sc_At s)))"

definition Schedule_Next :: "cronParser \<Rightarrow> Schedule \<Rightarrow> int \<Rightarrow> int" where
  "Schedule_Next cp s now =
     (if GetKind s = ScheduleKindCron then (case parsedCron cp s of None \<Rightarrow> zeroTime | Some p \<Rightarrow> p now)
      else if GetKind s = ScheduleKindAt then
        (case oneOffTime s of None \<Rightarrow> zeroTime | Some at \<Rightarrow> if at \<le> now then zeroTime else at)
      else zeroTime)"

definition DueAt :: "cronParser \<Rightarrow> Schedule \<Rightarrow> int \<Rightarrow> int option" where
  "DueAt cp s now =
     (if GetKind s = ScheduleKindCron then
        (case parsedCron cp s of None \<Rightarrow> None
         | Some p \<Rightarrow> if p (now - second) > now then None else Some (p (now - second)))
      else None)"

definition Fingerprint :: "cronParser \<Rightarrow> Schedule \<Rightarrow> string" where
  "Fingerprint cp s = (case normalizeSchedule cp s of
       None \<Rightarrow> ''''
     | Some n \<Rightarrow> if sc_Kind n = ScheduleKindCron then ''cron:'' @ sc_Expression n
                 else if sc_Kind n = ScheduleKindAt then ''at:'' @ sc_At n else '''')"

definition DisplayValue :: "Schedule \<Rightarrow> string" where
  "DisplayValue s = (if GetKind s = ScheduleKindCron then sc_Expression s
     else if GetKind s = ScheduleKindAt then sc_At s else '''')"

text \<open>
  Schedule entries of a DAG file: a string, or an object whose values are strings (\<open>Some\<close>) or not (\<open>None\<close>).
  Errors are \<open>None\<close>; which error an object with several mistakes gives depends on the order of a Go map.
\<close>

datatype ScheduleValue = SvString string | SvMap "(string \<times> string option) list"
  | SvAnyMap "(string option \<times> string option) list" | SvOther

definition parseScheduleMap :: "cronParser \<Rightarrow> bool \<Rightarrow> (string \<times> string option) list \<Rightarrow> Schedule option" where
  "parseScheduleMap cp allowAt m =
     (if list_ex (\<lambda>(k, v). k \<notin> {''kind'', ''expression'', ''at''} \<or> v = None) m then None
      else (let get = (\<lambda>k. case map_of m k of Some (Some v) \<Rightarrow> v | _ \<Rightarrow> '''');
                kind0 = TrimSpace (get ''kind''); expression = get ''expression''; at = get ''at'';
                kind = (if kind0 \<noteq> '''' then kind0 else if at \<noteq> '''' then ScheduleKindAt
                        else if expression \<noteq> '''' then ScheduleKindCron else '''')
            in if expression \<noteq> '''' \<and> at \<noteq> '''' then None
               else if kind = '''' then None
               else if kind = ScheduleKindCron \<and> (expression = '''' \<or> at \<noteq> '''') then None
               else if kind = ScheduleKindAt \<and> (at = '''' \<or> expression \<noteq> '''') then None
               else if kind = ScheduleKindAt \<and> \<not> allowAt then None
               else normalizeSchedule cp (zeroSchedule\<lparr>sc_Kind := kind, sc_Expression := expression, sc_At := at\<rparr>)))"

definition ParseScheduleValue :: "cronParser \<Rightarrow> bool \<Rightarrow> ScheduleValue \<Rightarrow> Schedule option" where
  "ParseScheduleValue cp allowAt v = (case v of
       SvString s \<Rightarrow> NewCronSchedule cp s
     | SvMap m \<Rightarrow> parseScheduleMap cp allowAt m
     | SvAnyMap m \<Rightarrow> if list_ex (\<lambda>(k, _). k = None) m then None
                    else parseScheduleMap cp allowAt (map (\<lambda>(k, v). (the k, v)) m)
     | SvOther \<Rightarrow> None)"

definition ParseOverlapPolicy :: "string \<Rightarrow> string option" where
  "ParseOverlapPolicy s =
     (let t = map (\<lambda>c. if 65 \<le> (of_char c :: nat) \<and> of_char c \<le> (90 :: nat) then char_of (of_char c + 32 :: nat) else c) (TrimSpace s)
      in if t \<in> {'''', ''skip''} then Some ''skip'' else if t = ''all'' then Some ''all'' else if t = ''latest'' then Some ''latest'' else None)"

text \<open>\<open>stringutil.ParseTime\<close>; \<open>rfc\<close> and \<open>legacy\<close> parse in the local time zone.\<close>

definition ParseTime :: "(string \<Rightarrow> int option) \<Rightarrow> (string \<Rightarrow> int option) \<Rightarrow> string \<Rightarrow> int option" where
  "ParseTime rfc legacy val =
     (if val = '''' \<or> val = ''-'' then Some zeroTime else case rfc val of Some t \<Rightarrow> Some t | None \<Rightarrow> legacy val)"

end
