(* ===== verification/Sched_Buffer.thy ===== *)
theory Sched_Buffer
  imports Sched_Core
begin

text \<open>
  Catch-up runs: the buffer of a DAG (\<open>internal/service/scheduler/schedule_buffer.go\<close>) and the missed
  intervals (\<open>catchup.go\<close>).
\<close>

section \<open>The buffer\<close>

datatype ScheduleType = ScheduleTypeStart | ScheduleTypeStop | ScheduleTypeRestart

text \<open>The part of a DAG that the scheduler reads; the policy is a string as in the source.\<close>

record SchedDAG =
  sd_Name :: string
  sd_Location :: string
  sd_CatchupWindow :: int
  sd_OverlapPolicy :: string
  sd_SkipIfSuccessful :: bool
  sd_Schedule :: "Schedule list"
  sd_StopSchedule :: "Schedule list"
  sd_RestartSchedule :: "Schedule list"

record QueueItem =
  it_DAG :: SchedDAG
  it_ScheduledTime :: int
  it_TriggerType :: TriggerType
  it_ScheduleType :: ScheduleType

record ScheduleBuffer =
  sb_items :: "QueueItem list"
  sb_overlapPolicy :: string
  sb_maxItems :: int

definition DefaultMaxBufferItems :: int where
  "DefaultMaxBufferItems = 1000"

definition NewScheduleBuffer :: "string \<Rightarrow> ScheduleBuffer" where
  "NewScheduleBuffer policy = \<lparr>sb_items = [], sb_overlapPolicy = policy, sb_maxItems = DefaultMaxBufferItems\<rparr>"

definition bufferFull :: "ScheduleBuffer \<Rightarrow> bool" where
  "bufferFull q \<longleftrightarrow> sb_maxItems q > 0 \<and> int (length (sb_items q)) \<ge> sb_maxItems q"

definition Send :: "QueueItem \<Rightarrow> ScheduleBuffer \<Rightarrow> bool \<times> ScheduleBuffer" where
  "Send item q = (if bufferFull q then (False, q) else (True, q\<lparr>sb_items := sb_items q @ [item]\<rparr>))"

definition Peek :: "ScheduleBuffer \<Rightarrow> QueueItem option" where
  "Peek q = (case sb_items q of [] \<Rightarrow> None | i # _ \<Rightarrow> Some i)"

definition Pop :: "ScheduleBuffer \<Rightarrow> QueueItem option \<times> ScheduleBuffer" where
  "Pop q = (case sb_items q of [] \<Rightarrow> (None, q) | i # is \<Rightarrow> (Some i, q\<lparr>sb_items := is\<rparr>))"

definition DropAllButLast :: "ScheduleBuffer \<Rightarrow> QueueItem list \<times> ScheduleBuffer" where
  "DropAllButLast q =
     (if length (sb_items q) \<le> 1 then ([], q) else (butlast (sb_items q), q\<lparr>sb_items := [last (sb_items q)]\<rparr>))"

definition Prepend :: "QueueItem \<Rightarrow> ScheduleBuffer \<Rightarrow> bool \<times> ScheduleBuffer" where
  "Prepend item q = (if bufferFull q then (False, q) else (True, q\<lparr>sb_items := item # sb_items q\<rparr>))"

text \<open>Sending items until the buffer is full.\<close>

fun sendAll :: "QueueItem list \<Rightarrow> ScheduleBuffer \<Rightarrow> ScheduleBuffer" where
  "sendAll [] q = q"
| "sendAll (i # is) q = (let (ok, q') = Send i q in if ok then sendAll is q' else q)"

section \<open>Missed intervals\<close>

definition ComputeReplayFrom :: "int \<Rightarrow> int \<Rightarrow> int \<Rightarrow> int \<Rightarrow> int" where
  "ComputeReplayFrom catchupWindow lastTick lastScheduledTime now =
     (let e0 = now - catchupWindow;
          e1 = (if lastTick > e0 then lastTick else e0)
      in if lastScheduledTime > e1 then lastScheduledTime else e1)"

definition MaxMissedRuns :: nat where
  "MaxMissedRuns = 1000"

text \<open>
  The inner loop for one schedule.  The map \<open>seen\<close> holds exactly the times in \<open>result\<close>.  The loop leaves when
  the next time is not later, so it ends for every schedule.
\<close>

function missedLoop :: "(int \<Rightarrow> int) \<Rightarrow> int \<Rightarrow> int \<Rightarrow> int list \<Rightarrow> int list" where
  "missedLoop p replayTo t result =
     (if t > replayTo then result
      else (let result' = (if t \<in> set result then result else result @ [t])
            in if p t \<le> t then result' else missedLoop p replayTo (p t) result'))"
  by pat_completeness auto
termination
  by (relation "measure (\<lambda>(p, to, t, r). nat (to - t + 1))") auto

declare missedLoop.simps [simp del]

definition missedTimes :: "int \<Rightarrow> int \<Rightarrow> Schedule \<Rightarrow> int list \<Rightarrow> int list" where
  "missedTimes replayFrom replayTo s result = (case sc_Parsed s of
     None \<Rightarrow> result | Some p \<Rightarrow> missedLoop p replayTo (p replayFrom) result)"

definition ComputeMissedIntervals :: "Schedule list \<Rightarrow> int \<Rightarrow> int \<Rightarrow> int list" where
  "ComputeMissedIntervals schedules replayFrom replayTo =
     (let result = sort (fold (missedTimes replayFrom replayTo) schedules [])
      in if length result > MaxMissedRuns then drop (length result - MaxMissedRuns) result else result)"

section \<open>Correctness of the missed intervals\<close>

text \<open>
  The contract of a parsed cron expression with activation times \<open>F\<close>: the next activation after \<open>t\<close>, and the
  zero time when there is none.
\<close>

definition nextOf :: "int set \<Rightarrow> (int \<Rightarrow> int) \<Rightarrow> bool" where
  "nextOf F p \<longleftrightarrow> (\<forall>t. if \<exists>u\<in>F. u > t then p t \<in> F \<and> p t > t \<and> (\<forall>u\<in>F. u > t \<longrightarrow> p t \<le> u) else p t = zeroTime)"

lemma missedLoop_set:
  assumes "nextOf F p" "t \<in> F" "\<exists>u\<in>F. u > replayTo" "zeroTime < t"
  shows "set (missedLoop p replayTo t r) = set r \<union> {u \<in> F. t \<le> u \<and> u \<le> replayTo}"
  using assms
proof (induction p replayTo t r rule: missedLoop.induct)
  case (1 p to t r)
  show ?case
  proof (cases "t > to")
    case True
    then show ?thesis by (subst missedLoop.simps) auto
  next
    case False
    have ex: "\<exists>u\<in>F. u > t" using 1(4) False by force
    then have p: "p t \<in> F" "p t > t" "\<forall>u\<in>F. u > t \<longrightarrow> p t \<le> u" using 1(2) unfolding nextOf_def by meson+
    let ?r = "if t \<in> set r then r else r @ [t]"
    have "set (missedLoop p to (p t) ?r) = set ?r \<union> {u \<in> F. p t \<le> u \<and> u \<le> to}"
      using 1(1)[OF False refl _ 1(2) p(1) 1(4)] p(2) 1(5) by simp
    moreover have "{u \<in> F. t \<le> u \<and> u \<le> to} = insert t {u \<in> F. p t \<le> u \<and> u \<le> to}"
      using p 1(3) False by force
    ultimately show ?thesis using False p(2) by (subst missedLoop.simps) (auto simp: Let_def)
  qed
qed

lemma missedLoop_distinct: "distinct r \<Longrightarrow> distinct (missedLoop p to t r)"
proof (induction p to t r rule: missedLoop.induct)
  case (1 p to t r)
  then show ?case by (subst missedLoop.simps) (auto simp: Let_def)
qed

lemma missedTimes_set:
  assumes "nextOf F p" "sc_Parsed s = Some p" "\<exists>u\<in>F. u > replayTo" "replayFrom \<le> replayTo" "zeroTime \<le> replayFrom"
  shows "set (missedTimes replayFrom replayTo s r) = set r \<union> {u \<in> F. replayFrom < u \<and> u \<le> replayTo}"
proof -
  have "\<exists>u\<in>F. u > replayFrom" using assms(3,4) by force
  then have p: "p replayFrom \<in> F" "p replayFrom > replayFrom" "\<forall>u\<in>F. u > replayFrom \<longrightarrow> p replayFrom \<le> u"
    using assms(1) unfolding nextOf_def by meson+
  have "{u \<in> F. p replayFrom \<le> u \<and> u \<le> replayTo} = {u \<in> F. replayFrom < u \<and> u \<le> replayTo}" using p by force
  then show ?thesis using missedLoop_set[OF assms(1) p(1) assms(3)] p(2) assms(2,5) by (simp add: missedTimes_def)
qed

lemma missedTimes_distinct: "distinct r \<Longrightarrow> distinct (missedTimes f to s r)"
  by (simp add: missedTimes_def missedLoop_distinct split: option.splits)

text \<open>C16: catch-up replays exactly the missed activations: for schedules that keep firing, the computed intervals are the
  activation times of any of the schedules after the start and up to now, in order and without
  duplicates, cut to the most recent thousand.\<close>

theorem missed_intervals_exact:
  assumes "\<forall>s\<in>set schedules. \<exists>p. sc_Parsed s = Some p \<and> nextOf (F s) p \<and> (\<exists>u\<in>F s. u > replayTo)"
    and "replayFrom \<le> replayTo" "zeroTime \<le> replayFrom"
  shows "let M = {u. \<exists>s\<in>set schedules. u \<in> F s \<and> replayFrom < u \<and> u \<le> replayTo};
             r = ComputeMissedIntervals schedules replayFrom replayTo
         in sorted_wrt (<) r \<and> length r = min (card M) MaxMissedRuns \<and> set r \<subseteq> M
            \<and> (\<forall>u\<in>M. \<forall>v\<in>set r. v \<le> u \<longrightarrow> u \<in> set r)"
proof -
  let ?M = "{u. \<exists>s\<in>set schedules. u \<in> F s \<and> replayFrom < u \<and> u \<le> replayTo}"
  let ?all = "fold (missedTimes replayFrom replayTo) schedules []"
  have "set (fold (missedTimes replayFrom replayTo) ss r) = set r \<union> {u. \<exists>s\<in>set ss. u \<in> F s \<and> replayFrom < u \<and> u \<le> replayTo}"
    if "set ss \<subseteq> set schedules" for ss r
    using that
  proof (induction ss arbitrary: r)
    case (Cons s ss)
    have "s \<in> set schedules" using Cons.prems by simp
    then obtain p where "sc_Parsed s = Some p" "nextOf (F s) p" "\<exists>u\<in>F s. u > replayTo" using assms(1) by blast
    from missedTimes_set[OF this(2,1,3) assms(2,3)] show ?case using Cons by auto
  qed simp
  from this[of schedules "[]"] have set: "set ?all = ?M" by simp
  have dist: "distinct (fold (missedTimes replayFrom replayTo) ss r)" if "distinct r" for ss r
    using that by (induction ss arbitrary: r) (simp_all add: missedTimes_distinct)
  define S where "S = sort ?all"
  have S: "sorted_wrt (<) S" "set S = ?M" "length S = card ?M"
    using dist[of "[]" schedules] set by (auto simp: S_def strict_sorted_iff distinct_card[symmetric])
  have r: "ComputeMissedIntervals schedules replayFrom replayTo = drop (length S - MaxMissedRuns) S"
    by (auto simp: ComputeMissedIntervals_def S_def Let_def)
  have "u \<in> set (drop n S)" if "u \<in> set S" "v \<in> set (drop n S)" "v \<le> u" for u v n
  proof (rule ccontr)
    assume "u \<notin> set (drop n S)"
    then have "u \<in> set (take n S)" using that(1) by (metis Un_iff append_take_drop_id set_append)
    moreover have "sorted_wrt (<) (take n S @ drop n S)" using S(1) by simp
    ultimately have "u < v" using that(2) unfolding sorted_wrt_append by blast
    then show False using that(3) by simp
  qed
  moreover have "sorted_wrt (<) (drop n S)" for n using S(1) by (rule sorted_wrt_drop)
  moreover have "set (drop n S) \<subseteq> ?M" for n using S(2) set_drop_subset by metis
  ultimately show ?thesis unfolding r Let_def using S(2,3) by auto
qed

text \<open>An hourly schedule.\<close>

definition everyHour :: "int \<Rightarrow> int" where
  "everyHour t = t - t mod (60 * minute) + 60 * minute"

definition hourly :: Schedule where
  "hourly = zeroSchedule\<lparr>sc_Kind := ScheduleKindCron, sc_Expression := ''0 * * * *'', sc_Parsed := Some everyHour\<rparr>"

lemma multiples_next:
  fixes h :: int
  assumes "h > 0"
  shows "nextOf {u. u mod h = 0} (\<lambda>t. t - t mod h + h)"
proof -
  have least: "t - t mod h + h \<le> u" if "u mod h = 0" "u > t" for u t
  proof -
    have u: "h * (u div h) = u" and t: "h * (t div h) = t - t mod h"
      using that(1) by (simp_all add: minus_mod_eq_mult_div[symmetric])
    have "t div h < u div h"
    proof (rule ccontr)
      assume "\<not> t div h < u div h"
      then have "h * (u div h) \<le> h * (t div h)" using assms by simp
      then show False using u t that(2) pos_mod_sign[OF assms, of t] by linarith
    qed
    then have "h * (t div h + 1) \<le> h * (u div h)" using assms by simp
    then show ?thesis using u t by (simp add: algebra_simps)
  qed
  have m: "(t - t mod h + h) mod h = 0" for t by (simp add: minus_mod_eq_mult_div)
  have l: "t - t mod h + h > t" for t using pos_mod_bound[OF assms, of t] by linarith
  show ?thesis unfolding nextOf_def
  proof
    fix t
    have ex: "\<exists>u\<in>{u. u mod h = 0}. u > t"
      by (rule bexI[of _ "t - t mod h + h"]) (rule l, rule CollectI, rule m)
    show "if \<exists>u\<in>{u. u mod h = 0}. u > t
      then t - t mod h + h \<in> {u. u mod h = 0} \<and> t - t mod h + h > t \<and> (\<forall>u\<in>{u. u mod h = 0}. u > t \<longrightarrow> t - t mod h + h \<le> u)
      else t - t mod h + h = zeroTime"
      unfolding if_P[OF ex] mem_Collect_eq by (intro conjI ballI impI m l least; simp only: mem_Collect_eq)
  qed
qed

lemma everyHour_next: "nextOf {u. u mod (60 * minute) = 0} everyHour"
  using multiples_next[of "60 * minute"] by (simp add: everyHour_def[abs_def] minute_def second_def)

theorem missed_intervals_exact_witness:
  "ComputeMissedIntervals [hourly] (60 * minute) (200 * minute) = [120 * minute, 180 * minute]
   \<and> set (ComputeMissedIntervals [hourly] (60 * minute) (200 * minute))
       \<subseteq> {u. u mod (60 * minute) = 0 \<and> 60 * minute < u \<and> u \<le> 200 * minute}"
proof -
  let ?F = "\<lambda>s :: Schedule. {u. u mod (60 * minute) = 0}"
  have "\<exists>u\<in>?F hourly. u > 200 * minute"
    by (rule bexI[of _ "300 * minute"]) (simp_all add: minute_def second_def)
  then have h: "\<forall>s\<in>set [hourly]. \<exists>p. sc_Parsed s = Some p \<and> nextOf (?F s) p \<and> (\<exists>u\<in>?F s. u > 200 * minute)"
    using everyHour_next by (simp add: hourly_def)
  have z: "zeroTime \<le> 60 * minute" "60 * minute \<le> 200 * minute" by (simp_all add: zeroTime_eq minute_def second_def)
  have "ComputeMissedIntervals [hourly] (60 * minute) (200 * minute) = [120 * minute, 180 * minute]"
    by (simp add: ComputeMissedIntervals_def missedTimes_def hourly_def everyHour_def missedLoop.simps minute_def second_def MaxMissedRuns_def)
  then show ?thesis using missed_intervals_exact[OF h z(2,1)] unfolding Let_def by auto
qed

end
