(* ===== verification/Sched_RunID.thy ===== *)
theory Sched_RunID
  imports Sched_Core Validator
begin

text \<open>
  Identifiers of scheduled runs (\<open>internal/service/scheduler/catchup_runid.go\<close>) and the check of dag-run IDs
  (\<open>internal/core/exec/dagrun.go\<close>).  The hash of a name is a parameter: \<open>sha hex\<close> is the hexadecimal SHA-256 digest.
\<close>

section \<open>Generation\<close>

definition catchupPrefix :: string where
  "catchupPrefix = ''catchup-''"

definition oneOffPrefix :: string where
  "oneOffPrefix = ''oneoff-''"

definition maxRunIDLen :: nat where
  "maxRunIDLen = 64"

definition hashLen :: nat where
  "hashLen = 8"

definition timestampLayout :: string where
  "timestampLayout = ''20060102T150405''"

text \<open>\<open>Format(timestampLayout)\<close>: the year has at least four digits.\<close>

definition formatTimestamp :: "UTC \<Rightarrow> string" where
  "formatTimestamp u =
     (if u_year u < 10000 then padNat 4 (u_year u) else itoaNat (u_year u))
     @ padNat 2 (u_month u) @ padNat 2 (u_day u) @ ''T'' @ padNat 2 (u_hour u) @ padNat 2 (u_min u) @ padNat 2 (u_sec u)"

definition sanitizeDagName :: "string \<Rightarrow> string" where
  "sanitizeDagName name = map (\<lambda>c. if c = CHR ''.'' then CHR ''_'' else c) name"

definition dagNameHash :: "(string \<Rightarrow> string) \<Rightarrow> string \<Rightarrow> string" where
  "dagNameHash sha name = take hashLen (sha name)"

definition generateScheduledRunID :: "(string \<Rightarrow> string) \<Rightarrow> string \<Rightarrow> string \<Rightarrow> string \<Rightarrow> int \<Rightarrow> string" where
  "generateScheduledRunID sha pre dagName hashSource scheduledTime =
     (let sanitized = sanitizeDagName dagName;
          h = dagNameHash sha hashSource;
          ts = formatTimestamp (utcFields scheduledTime);
          maxNameLen = maxRunIDLen - length pre - 1 - hashLen - 1 - length timestampLayout;
          cut = (if length sanitized > maxNameLen then take maxNameLen sanitized else sanitized)
      in pre @ cut @ ''-'' @ h @ ''-'' @ ts)"

definition GenerateCatchupRunID :: "(string \<Rightarrow> string) \<Rightarrow> string \<Rightarrow> int \<Rightarrow> string" where
  "GenerateCatchupRunID sha dagName scheduledTime =
     generateScheduledRunID sha catchupPrefix dagName dagName scheduledTime"

definition GenerateOneOffRunID :: "(string \<Rightarrow> string) \<Rightarrow> string \<Rightarrow> string \<Rightarrow> int \<Rightarrow> string" where
  "GenerateOneOffRunID sha dagName fingerprint scheduledTime =
     generateScheduledRunID sha oneOffPrefix dagName (dagName @ '':'' @ fingerprint) scheduledTime"

section \<open>Validation\<close>

datatype RunIDError = ErrRunIDEmpty | ErrRunIDChars | ErrRunIDTooLong

definition maxDAGRunIDLen :: nat where
  "maxDAGRunIDLen = 64"

definition runIDChar :: "char \<Rightarrow> bool" where
  "runIDChar c \<longleftrightarrow> isLetter c \<or> isDigit c \<or> c \<in> set ''-_''"

definition ValidateDAGRunID :: "string \<Rightarrow> RunIDError option" where
  "ValidateDAGRunID dagRunID =
     (if dagRunID = '''' then Some ErrRunIDEmpty
      else if \<not> list_all runIDChar dagRunID then Some ErrRunIDChars
      else if length dagRunID > maxDAGRunIDLen then Some ErrRunIDTooLong
      else None)"

section \<open>The calendar\<close>

text \<open>
  A March-based year of a 400-year era starts at day \<open>yearStart y\<close>; \<open>dayYears\<close> is the correction that makes
  division by 365 exact.
\<close>

definition yearStart :: "int \<Rightarrow> int" where
  "yearStart y = 365 * y + y div 4 - y div 100"

definition yearEnd :: "int \<Rightarrow> int" where
  "yearEnd y = (if y = 399 then 146096 else yearStart (y + 1) - 1)"

definition dayYears :: "int \<Rightarrow> int" where
  "dayYears n = n - n div 1460 + n div 36524 - n div 146096"

lemma minus_div_mono:
  fixes d :: int
  assumes "d > 0" "x \<le> y"
  shows "x - x div d \<le> y - y div d"
  using assms(2)
proof (induction y rule: int_ge_induct)
  case (step y)
  have "(y + 1) div d \<le> (y + d) div d" using assms(1) by (intro zdiv_mono1) auto
  also have "\<dots> = y div d + 1" using assms(1) by simp
  finally show ?case using step.IH by linarith
qed simp

lemma dayYears_mono:
  assumes "x \<le> y"
  shows "dayYears x \<le> dayYears y"
proof -
  have q: "n div 146096 = n div 36524 div 4" for n :: int by (simp add: zdiv_zmult2_eq[symmetric])
  have "x - x div 1460 \<le> y - y div 1460" using minus_div_mono[OF _ assms] by simp
  moreover have "x div 36524 - x div 36524 div 4 \<le> y div 36524 - y div 36524 div 4"
    using minus_div_mono[of 4] zdiv_mono1[OF assms] by simp
  ultimately show ?thesis unfolding dayYears_def q by linarith
qed

lemma year_table:
  "list_all (\<lambda>y. 365 * y \<le> dayYears (yearStart y) \<and> dayYears (yearEnd y) < 365 * (y + 1)
     \<and> yearEnd y - yearStart y \<le> 365) [0..399]"
  by code_simp

lemma year_exists:
  assumes "0 \<le> n" "n < yearStart (int k)"
  shows "\<exists>y\<ge>0. y < int k \<and> yearStart y \<le> n \<and> n < yearStart (y + 1)"
  using assms
proof (induction k)
  case (Suc k)
  show ?case
  proof (cases "n < yearStart (int k)")
    case True
    then obtain y where "y \<ge> 0" "y < int k" "yearStart y \<le> n" "n < yearStart (y + 1)" using Suc by blast
    then show ?thesis by force
  next
    case False
    then show ?thesis using Suc.prems(2) by (intro exI[of _ "int k"]) (simp add: add.commute)
  qed
qed (simp add: yearStart_def)

lemma year_of_day:
  assumes "0 \<le> n" "n < 146097"
  shows "let y = dayYears n div 365 in 0 \<le> y \<and> y \<le> 399 \<and> 0 \<le> n - yearStart y \<and> n - yearStart y \<le> 365"
proof -
  have "\<exists>y\<ge>0. y \<le> 399 \<and> yearStart y \<le> n \<and> n \<le> yearEnd y"
  proof (cases "n = 146096")
    case True
    then show ?thesis by (intro exI[of _ 399]) (simp add: yearStart_def yearEnd_def)
  next
    case False
    then have "n < yearStart (int 400)" using assms(2) by (simp add: yearStart_def)
    from year_exists[OF assms(1) this] obtain y
      where "y \<ge> 0" "y < int 400" "yearStart y \<le> n" "n < yearStart (y + 1)" by blast
    then show ?thesis using assms(2) by (intro exI[of _ y]) (auto simp: yearEnd_def)
  qed
  then obtain y where y: "0 \<le> y" "y \<le> 399" "yearStart y \<le> n" "n \<le> yearEnd y" by blast
  have t: "365 * y \<le> dayYears (yearStart y)" "dayYears (yearEnd y) < 365 * (y + 1)" "yearEnd y - yearStart y \<le> 365"
    using year_table y(1,2) by (auto simp: list_all_iff)
  have "365 * y \<le> dayYears n" "dayYears n < 365 * (y + 1)"
    using t(1,2) dayYears_mono[OF y(3)] dayYears_mono[OF y(4)] by linarith+
  then have "dayYears n div 365 = y" by (intro int_div_pos_eq[of _ _ _ "dayYears n - 365 * y"]) auto
  then show ?thesis using y t(3) by simp
qed

lemma civil_parts:
  assumes "civilFromDays days = (y, m, d)"
  obtains era yoe mp where "days + 719468 = era * 146097 + yearStart yoe + (153 * mp + 2) div 5 + d - 1"
    "era = (days + 719468) div 146097" "0 \<le> yoe" "yoe \<le> 399" "0 \<le> mp" "mp \<le> 11" "1 \<le> d" "d \<le> 31"
    "m = (if mp < 10 then mp + 3 else mp - 9)" "y = yoe + era * 400 + (if m \<le> 2 then 1 else 0)"
proof -
  define z where "z = days + 719468"
  define era where "era = z div 146097"
  define doe where "doe = z - era * 146097"
  define yoe where "yoe = dayYears doe div 365"
  define doy where "doy = doe - yearStart yoe"
  define mp where "mp = (5 * doy + 2) div 153"
  define k where "k = (153 * mp + 2) div 5"
  have doe: "doe = z mod 146097" by (simp add: doe_def era_def minus_div_mult_eq_mod)
  have yd: "0 \<le> yoe" "yoe \<le> 399" "0 \<le> doy" "doy \<le> 365"
    using year_of_day[of doe] unfolding Let_def yoe_def doy_def doe by simp_all
  have mp: "153 * mp \<le> 5 * doy + 2" "5 * doy + 2 < 153 * mp + 153" unfolding mp_def by simp_all
  have k: "5 * k \<le> 153 * mp + 2" "153 * mp + 2 < 5 * k + 5" unfolding k_def by simp_all
  define M where "M = (if mp < 10 then mp + 3 else mp - 9)"
  have ys: "365 * y + y div 4 - y div 100 = yearStart y" for y by (simp add: yearStart_def)
  have "civilFromDays days = (if M \<le> 2 then yoe + era * 400 + 1 else yoe + era * 400, M, doy - k + 1)"
    unfolding civilFromDays_def Let_def z_def[symmetric] era_def[symmetric] doe_def[symmetric]
      dayYears_def[symmetric] yoe_def[symmetric] ys doy_def[symmetric] mp_def[symmetric] k_def[symmetric] M_def[symmetric] by (rule refl)
  then have c: "m = (if mp < 10 then mp + 3 else mp - 9)" "d = doy - k + 1" "y = yoe + era * 400 + (if m \<le> 2 then 1 else 0)"
    unfolding assms by (simp_all add: M_def)
  show ?thesis
  proof (rule that)
    show "days + 719468 = era * 146097 + yearStart yoe + (153 * mp + 2) div 5 + d - 1"
      using c(2) unfolding doy_def doe_def z_def k_def by simp
    show "era = (days + 719468) div 146097" by (simp add: era_def z_def)
    show "0 \<le> mp" "mp \<le> 11" using mp yd(3,4) by linarith+
    show "1 \<le> d" "d \<le> 31" using c(2) mp k by linarith+
  qed (use yd c in auto)
qed

lemma civilFromDays_inj:
  assumes "civilFromDays a = civilFromDays b"
  shows "a = b"
proof -
  obtain y m d where a: "civilFromDays a = (y, m, d)" and b: "civilFromDays b = (y, m, d)"
    using assms by (metis prod_cases3)
  from a obtain era yoe mp where A: "a + 719468 = era * 146097 + yearStart yoe + (153 * mp + 2) div 5 + d - 1"
    "0 \<le> yoe" "yoe \<le> 399" "0 \<le> mp" "mp \<le> 11"
    "m = (if mp < 10 then mp + 3 else mp - 9)" "y = yoe + era * 400 + (if m \<le> 2 then 1 else 0)" by (rule civil_parts)
  from b obtain era' yoe' mp' where B: "b + 719468 = era' * 146097 + yearStart yoe' + (153 * mp' + 2) div 5 + d - 1"
    "0 \<le> yoe'" "yoe' \<le> 399" "0 \<le> mp'" "mp' \<le> 11"
    "m = (if mp' < 10 then mp' + 3 else mp' - 9)" "y = yoe' + era' * 400 + (if m \<le> 2 then 1 else 0)" by (rule civil_parts)
  have "mp = mp'" using A(4,5,6) B(4,5,6) by (auto split: if_splits)
  moreover have e: "yoe + era * 400 = yoe' + era' * 400" using A(7) B(7) by simp
  then have "era = era'" using A(2,3) B(2,3) by arith
  ultimately show ?thesis using A(1) B(1) e by simp
qed

section \<open>Timestamps\<close>

text \<open>Times from the zero time to the end of the year 9999, which \<open>formatTimestamp\<close> writes with fifteen characters.\<close>

definition fourDigitYear :: "int \<Rightarrow> bool" where
  "fourDigitYear t \<longleftrightarrow> zeroTime \<le> t \<and> u_year (utcFields t) < 10000"

lemma utcFields_sel:
  assumes "civilFromDays (t div day) = (y, m, d)" "s = t mod day div second"
  shows "u_year (utcFields t) = nat y" "u_month (utcFields t) = nat m" "u_day (utcFields t) = nat d"
    "u_hour (utcFields t) = nat (s div 3600)" "u_min (utcFields t) = nat (s div 60 mod 60)" "u_sec (utcFields t) = nat (s mod 60)"
  unfolding utcFields_def assms Let_def prod.case UTC.simps by (rule refl)+

lemma daySeconds: "0 \<le> t mod day div second" "t mod day div second < 86400"
  by (simp_all add: day_def minute_def second_def div_less_iff_less_mult pos_imp_zdiv_nonneg_iff)

lemma sexagesimal: "(v :: int) = v div 3600 * 3600 + v div 60 mod 60 * 60 + v mod 60"
proof -
  have "v div 3600 = v div 60 div 60" by (simp add: zdiv_zmult2_eq[symmetric])
  moreover have "v = v div 60 * 60 + v mod 60" "v div 60 = v div 60 div 60 * 60 + v div 60 mod 60" by simp_all
  ultimately show ?thesis by linarith
qed

lemma utcFields_bounds:
  "u_month (utcFields t) < 100" "u_day (utcFields t) < 100" "u_hour (utcFields t) < 100"
  "u_min (utcFields t) < 100" "u_sec (utcFields t) < 100"
proof -
  define s where "s = t mod day div second"
  obtain y m d where c: "civilFromDays (t div day) = (y, m, d)" by (metis prod_cases3)
  then have "m \<le> 12" "d \<le> 31" by (rule civil_parts, simp)+
  moreover have "s div 3600 < 100" using daySeconds(2)[of t, folded s_def] by linarith
  moreover have "s div 60 mod 60 < 60" "s mod 60 < 60" by simp_all
  ultimately show "u_month (utcFields t) < 100" "u_day (utcFields t) < 100" "u_hour (utcFields t) < 100"
    "u_min (utcFields t) < 100" "u_sec (utcFields t) < 100"
    unfolding utcFields_sel[OF c s_def] by linarith+
qed

lemma utcFields_inj:
  assumes "zeroTime \<le> t" "zeroTime \<le> t'"
    "u_year (utcFields t) = u_year (utcFields t')" "u_month (utcFields t) = u_month (utcFields t')"
    "u_day (utcFields t) = u_day (utcFields t')" "u_hour (utcFields t) = u_hour (utcFields t')"
    "u_min (utcFields t) = u_min (utcFields t')" "u_sec (utcFields t) = u_sec (utcFields t')"
  shows "t div second = t' div second"
proof -
  have pos: "y \<ge> 0 \<and> m \<ge> 0 \<and> d \<ge> 0" if c: "civilFromDays (t div day) = (y, m, d)" and z: "zeroTime \<le> t" for t y m d
  proof -
    define D where "D = t div day"
    have "zeroTime div day = -719162" "day > 0" by (simp_all add: zeroTime_eq day_def minute_def second_def)
    then have "-719162 \<le> D" using zdiv_mono1[OF z, of day] by (simp add: D_def)
    then have era: "0 \<le> (D + 719468) div 146097" by (simp add: pos_imp_zdiv_nonneg_iff)
    from c[folded D_def] obtain era yoe mp where "era = (D + 719468) div 146097" "0 \<le> yoe" "0 \<le> mp" "1 \<le> d"
      "m = (if mp < 10 then mp + 3 else mp - 9)" "y = yoe + era * 400 + (if m \<le> 2 then 1 else 0)" by (rule civil_parts)
    then show ?thesis using era by auto
  qed
  obtain y m d where c: "civilFromDays (t div day) = (y, m, d)" by (metis prod_cases3)
  obtain y' m' d' where c': "civilFromDays (t' div day) = (y', m', d')" by (metis prod_cases3)
  define s where "s = t mod day div second"
  define s' where "s' = t' mod day div second"
  note S = utcFields_sel[OF c s_def] utcFields_sel[OF c' s'_def]
  have "y = y' \<and> m = m' \<and> d = d'"
    using assms(3-5) pos[OF c assms(1)] pos[OF c' assms(2)] unfolding S by linarith
  then have days: "t div day = t' div day" using civilFromDays_inj c c' by simp
  have "0 \<le> s div 3600" "0 \<le> s' div 3600" using daySeconds(1)[of t] daySeconds(1)[of t']
    by (simp_all add: s_def s'_def pos_imp_zdiv_nonneg_iff)
  moreover have "0 \<le> v div 60 mod 60" "0 \<le> v mod 60" for v :: int by simp_all
  ultimately have "s div 3600 = s' div 3600" "s div 60 mod 60 = s' div 60 mod 60" "s mod 60 = s' mod 60"
    using assms(6-8) unfolding S by (simp_all only: eq_nat_nat_iff)
  then have "t mod day div second = t' mod day div second"
    unfolding s_def[symmetric] s'_def[symmetric] by (subst sexagesimal, subst (2) sexagesimal) (simp only:)
  moreover have "t div second = t div day * 86400 + t mod day div second" for t
  proof -
    have "t = t mod day + t div day * 86400 * second" by (simp add: day_def minute_def second_def)
    then have "t div second = (t mod day + t div day * 86400 * second) div second" by simp
    also have "\<dots> = t div day * 86400 + t mod day div second" by (simp add: second_def)
    finally show ?thesis .
  qed
  ultimately show ?thesis using days by metis
qed

lemma formatTimestamp_length:
  "u_year (utcFields t) < 10000 \<Longrightarrow> length (formatTimestamp (utcFields t)) = length timestampLayout"
  by (simp add: formatTimestamp_def timestampLayout_def)

lemma formatTimestamp_chars: "list_all runIDChar (formatTimestamp (utcFields t))"
proof -
  have "list_all runIDChar xs" if "list_all isDigit xs" for xs
    using that by (auto simp: list_all_iff runIDChar_def)
  then show ?thesis
    using padNat_digits itoaNat_digits unfolding formatTimestamp_def by (auto simp: runIDChar_def isLetter_def)
qed

lemma formatTimestamp_inj:
  assumes "fourDigitYear t" "fourDigitYear t'" "formatTimestamp (utcFields t) = formatTimestamp (utcFields t')"
  shows "t div second = t' div second"
proof -
  have y: "u_year (utcFields t) < 10 ^ 4" "u_year (utcFields t') < 10 ^ 4" "zeroTime \<le> t" "zeroTime \<le> t'"
    using assms(1,2) by (auto simp: fourDigitYear_def)
  have b: "n < 100 \<Longrightarrow> n < 10 ^ 2" for n :: nat by simp
  note f = b[OF utcFields_bounds(1)] b[OF utcFields_bounds(2)] b[OF utcFields_bounds(3)]
    b[OF utcFields_bounds(4)] b[OF utcFields_bounds(5)]
  from assms(3) y(1,2) have "padNat 4 (u_year (utcFields t)) = padNat 4 (u_year (utcFields t'))"
    "padNat 2 (u_month (utcFields t)) = padNat 2 (u_month (utcFields t'))"
    "padNat 2 (u_day (utcFields t)) = padNat 2 (u_day (utcFields t'))"
    "padNat 2 (u_hour (utcFields t)) = padNat 2 (u_hour (utcFields t'))"
    "padNat 2 (u_min (utcFields t)) = padNat 2 (u_min (utcFields t'))"
    "padNat 2 (u_sec (utcFields t)) = padNat 2 (u_sec (utcFields t'))"
    unfolding formatTimestamp_def by (simp_all add: append_eq_append_conv del: padNat.simps)
  then show ?thesis using y f by (intro utcFields_inj) (simp_all only: padNat_inj)
qed

lemma utcFields_second: "t div second = t' div second \<Longrightarrow> formatTimestamp (utcFields t) = formatTimestamp (utcFields t')"
proof -
  assume e: "t div second = t' div second"
  have d: "t div day = t div second div 86400" for t
    by (simp add: day_def minute_def second_def zdiv_zmult2_eq[symmetric])
  have "day = second * 86400" "second > 0" by (simp_all add: day_def minute_def second_def)
  then have m: "t mod day div second = t div second mod 86400" for t
    using zmod_zmult2_eq[of 86400 t second] by simp
  obtain y m d where c: "civilFromDays (t div day) = (y, m, d)" by (metis prod_cases3)
  then have c': "civilFromDays (t' div day) = (y, m, d)" using e by (simp add: d)
  show ?thesis unfolding formatTimestamp_def utcFields_sel[OF c refl] utcFields_sel[OF c' refl] m e by (rule refl)
qed

section \<open>Identifiers\<close>

text \<open>The documented shape of a hexadecimal SHA-256 digest.\<close>

definition hexDigest :: "(string \<Rightarrow> string) \<Rightarrow> bool" where
  "hexDigest sha \<longleftrightarrow> (\<forall>s. length (sha s) = 64 \<and> list_all (\<lambda>c. c \<in> set ''0123456789abcdef'') (sha s))"

lemma generateScheduledRunID_valid:
  assumes "hexDigest sha" "ValidateDAGName name = None" "fourDigitYear t" "list_all runIDChar pre" "length pre \<le> 8"
  shows "ValidateDAGRunID (generateScheduledRunID sha pre name src t) = None"
proof -
  have "list_all runIDChar (sanitizeDagName name)"
    using assms(2) by (auto simp: ValidateDAGName_def dagNameRegex_def sanitizeDagName_def runIDChar_def list_all_iff split: if_splits)
  then have n: "list_all runIDChar (take k (sanitizeDagName name))" for k
    by (auto simp: list_all_iff dest: in_set_takeD)
  have hex: "list_all runIDChar ''0123456789abcdef''" by code_simp
  have sha: "length (sha src) = 64" "list_all (\<lambda>c. c \<in> set ''0123456789abcdef'') (sha src)"
    using assms(1) unfolding hexDigest_def by blast+
  then have "list_all runIDChar (sha src)" using hex unfolding list_all_iff by blast
  then have h: "list_all runIDChar (dagNameHash sha src)" "length (dagNameHash sha src) = hashLen"
    using sha(1) by (auto simp: dagNameHash_def list_all_iff hashLen_def dest: in_set_takeD)
  have t: "length (formatTimestamp (utcFields t)) = length timestampLayout" using assms(3)
    by (simp add: fourDigitYear_def formatTimestamp_length)
  have c: "(if length xs > k then take k xs else xs) = take k xs" for k and xs :: string by simp
  show ?thesis using n h t assms(4,5) formatTimestamp_chars[of t]
    unfolding generateScheduledRunID_def Let_def c ValidateDAGRunID_def
    by (auto simp: maxRunIDLen_def maxDAGRunIDLen_def hashLen_def timestampLayout_def runIDChar_def[of "CHR ''-''"])
qed

text \<open>C29: for every DAG name the validator accepts, the identifiers of catch-up and one-off runs fit into the 64
  characters of a dag-run ID and pass its check, however long the name is; and the catch-up identifiers of a
  DAG are equal only for the same second, so no two intervals share a run.\<close>

theorem scheduled_run_ids:
  assumes "hexDigest sha" "ValidateDAGName name = None" "fourDigitYear t" "fourDigitYear t'"
  shows "ValidateDAGRunID (GenerateCatchupRunID sha name t) = None
    \<and> ValidateDAGRunID (GenerateOneOffRunID sha name fp t) = None
    \<and> (GenerateCatchupRunID sha name t = GenerateCatchupRunID sha name t' \<longleftrightarrow> t div second = t' div second)"
proof (intro conjI)
  show "ValidateDAGRunID (GenerateCatchupRunID sha name t) = None"
    unfolding GenerateCatchupRunID_def
    by (rule generateScheduledRunID_valid[OF assms(1-3)]) (simp_all add: catchupPrefix_def runIDChar_def isLetter_def)
  show "ValidateDAGRunID (GenerateOneOffRunID sha name fp t) = None"
    unfolding GenerateOneOffRunID_def
    by (rule generateScheduledRunID_valid[OF assms(1-3)]) (simp_all add: oneOffPrefix_def runIDChar_def isLetter_def)
  have "GenerateCatchupRunID sha name t = GenerateCatchupRunID sha name t'
    \<longleftrightarrow> formatTimestamp (utcFields t) = formatTimestamp (utcFields t')"
    by (simp add: GenerateCatchupRunID_def generateScheduledRunID_def Let_def)
  then show "GenerateCatchupRunID sha name t = GenerateCatchupRunID sha name t' \<longleftrightarrow> t div second = t' div second"
    using formatTimestamp_inj[OF assms(3,4)] utcFields_second by blast
qed

theorem scheduled_run_ids_witness:
  "let sha = (\<lambda>_. replicate 64 CHR ''0''); t = 1700000000 * second; name = replicate 40 CHR ''.''
   in GenerateCatchupRunID sha name t = ''catchup-_______________________________-00000000-20231114T221320''
      \<and> length (GenerateCatchupRunID sha name t) = 64
      \<and> ValidateDAGRunID (GenerateCatchupRunID sha name t) = None
      \<and> GenerateCatchupRunID sha name t \<noteq> GenerateCatchupRunID sha name (t + minute)"
proof -
  let ?sha = "\<lambda>_ :: string. replicate 64 CHR ''0''" and ?t = "1700000000 * second" and ?name = "replicate 40 CHR ''.''"
  have h: "hexDigest ?sha" by (simp add: hexDigest_def list_all_iff)
  have n: "ValidateDAGName ?name = None" by code_simp
  have t: "fourDigitYear ?t" "fourDigitYear (?t + minute)" by code_simp+
  have g: "GenerateCatchupRunID ?sha ?name ?t = ''catchup-_______________________________-00000000-20231114T221320''" by code_simp
  have "?t div second \<noteq> (?t + minute) div second" by (simp add: minute_def second_def)
  then show ?thesis using scheduled_run_ids[OF h n t] g unfolding Let_def by simp
qed

end
