(* ===== verification/Tick_Planner.thy ===== *)
theory Tick_Planner
  imports Sched_Buffer Sched_RunID Queue_Files
begin

text \<open>
  The tick planner of the scheduler (\<open>internal/service/scheduler/tick_planner.go\<close>) with the watermark state
  (\<open>watermark.go\<close>, \<open>schedule_state.go\<close>) and suspension (\<open>suspension.go\<close>).  The planner is a record; an
  operation takes it and returns it changed.  \<open>PlannerIO\<close> holds the configuration and the answers of its callbacks
  during one call of an operation, \<open>None\<close> or \<open>False\<close> for an error.  A Go map is a finite map; \<open>Plan\<close> gets the order
  in which it ranges over the entries.  Locations of times are part of the parsed cron expressions.
\<close>

section \<open>State\<close>

definition OneOffStatusPending :: string where
  "OneOffStatusPending = ''pending''"

definition OneOffStatusConsumed :: string where
  "OneOffStatusConsumed = ''consumed''"

record OneOffScheduleState =
  oo_ScheduledTime :: int
  oo_Status :: string

record DAGWatermark =
  wm_LastScheduledTime :: int
  wm_OneOffs :: "(string, OneOffScheduleState) fmap"

record SchedulerState =
  ss_Version :: int
  ss_LastTick :: int
  ss_DAGs :: "(string, DAGWatermark) fmap"

definition SchedulerStateVersion :: int where
  "SchedulerStateVersion = 2"

definition zeroOneOff :: OneOffScheduleState where
  "zeroOneOff = \<lparr>oo_ScheduledTime = zeroTime, oo_Status = ''''\<rparr>"

definition zeroWatermark :: DAGWatermark where
  "zeroWatermark = \<lparr>wm_LastScheduledTime = zeroTime, wm_OneOffs = fmempty\<rparr>"

definition emptyState :: SchedulerState where
  "emptyState = \<lparr>ss_Version = SchedulerStateVersion, ss_LastTick = zeroTime, ss_DAGs = fmempty\<rparr>"

record PlannedRun =
  pr_DAG :: SchedDAG
  pr_RunID :: string
  pr_ScheduledTime :: int
  pr_TriggerType :: TriggerType
  pr_ScheduleType :: ScheduleType
  pr_Schedule :: Schedule
  pr_Fingerprint :: string

text \<open>\<open>tp_saved\<close> is what the watermark store holds.\<close>

record TickPlanner =
  tp_entries :: "(string, SchedDAG) fmap"
  tp_buffers :: "(string, ScheduleBuffer) fmap"
  tp_state :: SchedulerState
  tp_dirty :: bool
  tp_last :: "PlannedRun list"
  tp_saved :: SchedulerState

record LatestStatus =
  la_Status :: Status
  la_StartedAt :: string
  la_QueuedAt :: string

text \<open>
  \<open>io_GenRunID\<close> answers the call for the schedule at a position, \<open>io_RunExists\<close> the call before (0) and after (1)
  dispatching, \<open>io_Clock\<close> the first and second call.  \<open>io_Enqueue\<close> may be nil.
\<close>

record PlannerIO =
  io_IsSuspended :: "string \<Rightarrow> bool"
  io_IsRunning :: "SchedDAG \<Rightarrow> bool option"
  io_IsQueued :: "SchedDAG \<Rightarrow> bool option"
  io_GetLatestStatus :: "SchedDAG \<Rightarrow> LatestStatus option"
  io_GenRunID :: "SchedDAG \<Rightarrow> nat \<Rightarrow> string option"
  io_RunExists :: "nat \<Rightarrow> PlannedRun \<Rightarrow> bool option"
  io_Dispatch :: "PlannedRun \<Rightarrow> bool"
  io_Enqueue :: "(PlannedRun \<Rightarrow> bool) option"
  io_Stop :: "PlannedRun \<Rightarrow> bool"
  io_Restart :: "PlannedRun \<Rightarrow> bool"
  io_Clock :: "nat \<Rightarrow> int"
  io_QueuesEnabled :: bool
  io_Load :: "SchedulerState option"
  io_Save :: bool
  io_cron :: cronParser
  io_sha :: "string \<Rightarrow> string"
  io_rfc :: "string \<Rightarrow> int option"
  io_legacy :: "string \<Rightarrow> int option"

text \<open>The configuration: an unset callback is \<open>None\<close>; \<open>NewTickPlanner\<close> replaces it.\<close>

record TickPlannerConfig =
  cf_IsSuspended :: "(string \<Rightarrow> bool) option"
  cf_IsRunning :: "(SchedDAG \<Rightarrow> bool option) option"
  cf_IsQueued :: "(SchedDAG \<Rightarrow> bool option) option"
  cf_GetLatestStatus :: "(SchedDAG \<Rightarrow> LatestStatus option) option"
  cf_GenRunID :: "(SchedDAG \<Rightarrow> nat \<Rightarrow> string option) option"
  cf_RunExists :: "(nat \<Rightarrow> PlannedRun \<Rightarrow> bool option) option"
  cf_Dispatch :: "(PlannedRun \<Rightarrow> bool) option"
  cf_Enqueue :: "(PlannedRun \<Rightarrow> bool) option"
  cf_Stop :: "(PlannedRun \<Rightarrow> bool) option"
  cf_Restart :: "(PlannedRun \<Rightarrow> bool) option"
  cf_Clock :: "(nat \<Rightarrow> int) option"
  cf_QueuesEnabled :: bool
  cf_WatermarkStore :: "(SchedulerState option \<times> bool) option"

definition orElse :: "'a option \<Rightarrow> 'a \<Rightarrow> 'a" where
  "orElse x d = (case x of None \<Rightarrow> d | Some v \<Rightarrow> v)"

definition withDefaults :: "(nat \<Rightarrow> int) \<Rightarrow> cronParser \<Rightarrow> (string \<Rightarrow> string) \<Rightarrow> (string \<Rightarrow> int option) \<Rightarrow> (string \<Rightarrow> int option)
    \<Rightarrow> TickPlannerConfig \<Rightarrow> PlannerIO" where
  "withDefaults timeNow cp sha rfc legacy cfg =
     \<lparr>io_IsSuspended = orElse (cf_IsSuspended cfg) (\<lambda>_. False),
      io_IsRunning = orElse (cf_IsRunning cfg) (\<lambda>_. Some False),
      io_IsQueued = orElse (cf_IsQueued cfg) (\<lambda>_. Some False),
      io_GetLatestStatus = orElse (cf_GetLatestStatus cfg)
        (\<lambda>_. Some \<lparr>la_Status = NotStarted, la_StartedAt = '''', la_QueuedAt = ''''\<rparr>),
      io_GenRunID = orElse (cf_GenRunID cfg) (\<lambda>_ _. None),
      io_RunExists = orElse (cf_RunExists cfg) (\<lambda>_ _. None),
      io_Dispatch = orElse (cf_Dispatch cfg) (\<lambda>_. False),
      io_Enqueue = cf_Enqueue cfg,
      io_Stop = orElse (cf_Stop cfg) (\<lambda>_. True),
      io_Restart = orElse (cf_Restart cfg) (\<lambda>_. True),
      io_Clock = orElse (cf_Clock cfg) timeNow,
      io_QueuesEnabled = cf_QueuesEnabled cfg,
      io_Load = fst (orElse (cf_WatermarkStore cfg) (Some emptyState, True)),
      io_Save = snd (orElse (cf_WatermarkStore cfg) (Some emptyState, True)),
      io_cron = cp, io_sha = sha, io_rfc = rfc, io_legacy = legacy\<rparr>"

definition NewTickPlanner :: "SchedulerState \<Rightarrow> TickPlanner" where
  "NewTickPlanner saved = \<lparr>tp_entries = fmempty, tp_buffers = fmempty, tp_state = emptyState, tp_dirty = False,
     tp_last = [], tp_saved = saved\<rparr>"

section \<open>Watermarks\<close>

abbreviation dagState :: "TickPlanner \<Rightarrow> string \<Rightarrow> DAGWatermark" where
  "dagState tp \<equiv> goget zeroWatermark (ss_DAGs (tp_state tp))"

definition setDagState :: "string \<Rightarrow> DAGWatermark \<Rightarrow> TickPlanner \<Rightarrow> TickPlanner" where
  "setDagState name w tp = tp\<lparr>tp_state := (tp_state tp)\<lparr>ss_DAGs := fmupd name w (ss_DAGs (tp_state tp))\<rparr>\<rparr>"

definition advanceDAGWatermark :: "string \<Rightarrow> int \<Rightarrow> TickPlanner \<Rightarrow> bool \<times> TickPlanner" where
  "advanceDAGWatermark name t tp =
     (if wm_LastScheduledTime (dagState tp name) = t then (False, tp)
      else (True, (setDagState name ((dagState tp name)\<lparr>wm_LastScheduledTime := t\<rparr>) tp)\<lparr>tp_dirty := True\<rparr>))"

definition markOneOffConsumed :: "string \<Rightarrow> string \<Rightarrow> int \<Rightarrow> TickPlanner \<Rightarrow> bool \<times> TickPlanner" where
  "markOneOffConsumed name fp t tp =
     (if fp = '''' then (False, tp)
      else (let w = dagState tp name;
                s0 = goget zeroOneOff (wm_OneOffs w) fp;
                s1 = (if IsZero (oo_ScheduledTime s0) then s0\<lparr>oo_ScheduledTime := t\<rparr> else s0)
            in if oo_Status s1 = OneOffStatusConsumed then (False, tp)
               else (True, (setDagState name (w\<lparr>wm_OneOffs := fmupd fp (s1\<lparr>oo_Status := OneOffStatusConsumed\<rparr>) (wm_OneOffs w)\<rparr>) tp)
                             \<lparr>tp_dirty := True\<rparr>)))"

definition Flush :: "PlannerIO \<Rightarrow> TickPlanner \<Rightarrow> TickPlanner" where
  "Flush io tp =
     (if \<not> tp_dirty tp then tp
      else if io_Save io then tp\<lparr>tp_dirty := False, tp_saved := tp_state tp\<rparr>
      else tp\<lparr>tp_dirty := True\<rparr>)"

definition pendingOneOffState :: "TickPlanner \<Rightarrow> string \<Rightarrow> string \<Rightarrow> OneOffScheduleState option" where
  "pendingOneOffState tp name fp = (case fmlookup (ss_DAGs (tp_state tp)) name of
       None \<Rightarrow> None
     | Some w \<Rightarrow> (case fmlookup (wm_OneOffs w) fp of
           None \<Rightarrow> None
         | Some s \<Rightarrow> if oo_Status s \<noteq> OneOffStatusPending then None else Some s))"

definition oneOffSchedules :: "SchedDAG \<Rightarrow> Schedule list" where
  "oneOffSchedules dag = filter IsOneOff (sd_Schedule dag)"

text \<open>One pass of the first loop of \<open>reconcileOneOffState\<close>: the states, the active fingerprints and whether anything changed.\<close>

definition reconcileStep :: "cronParser \<Rightarrow> int \<Rightarrow> Schedule
    \<Rightarrow> (string, OneOffScheduleState) fmap \<times> string set \<times> bool \<Rightarrow> (string, OneOffScheduleState) fmap \<times> string set \<times> bool" where
  "reconcileStep cp now s acc = (case acc of (oneOffs, active, changed) \<Rightarrow>
     (let fp = Fingerprint cp s
      in if fp = '''' then acc
         else (case oneOffTime s of
             None \<Rightarrow> (oneOffs, insert fp active, changed)
           | Some t \<Rightarrow> (case fmlookup oneOffs fp of
                 Some e \<Rightarrow> if IsZero (oo_ScheduledTime e)
                   then (fmupd fp (e\<lparr>oo_ScheduledTime := t\<rparr>) oneOffs, insert fp active, True)
                   else (oneOffs, insert fp active, changed)
               | None \<Rightarrow> (fmupd fp \<lparr>oo_ScheduledTime = t, oo_Status = (if t \<ge> now then OneOffStatusPending else OneOffStatusConsumed)\<rparr>
                            oneOffs, insert fp active, True)))))"

definition reconcileOneOffState :: "cronParser \<Rightarrow> DAGWatermark \<Rightarrow> SchedDAG \<Rightarrow> int \<Rightarrow> DAGWatermark \<times> bool" where
  "reconcileOneOffState cp current dag now =
     (case fold (reconcileStep cp now) (oneOffSchedules dag) (wm_OneOffs current, {}, False) of (oneOffs, active, changed) \<Rightarrow>
        (current\<lparr>wm_OneOffs := fmfilter (\<lambda>fp. fp \<in> active) oneOffs\<rparr>,
         changed \<or> fBex (fmdom oneOffs) (\<lambda>fp. fp \<notin> active)))"

text \<open>The common part of \<open>Init\<close> and \<open>reconcileOneOffSchedules\<close>.\<close>

definition reconcileDAG :: "cronParser \<Rightarrow> int \<Rightarrow> SchedDAG \<Rightarrow> SchedulerState \<Rightarrow> bool \<times> SchedulerState" where
  "reconcileDAG cp now dag st =
     (case reconcileOneOffState cp (goget zeroWatermark (ss_DAGs st) (sd_Name dag)) dag now of (w, changed) \<Rightarrow>
        if \<not> changed then (False, st)
        else if IsZero (wm_LastScheduledTime w) \<and> wm_OneOffs w = fmempty
        then (True, st\<lparr>ss_DAGs := fmdrop (sd_Name dag) (ss_DAGs st)\<rparr>)
        else (True, st\<lparr>ss_DAGs := fmupd (sd_Name dag) w (ss_DAGs st)\<rparr>))"

definition NextPlannedRun :: "cronParser \<Rightarrow> SchedDAG \<Rightarrow> int \<Rightarrow> SchedulerState option \<Rightarrow> int" where
  "NextPlannedRun cp dag now state =
     (let w = (case state of None \<Rightarrow> zeroWatermark | Some st \<Rightarrow> goget zeroWatermark (ss_DAGs st) (sd_Name dag));
          candidate = (\<lambda>s. if IsCron s then Schedule_Next cp s now
            else if IsOneOff s then
              (case fmlookup (wm_OneOffs w) (Fingerprint cp s) of
                 Some e \<Rightarrow> if oo_Status e \<noteq> OneOffStatusPending then zeroTime else oo_ScheduledTime e
               | None \<Rightarrow> Schedule_Next cp s now)
            else zeroTime)
      in fold (\<lambda>s next. if IsZero (candidate s) then next
                        else if IsZero next \<or> candidate s < next then candidate s else next) (sd_Schedule dag) zeroTime)"

section \<open>Suspension\<close>

definition isSchedulerManagedTriggerType :: "TriggerType \<Rightarrow> bool" where
  "isSchedulerManagedTriggerType t \<longleftrightarrow> t \<in> {TriggerTypeScheduler, TriggerTypeCatchUp, TriggerTypeRetry}"

text \<open>The location of a DAG is the path of a file, without a slash at its end, or empty.\<close>

definition SuspendFlagName :: "SchedDAG \<Rightarrow> string" where
  "SuspendFlagName d =
     (let base = queueItemIDFromFileName (sd_Location d)
      in if base \<noteq> '''' \<and> base \<noteq> ''.'' then base else sd_Name d)"

text \<open>\<open>status\<close> holds the flag name and the DAG name of a run status.\<close>

definition suspendFlagName :: "(string \<times> string) option \<Rightarrow> SchedDAG option \<Rightarrow> string" where
  "suspendFlagName status dag = (case status of
       Some (flag, name) \<Rightarrow> if flag \<noteq> '''' then flag
         else (case dag of Some d \<Rightarrow> if SuspendFlagName d \<noteq> '''' then SuspendFlagName d else name | None \<Rightarrow> name)
     | None \<Rightarrow> (case dag of Some d \<Rightarrow> SuspendFlagName d | None \<Rightarrow> ''''))"

definition isSuspendedDAG :: "(string \<Rightarrow> bool) option \<Rightarrow> (string \<times> string) option \<Rightarrow> SchedDAG option \<Rightarrow> bool" where
  "isSuspendedDAG isSuspended status dag = (case isSuspended of
       None \<Rightarrow> False
     | Some f \<Rightarrow> let name = suspendFlagName status dag in if name = '''' then False else f name)"

abbreviation suspended :: "PlannerIO \<Rightarrow> SchedDAG \<Rightarrow> bool" where
  "suspended io dag \<equiv> isSuspendedDAG (Some (io_IsSuspended io)) None (Some dag)"

definition dropSuspendedCatchupState :: "string \<Rightarrow> SchedDAG \<Rightarrow> int \<Rightarrow> TickPlanner \<Rightarrow> TickPlanner" where
  "dropSuspendedCatchupState name dag now tp =
     (if name |\<in>| fmdom (tp_buffers tp)
      then snd (advanceDAGWatermark name now (tp\<lparr>tp_buffers := fmdrop name (tp_buffers tp)\<rparr>))
      else if sd_CatchupWindow dag > 0 then snd (advanceDAGWatermark name now tp)
      else tp)"

section \<open>Planning\<close>

text \<open>
  The loop of \<open>computePrevExecTime\<close> ends only when the cron expression reaches \<open>next\<close>; not returning is \<open>None\<close>.
\<close>

partial_function (option) prevLoop :: "(int \<Rightarrow> int) \<Rightarrow> int \<Rightarrow> int \<Rightarrow> int \<Rightarrow> int option" where
  "prevLoop p next prev t = (if t < next then prevLoop p next t (p t) else Some prev)"

definition computePrevExecTime :: "int \<Rightarrow> Schedule \<Rightarrow> int option" where
  "computePrevExecTime next s = (case sc_Parsed s of
       None \<Rightarrow> Some next
     | Some p \<Rightarrow> map_option (\<lambda>prev. if IsZero prev then next - (p (next + second) - next) else prev)
                  (prevLoop p next zeroTime (p (next - 32 * day))))"

abbreviation ioTime :: "PlannerIO \<Rightarrow> string \<Rightarrow> int option" where
  "ioTime io \<equiv> ParseTime (io_rfc io) (io_legacy io)"

definition latestStart :: "PlannerIO \<Rightarrow> LatestStatus \<Rightarrow> int option" where
  "latestStart io ls = (case ioTime io (la_StartedAt ls) of
       None \<Rightarrow> None
     | Some started \<Rightarrow> Some (Truncate minute
         (if la_QueuedAt ls \<noteq> '''' then
            (case ioTime io (la_QueuedAt ls) of
               None \<Rightarrow> started | Some queued \<Rightarrow> if queued < started then queued else started)
          else started)))"

text \<open>The answer of \<open>shouldRun\<close>; \<open>None\<close> when it does not return.\<close>

definition shouldRun :: "PlannerIO \<Rightarrow> SchedDAG \<Rightarrow> int \<Rightarrow> Schedule \<Rightarrow> bool option" where
  "shouldRun io dag scheduledTime s =
     (case (io_IsRunning io dag, io_IsQueued io dag, io_GetLatestStatus io dag) of
        (Some running, Some queued, Some ls) \<Rightarrow>
          if running \<or> queued \<or> la_Status ls = Running then Some False
          else (case latestStart io ls of
              None \<Rightarrow> Some True
            | Some started \<Rightarrow>
                if started \<ge> scheduledTime then Some False
                else if sd_SkipIfSuccessful dag \<and> la_Status ls = Succeeded \<and> sc_Parsed s \<noteq> None
                then map_option (\<lambda>prev. \<not> (started \<ge> prev \<and> started < scheduledTime)) (computePrevExecTime scheduledTime s)
                else Some True)
      | _ \<Rightarrow> Some False)"

definition shouldRunOneOff :: "PlannerIO \<Rightarrow> SchedDAG \<Rightarrow> bool" where
  "shouldRunOneOff io dag =
     (case (io_IsRunning io dag, io_IsQueued io dag, io_GetLatestStatus io dag) of
        (Some running, Some queued, Some ls) \<Rightarrow> \<not> running \<and> \<not> queued \<and> la_Status ls \<noteq> Running
      | _ \<Rightarrow> False)"

definition createPlannedRun :: "PlannerIO \<Rightarrow> SchedDAG \<Rightarrow> nat \<Rightarrow> Schedule \<Rightarrow> int \<Rightarrow> TriggerType \<Rightarrow> PlannedRun option" where
  "createPlannedRun io dag k s t trigger =
     map_option (\<lambda>runID. \<lparr>pr_DAG = dag, pr_RunID = runID, pr_ScheduledTime = t, pr_TriggerType = trigger,
         pr_ScheduleType = ScheduleTypeStart, pr_Schedule = s, pr_Fingerprint = Fingerprint (io_cron io) s\<rparr>)
       (if trigger = TriggerTypeCatchUp then Some (GenerateCatchupRunID (io_sha io) (sd_Name dag) t)
        else if IsOneOff s then Some (GenerateOneOffRunID (io_sha io) (sd_Name dag) (Fingerprint (io_cron io) s) t)
        else io_GenRunID io dag k)"

definition shouldPreferStartCandidate :: "PlannedRun \<Rightarrow> PlannedRun option \<Rightarrow> bool" where
  "shouldPreferStartCandidate candidate current = (case current of
       None \<Rightarrow> True
     | Some c \<Rightarrow> pr_ScheduledTime candidate < pr_ScheduledTime c
         \<or> pr_ScheduledTime candidate = pr_ScheduledTime c \<and> IsOneOff (pr_Schedule candidate) \<and> \<not> IsOneOff (pr_Schedule c))"

definition preferRun :: "PlannedRun option \<Rightarrow> PlannedRun option \<Rightarrow> PlannedRun option" where
  "preferRun run current = (case run of
       None \<Rightarrow> current
     | Some r \<Rightarrow> if shouldPreferStartCandidate r current then Some r else current)"

definition storeBuffer :: "string \<Rightarrow> ScheduleBuffer \<Rightarrow> TickPlanner \<Rightarrow> TickPlanner" where
  "storeBuffer name buf tp = tp\<lparr>tp_buffers :=
     (if sb_items buf = [] then fmdrop name (tp_buffers tp) else fmupd name buf (tp_buffers tp))\<rparr>"

text \<open>Collapsing a buffer to its last item and moving the watermark past what was dropped.\<close>

definition collapse :: "string \<Rightarrow> ScheduleBuffer \<Rightarrow> TickPlanner \<Rightarrow> ScheduleBuffer \<times> TickPlanner" where
  "collapse name buf tp = (case DropAllButLast buf of (dropped, buf') \<Rightarrow>
     (buf', if dropped = [] then tp else snd (advanceDAGWatermark name (it_ScheduledTime (last dropped)) tp)))"

definition popAdvance :: "string \<Rightarrow> ScheduleBuffer \<Rightarrow> TickPlanner \<Rightarrow> ScheduleBuffer \<times> TickPlanner" where
  "popAdvance name buf tp = (case Pop buf of
       (None, buf') \<Rightarrow> (buf', tp)
     | (Some item, buf') \<Rightarrow> (buf', snd (advanceDAGWatermark name (it_ScheduledTime item) tp)))"

text \<open>The catch-up part of \<open>Plan\<close> for one entry: the run it produced and whether the entry is deferred.\<close>

definition planCatchup :: "PlannerIO \<Rightarrow> string \<Rightarrow> TickPlanner \<Rightarrow> PlannedRun option \<times> bool \<times> TickPlanner" where
  "planCatchup io name tp = (case fmlookup (tp_buffers tp) name of
       None \<Rightarrow> (None, False, tp)
     | Some buf \<Rightarrow> (case Peek buf of
           None \<Rightarrow> (None, False, tp\<lparr>tp_buffers := fmdrop name (tp_buffers tp)\<rparr>)
         | Some item \<Rightarrow>
             (let running = (case io_IsRunning io (it_DAG item) of None \<Rightarrow> False | Some r \<Rightarrow> r)
              in case io_IsQueued io (it_DAG item) of
                   None \<Rightarrow> (None, True, tp)
                 | Some queued \<Rightarrow>
                     if \<not> (running \<or> queued) then
                       (case (if sb_overlapPolicy buf = ''latest'' \<and> length (sb_items buf) > 1 then collapse name buf tp else (buf, tp)) of
                          (buf1, tp1) \<Rightarrow>
                            (case Pop buf1 of (front, buf2) \<Rightarrow>
                               (let i = orElse front item
                                in (createPlannedRun io (it_DAG i) 0 zeroSchedule (it_ScheduledTime i) (it_TriggerType i),
                                    False, storeBuffer name buf2 tp1))))
                     else
                       (case (if sb_overlapPolicy buf = ''all'' then (buf, tp)
                              else if sb_overlapPolicy buf = ''latest'' then collapse name buf tp
                              else popAdvance name buf tp) of
                          (buf1, tp1) \<Rightarrow> (None, False, storeBuffer name buf1 tp1)))))"

definition oneOffCandidate :: "PlannerIO \<Rightarrow> int \<Rightarrow> TickPlanner \<Rightarrow> SchedDAG \<Rightarrow> nat \<times> Schedule \<Rightarrow> PlannedRun option" where
  "oneOffCandidate io now tp dag ks = (case ks of (k, s) \<Rightarrow>
     (let fp = Fingerprint (io_cron io) s
      in if \<not> IsOneOff s \<or> fp = '''' then None
         else (case pendingOneOffState tp (sd_Name dag) fp of
             None \<Rightarrow> None
           | Some st \<Rightarrow> if oo_ScheduledTime st > now \<or> \<not> shouldRunOneOff io dag then None
                        else createPlannedRun io dag k s (oo_ScheduledTime st) TriggerTypeScheduler)))"

definition cronCandidate :: "PlannerIO \<Rightarrow> int \<Rightarrow> SchedDAG \<Rightarrow> nat \<times> Schedule \<Rightarrow> PlannedRun option option" where
  "cronCandidate io now dag ks = (case ks of (k, s) \<Rightarrow>
     (if \<not> IsCron s then Some None
      else (case DueAt (io_cron io) s now of
          None \<Rightarrow> Some None
        | Some next \<Rightarrow> map_option (\<lambda>run. if run then createPlannedRun io dag k s next TriggerTypeScheduler else None)
                        (shouldRun io dag next s))))"

fun cronCandidates :: "PlannerIO \<Rightarrow> int \<Rightarrow> SchedDAG \<Rightarrow> (nat \<times> Schedule) list \<Rightarrow> PlannedRun option \<Rightarrow> PlannedRun option option" where
  "cronCandidates io now dag [] current = Some current"
| "cronCandidates io now dag (ks # rest) current = (case cronCandidate io now dag ks of
     None \<Rightarrow> None | Some run \<Rightarrow> cronCandidates io now dag rest (preferRun run current))"

definition startCandidate :: "PlannerIO \<Rightarrow> int \<Rightarrow> TickPlanner \<Rightarrow> SchedDAG \<Rightarrow> PlannedRun option option" where
  "startCandidate io now tp dag =
     (let ks = enumerate 0 (sd_Schedule dag)
      in cronCandidates io now dag ks (fold (\<lambda>k c. preferRun (oneOffCandidate io now tp dag k) c) ks None))"

definition otherRun :: "SchedDAG \<Rightarrow> ScheduleType \<Rightarrow> int \<Rightarrow> PlannedRun" where
  "otherRun dag ty t = \<lparr>pr_DAG = dag, pr_RunID = '''', pr_ScheduledTime = t, pr_TriggerType = TriggerTypeUnknown,
     pr_ScheduleType = ty, pr_Schedule = zeroSchedule, pr_Fingerprint = ''''\<rparr>"

definition stopRuns :: "PlannerIO \<Rightarrow> int \<Rightarrow> SchedDAG \<Rightarrow> PlannedRun list" where
  "stopRuns io now dag = List.map_filter (\<lambda>s. case DueAt (io_cron io) s now of
       None \<Rightarrow> None
     | Some next \<Rightarrow> (case io_GetLatestStatus io dag of
           None \<Rightarrow> None
         | Some ls \<Rightarrow> if la_Status ls \<noteq> Running then None else Some (otherRun dag ScheduleTypeStop next))) (sd_StopSchedule dag)"

definition restartRuns :: "PlannerIO \<Rightarrow> int \<Rightarrow> SchedDAG \<Rightarrow> PlannedRun list" where
  "restartRuns io now dag = List.map_filter (\<lambda>s.
     map_option (otherRun dag ScheduleTypeRestart) (DueAt (io_cron io) s now)) (sd_RestartSchedule dag)"

text \<open>The body of the loop of \<open>Plan\<close>.\<close>

definition planDAG :: "PlannerIO \<Rightarrow> int \<Rightarrow> string \<Rightarrow> SchedDAG \<Rightarrow> TickPlanner \<Rightarrow> (PlannedRun list \<times> TickPlanner) option" where
  "planDAG io now name dag tp =
     (if suspended io dag then Some ([], dropSuspendedCatchupState name dag now tp)
      else (case planCatchup io name tp of (run, deferred, tp1) \<Rightarrow>
        if deferred then Some ([], tp1)
        else (case run of
            Some r \<Rightarrow> Some ([r], tp1)
          | None \<Rightarrow> map_option (\<lambda>start. ((case start of None \<Rightarrow> [] | Some r \<Rightarrow> [r]) @ stopRuns io now dag @ restartRuns io now dag, tp1))
                      (startCandidate io now tp1 dag))))"

fun planLoop :: "PlannerIO \<Rightarrow> int \<Rightarrow> string list \<Rightarrow> PlannedRun list \<Rightarrow> TickPlanner \<Rightarrow> (PlannedRun list \<times> TickPlanner) option" where
  "planLoop io now [] candidates tp = Some (candidates, tp)"
| "planLoop io now (name # names) candidates tp = (case fmlookup (tp_entries tp) name of
     None \<Rightarrow> planLoop io now names candidates tp
   | Some dag \<Rightarrow> (case planDAG io now name dag tp of
         None \<Rightarrow> None
       | Some (runs, tp') \<Rightarrow> planLoop io now names (candidates @ runs) tp'))"

definition Planner_Plan :: "PlannerIO \<Rightarrow> string list \<Rightarrow> int \<Rightarrow> TickPlanner \<Rightarrow> (PlannedRun list \<times> TickPlanner) option" where
  "Planner_Plan io order now tp =
     map_option (\<lambda>(candidates, tp'). (candidates, tp'\<lparr>tp_last := candidates\<rparr>)) (planLoop io now order [] tp)"

text \<open>The body of the loop of \<open>Advance\<close>.\<close>

definition advanceRun :: "PlannedRun \<Rightarrow> TickPlanner \<Rightarrow> TickPlanner" where
  "advanceRun run tp =
     (if pr_ScheduleType run \<noteq> ScheduleTypeStart \<or> pr_TriggerType run = TriggerTypeCatchUp \<or> \<not> IsCron (pr_Schedule run) then tp
      else setDagState (sd_Name (pr_DAG run))
             ((dagState tp (sd_Name (pr_DAG run)))\<lparr>wm_LastScheduledTime := pr_ScheduledTime run\<rparr>) tp)"

definition Advance :: "int \<Rightarrow> TickPlanner \<Rightarrow> TickPlanner" where
  "Advance now tp =
     (fold advanceRun (tp_last tp) (tp\<lparr>tp_state := (tp_state tp)\<lparr>ss_LastTick := now\<rparr>\<rparr>))\<lparr>tp_dirty := True, tp_last := []\<rparr>"

section \<open>Dispatching\<close>

definition reinsertCatchupItem :: "PlannedRun \<Rightarrow> TickPlanner \<Rightarrow> TickPlanner" where
  "reinsertCatchupItem run tp =
     (let name = sd_Name (pr_DAG run);
          buf = orElse (fmlookup (tp_buffers tp) name) (NewScheduleBuffer (sd_OverlapPolicy (pr_DAG run)))
      in tp\<lparr>tp_buffers := fmupd name (snd (Prepend \<lparr>it_DAG = pr_DAG run, it_ScheduledTime = pr_ScheduledTime run,
            it_TriggerType = pr_TriggerType run, it_ScheduleType = pr_ScheduleType run\<rparr> buf)) (tp_buffers tp)\<rparr>)"

definition consumeOneOff :: "PlannerIO \<Rightarrow> PlannedRun \<Rightarrow> TickPlanner \<Rightarrow> TickPlanner" where
  "consumeOneOff io run tp =
     (case markOneOffConsumed (sd_Name (pr_DAG run)) (pr_Fingerprint run) (pr_ScheduledTime run) tp of
        (marked, tp') \<Rightarrow> if marked then Flush io tp' else tp')"

definition isStartRun :: "PlannedRun \<Rightarrow> bool" where
  "isStartRun run \<longleftrightarrow> pr_ScheduleType run = ScheduleTypeStart"

definition isCatchupRun :: "PlannedRun \<Rightarrow> bool" where
  "isCatchupRun run \<longleftrightarrow> isStartRun run \<and> pr_TriggerType run = TriggerTypeCatchUp"

definition isOneOffRun :: "PlannedRun \<Rightarrow> bool" where
  "isOneOffRun run \<longleftrightarrow> isStartRun run \<and> IsOneOff (pr_Schedule run)"

text \<open>The call that carries out a run; \<open>None\<close> when a catch-up run meets a planner without a queue.\<close>

definition performRun :: "PlannerIO \<Rightarrow> PlannedRun \<Rightarrow> bool option" where
  "performRun io run = (case pr_ScheduleType run of
       ScheduleTypeStart \<Rightarrow> if pr_TriggerType run = TriggerTypeCatchUp then map_option (\<lambda>f. f run) (io_Enqueue io)
                            else Some (io_Dispatch io run)
     | ScheduleTypeStop \<Rightarrow> Some (io_Stop io run)
     | ScheduleTypeRestart \<Rightarrow> Some (io_Restart io run))"

definition afterDispatch :: "PlannerIO \<Rightarrow> PlannedRun \<Rightarrow> bool \<Rightarrow> TickPlanner \<Rightarrow> TickPlanner" where
  "afterDispatch io run ok tp =
     (if ok then
        (let tp1 = (if isCatchupRun run then snd (advanceDAGWatermark (sd_Name (pr_DAG run)) (pr_ScheduledTime run) tp) else tp)
         in if isOneOffRun run then consumeOneOff io run tp1 else tp1)
      else if isOneOffRun run \<and> io_RunExists io 1 run = None then tp
      else if isOneOffRun run \<and> io_RunExists io 1 run = Some True then consumeOneOff io run tp
      else if isCatchupRun run then reinsertCatchupItem run tp
      else tp)"

definition DispatchRun :: "PlannerIO \<Rightarrow> PlannedRun \<Rightarrow> TickPlanner \<Rightarrow> TickPlanner" where
  "DispatchRun io run tp =
     (if isStartRun run \<and> isSchedulerManagedTriggerType (pr_TriggerType run) \<and> suspended io (pr_DAG run) then
        (if pr_TriggerType run = TriggerTypeCatchUp
         then snd (advanceDAGWatermark (sd_Name (pr_DAG run)) (pr_ScheduledTime run) tp) else tp)
      else if isOneOffRun run \<and> io_RunExists io 0 run = None then tp
      else if isOneOffRun run \<and> io_RunExists io 0 run = Some True then consumeOneOff io run tp
      else (case performRun io run of
          None \<Rightarrow> tp
        | Some ok \<Rightarrow> afterDispatch io run ok tp))"

section \<open>Catch-up buffers and DAG events\<close>

definition missedFor :: "PlannerIO \<Rightarrow> int \<Rightarrow> SchedDAG \<Rightarrow> SchedulerState \<Rightarrow> int list" where
  "missedFor io now dag st =
     ComputeMissedIntervals (sd_Schedule dag)
       (ComputeReplayFrom (sd_CatchupWindow dag) (ss_LastTick st)
          (wm_LastScheduledTime (goget zeroWatermark (ss_DAGs st) (sd_Name dag))) now) now"

definition catchupItem :: "SchedDAG \<Rightarrow> int \<Rightarrow> QueueItem" where
  "catchupItem dag t = \<lparr>it_DAG = dag, it_ScheduledTime = t, it_TriggerType = TriggerTypeCatchUp, it_ScheduleType = ScheduleTypeStart\<rparr>"

definition catchupBuffer :: "SchedDAG \<Rightarrow> int list \<Rightarrow> ScheduleBuffer" where
  "catchupBuffer dag missed = sendAll (map (catchupItem dag) missed) (NewScheduleBuffer (sd_OverlapPolicy dag))"

definition recomputeBuffer :: "PlannerIO \<Rightarrow> int \<Rightarrow> SchedDAG \<Rightarrow> TickPlanner \<Rightarrow> bool \<times> TickPlanner" where
  "recomputeBuffer io now dag tp =
     (let missed = missedFor io now dag (tp_state tp); q = catchupBuffer dag missed
      in if \<not> io_QueuesEnabled io \<or> missed = [] then (False, tp)
         else if sd_OverlapPolicy dag = ''latest'' \<and> length (sb_items q) > 1 then
           (case DropAllButLast q of (dropped, q') \<Rightarrow>
              (case advanceDAGWatermark (sd_Name dag) (it_ScheduledTime (last dropped)) tp of
                 (advanced, tp') \<Rightarrow> (advanced, tp'\<lparr>tp_buffers := fmupd (sd_Name dag) q' (tp_buffers tp')\<rparr>)))
         else (False, tp\<lparr>tp_buffers := fmupd (sd_Name dag) q (tp_buffers tp)\<rparr>))"

text \<open>\<open>initBuffers\<close> reads the watermarks once, before it changes any.\<close>

definition initBuffer :: "PlannerIO \<Rightarrow> int \<Rightarrow> SchedulerState \<Rightarrow> SchedDAG \<Rightarrow> TickPlanner \<Rightarrow> TickPlanner" where
  "initBuffer io now st dag tp =
     (let missed = missedFor io now dag st; q = catchupBuffer dag missed
      in if sd_CatchupWindow dag \<le> 0 \<or> missed = [] then tp
         else if sd_OverlapPolicy dag = ''latest'' \<and> length (sb_items q) > 1 then
           (case DropAllButLast q of (dropped, q') \<Rightarrow>
              snd (advanceDAGWatermark (sd_Name dag) (it_ScheduledTime (last dropped))
                     (tp\<lparr>tp_buffers := fmupd (sd_Name dag) q' (tp_buffers tp)\<rparr>)))
         else tp\<lparr>tp_buffers := fmupd (sd_Name dag) q (tp_buffers tp)\<rparr>)"

definition initBuffers :: "PlannerIO \<Rightarrow> int \<Rightarrow> SchedDAG list \<Rightarrow> TickPlanner \<Rightarrow> TickPlanner" where
  "initBuffers io now dags tp =
     (if \<not> io_QueuesEnabled io then tp else fold (initBuffer io now (tp_state tp)) dags tp)"

definition reconcileOneOffSchedules :: "PlannerIO \<Rightarrow> int \<Rightarrow> SchedDAG \<Rightarrow> TickPlanner \<Rightarrow> bool \<times> TickPlanner" where
  "reconcileOneOffSchedules io now dag tp =
     (case reconcileDAG (io_cron io) now dag (tp_state tp) of (changed, st) \<Rightarrow>
        if changed then (True, tp\<lparr>tp_state := st, tp_dirty := True\<rparr>) else (False, tp))"

definition reconcileAll :: "PlannerIO \<Rightarrow> SchedDAG list \<Rightarrow> bool \<times> SchedulerState \<Rightarrow> bool \<times> SchedulerState" where
  "reconcileAll io dags = fold (\<lambda>dag (changed, st).
     case reconcileDAG (io_cron io) (io_Clock io 0) dag st of (c, st') \<Rightarrow> (changed \<or> c, st')) dags"

text \<open>Loading, pruning and reconciling the watermarks at the start.\<close>

definition loadState :: "PlannerIO \<Rightarrow> SchedDAG list \<Rightarrow> bool \<times> SchedulerState" where
  "loadState io dags =
     (let loaded = orElse (io_Load io) emptyState;
          st0 = (if ss_Version loaded = 0 then loaded\<lparr>ss_Version := SchedulerStateVersion\<rparr> else loaded);
          active = sd_Name ` set dags;
          st1 = st0\<lparr>ss_DAGs := fmfilter (\<lambda>n. n \<in> active) (ss_DAGs st0)\<rparr>;
          pruned = fBex (fmdom (ss_DAGs st0)) (\<lambda>n. n \<notin> active)
      in reconcileAll io dags (pruned, st1))"

definition Init :: "PlannerIO \<Rightarrow> SchedDAG list \<Rightarrow> TickPlanner \<Rightarrow> TickPlanner" where
  "Init io dags tp = (case loadState io dags of (changed, st) \<Rightarrow>
     (let tp1 = tp\<lparr>tp_entries := fold (\<lambda>d. fmupd (sd_Name d) d) dags (tp_entries tp), tp_state := st,
                   tp_dirty := tp_dirty tp \<or> changed\<rparr>;
          tp2 = initBuffers io (io_Clock io 1) dags tp1
      in if changed then Flush io tp2 else tp2))"

datatype DAGChangeEvent = DAGChangeAdded string "SchedDAG option" | DAGChangeUpdated string "SchedDAG option" | DAGChangeDeleted string

text \<open>Both branches of \<open>handleEvent\<close> with a DAG end by reconciling its one-off schedules and flushing if anything moved.\<close>

definition finishEvent :: "PlannerIO \<Rightarrow> SchedDAG \<Rightarrow> bool \<times> TickPlanner \<Rightarrow> TickPlanner" where
  "finishEvent io dag r = (case reconcileOneOffSchedules io (io_Clock io 1) dag (snd r) of
     (f2, tp2) \<Rightarrow> if f2 \<or> fst r then Flush io tp2 else tp2)"

definition handleEvent :: "PlannerIO \<Rightarrow> DAGChangeEvent \<Rightarrow> TickPlanner \<Rightarrow> TickPlanner" where
  "handleEvent io ev tp = (case ev of
       DAGChangeAdded name (Some dag) \<Rightarrow>
         finishEvent io dag (advanceDAGWatermark name (io_Clock io 0) (tp\<lparr>tp_entries := fmupd name dag (tp_entries tp)\<rparr>))
     | DAGChangeUpdated name (Some dag) \<Rightarrow>
         (let tp0 = tp\<lparr>tp_entries := fmupd name dag (tp_entries tp), tp_buffers := fmdrop name (tp_buffers tp)\<rparr>
          in finishEvent io dag (if sd_CatchupWindow dag > 0 then recomputeBuffer io (io_Clock io 0) dag tp0 else (False, tp0)))
     | DAGChangeDeleted name \<Rightarrow>
         Flush io (tp\<lparr>tp_entries := fmdrop name (tp_entries tp), tp_buffers := fmdrop name (tp_buffers tp),
                      tp_state := (tp_state tp)\<lparr>ss_DAGs := fmdrop name (ss_DAGs (tp_state tp))\<rparr>, tp_dirty := True\<rparr>)
     | _ \<Rightarrow> tp)"

section \<open>The watermark file\<close>

text \<open>
  \<open>Load\<close> of \<open>internal/persis/filewatermark/store.go\<close>: a missing, unreadable or corrupt file (\<open>None\<close>) and an unknown
  version give an empty state.
\<close>

definition Watermark_Load :: "SchedulerState option \<Rightarrow> SchedulerState" where
  "Watermark_Load stored = (case stored of
       None \<Rightarrow> emptyState
     | Some st \<Rightarrow> if ss_Version st = SchedulerStateVersion then st
                  else if ss_Version st \<in> {0, 1} then st\<lparr>ss_Version := SchedulerStateVersion\<rparr>
                  else emptyState)"

definition NextTick :: "int \<Rightarrow> int" where
  "NextTick now = Truncate minute (now + minute)"

end
