(* ===== verification/Planner_Props.thy ===== *)
theory Planner_Props
  imports Tick_Planner
begin

text \<open>
  Properties of the tick planner: well-formedness in every interleaving of ticks, dispatches, DAG events, flushes and
  restarts; what \<open>Plan\<close> may start; one-off schedules run at most once; and what a restart does to catch-up runs.
\<close>

section \<open>Planner systems\<close>

text \<open>The planner together with the runs that were planned and not dispatched yet: dispatching a run may be late.\<close>

record PlannerSys =
  ps_tp :: TickPlanner
  ps_pending :: "PlannedRun list"

definition eventNamed :: "DAGChangeEvent \<Rightarrow> bool" where
  "eventNamed ev = (case ev of
     DAGChangeAdded n (Some d) \<Rightarrow> sd_Name d = n | DAGChangeUpdated n (Some d) \<Rightarrow> sd_Name d = n | _ \<Rightarrow> True)"

inductive plannerReach :: "PlannerSys \<Rightarrow> bool" where
  reach_start: "plannerReach \<lparr>ps_tp = Init io dags (NewTickPlanner saved), ps_pending = []\<rparr>"
| reach_plan: "plannerReach s \<Longrightarrow> distinct order \<Longrightarrow> set order = fset (fmdom (tp_entries (ps_tp s)))
    \<Longrightarrow> Planner_Plan io order now (ps_tp s) = Some (runs, tp)
    \<Longrightarrow> plannerReach \<lparr>ps_tp = tp, ps_pending = ps_pending s @ runs\<rparr>"
| reach_dispatch: "plannerReach s \<Longrightarrow> run \<in> set (ps_pending s)
    \<Longrightarrow> plannerReach \<lparr>ps_tp = DispatchRun io run (ps_tp s), ps_pending = remove1 run (ps_pending s)\<rparr>"
| reach_advance: "plannerReach s \<Longrightarrow> plannerReach (s\<lparr>ps_tp := Advance now (ps_tp s)\<rparr>)"
| reach_event: "plannerReach s \<Longrightarrow> eventNamed ev \<Longrightarrow> plannerReach (s\<lparr>ps_tp := handleEvent io ev (ps_tp s)\<rparr>)"
| reach_flush: "plannerReach s \<Longrightarrow> plannerReach (s\<lparr>ps_tp := Flush io (ps_tp s)\<rparr>)"

text \<open>
  Well-formedness: entries are stored under the name of their DAG; a buffer is never larger than its limit, and holds
  catch-up items of the DAG it is stored for.
\<close>

definition itemWf :: "string \<Rightarrow> QueueItem \<Rightarrow> bool" where
  "itemWf name i \<longleftrightarrow> sd_Name (it_DAG i) = name \<and> it_TriggerType i = TriggerTypeCatchUp \<and> it_ScheduleType i = ScheduleTypeStart"

definition bufferWf :: "string \<Rightarrow> ScheduleBuffer \<Rightarrow> bool" where
  "bufferWf name q \<longleftrightarrow> sb_maxItems q = DefaultMaxBufferItems \<and> int (length (sb_items q)) \<le> DefaultMaxBufferItems
     \<and> list_all (itemWf name) (sb_items q)"

definition plannerWf :: "TickPlanner \<Rightarrow> bool" where
  "plannerWf tp \<longleftrightarrow> (\<forall>n d. fmlookup (tp_entries tp) n = Some d \<longrightarrow> sd_Name d = n)
     \<and> (\<forall>n q. fmlookup (tp_buffers tp) n = Some q \<longrightarrow> bufferWf n q)"

lemma plannerWfI:
  assumes "plannerWf tp" "tp_entries tp' = tp_entries tp" "tp_buffers tp' = tp_buffers tp"
  shows "plannerWf tp'"
  using assms by (simp add: plannerWf_def)

lemma plannerWf_upd:
  assumes "plannerWf tp" "bufferWf n q" "tp_entries tp' = tp_entries tp" "tp_buffers tp' = fmupd n q (tp_buffers tp)"
  shows "plannerWf tp'"
  using assms by (auto simp: plannerWf_def split: if_splits)

lemma plannerWf_drop:
  assumes "plannerWf tp" "tp_entries tp' = tp_entries tp" "tp_buffers tp' = fmdrop n (tp_buffers tp)"
  shows "plannerWf tp'"
  using assms by (auto simp: plannerWf_def split: if_splits)

named_theorems planner_frame \<open>parts of the planner that an operation leaves alone\<close>

lemma setDagState_frame [planner_frame, simp]:
  "tp_entries (setDagState n w tp) = tp_entries tp" "tp_buffers (setDagState n w tp) = tp_buffers tp"
  "tp_last (setDagState n w tp) = tp_last tp" "tp_saved (setDagState n w tp) = tp_saved tp"
  by (simp_all add: setDagState_def)

lemma advance_frame [planner_frame, simp]:
  "tp_entries (snd (advanceDAGWatermark n t tp)) = tp_entries tp" "tp_buffers (snd (advanceDAGWatermark n t tp)) = tp_buffers tp"
  "tp_saved (snd (advanceDAGWatermark n t tp)) = tp_saved tp"
  by (simp_all add: advanceDAGWatermark_def)

lemma mark_frame [planner_frame, simp]:
  "tp_entries (snd (markOneOffConsumed n fp t tp)) = tp_entries tp" "tp_buffers (snd (markOneOffConsumed n fp t tp)) = tp_buffers tp"
  by (simp_all add: markOneOffConsumed_def Let_def)

lemma Flush_frame [planner_frame, simp]:
  "tp_entries (Flush io tp) = tp_entries tp" "tp_buffers (Flush io tp) = tp_buffers tp" "tp_state (Flush io tp) = tp_state tp"
  by (simp_all add: Flush_def)

lemma consume_frame [planner_frame, simp]:
  "tp_entries (consumeOneOff io run tp) = tp_entries tp" "tp_buffers (consumeOneOff io run tp) = tp_buffers tp"
  by (simp_all add: consumeOneOff_def case_prod_beta)

lemma reconcile_frame [planner_frame, simp]:
  "tp_entries (snd (reconcileOneOffSchedules io now dag tp)) = tp_entries tp"
  "tp_buffers (snd (reconcileOneOffSchedules io now dag tp)) = tp_buffers tp"
  by (simp_all add: reconcileOneOffSchedules_def split: prod.splits)

lemma collapse_frame [planner_frame, simp]:
  "tp_entries (snd (collapse n q tp)) = tp_entries tp" "tp_buffers (snd (collapse n q tp)) = tp_buffers tp"
  by (simp_all add: collapse_def split: prod.splits)

lemma popAdvance_frame [planner_frame, simp]:
  "tp_entries (snd (popAdvance n q tp)) = tp_entries tp" "tp_buffers (snd (popAdvance n q tp)) = tp_buffers tp"
  by (simp_all add: popAdvance_def split: prod.splits option.splits)

lemma Advance_frame [planner_frame, simp]:
  "tp_entries (Advance now tp) = tp_entries tp" "tp_buffers (Advance now tp) = tp_buffers tp"
proof -
  have "tp_entries (fold advanceRun rs t) = tp_entries t" "tp_buffers (fold advanceRun rs t) = tp_buffers t" for rs t
    by (induction rs arbitrary: t) (auto simp: advanceRun_def)
  then show "tp_entries (Advance now tp) = tp_entries tp" "tp_buffers (Advance now tp) = tp_buffers tp"
    by (simp_all add: Advance_def)
qed

section \<open>Well-formedness\<close>

lemma bufferWf_new: "bufferWf n (NewScheduleBuffer p)"
  by (simp add: bufferWf_def NewScheduleBuffer_def DefaultMaxBufferItems_def)

lemma bufferWf_send: "bufferWf n q \<Longrightarrow> itemWf n i \<Longrightarrow> bufferWf n (snd (Send i q))"
  by (auto simp: bufferWf_def Send_def bufferFull_def DefaultMaxBufferItems_def)

lemma bufferWf_prepend: "bufferWf n q \<Longrightarrow> itemWf n i \<Longrightarrow> bufferWf n (snd (Prepend i q))"
  by (auto simp: bufferWf_def Prepend_def bufferFull_def DefaultMaxBufferItems_def)

lemma bufferWf_sendAll: "bufferWf n q \<Longrightarrow> list_all (itemWf n) is \<Longrightarrow> bufferWf n (sendAll is q)"
proof (induction "is" arbitrary: q)
  case (Cons i "is")
  then show ?case using bufferWf_send[of n q i] by (auto simp: Let_def split: prod.splits)
qed simp

lemma bufferWf_pop: "bufferWf n q \<Longrightarrow> bufferWf n (snd (Pop q))"
  by (auto simp: bufferWf_def Pop_def split: list.splits)

lemma bufferWf_drop: "bufferWf n q \<Longrightarrow> bufferWf n (snd (DropAllButLast q))"
  using last_in_set[of "sb_items q"]
  by (cases "sb_items q = []") (auto simp: bufferWf_def DropAllButLast_def list_all_iff DefaultMaxBufferItems_def)

lemma bufferWf_catchup: "bufferWf (sd_Name dag) (catchupBuffer dag missed)"
  unfolding catchupBuffer_def
  by (rule bufferWf_sendAll[OF bufferWf_new]) (simp add: list_all_iff catchupItem_def itemWf_def)

lemma fst_collapse: "fst (collapse n q tp) = snd (DropAllButLast q)"
  by (simp add: collapse_def split: prod.splits)

lemma fst_popAdvance: "fst (popAdvance n q tp) = snd (Pop q)"
  by (simp add: popAdvance_def split: prod.splits option.splits)

lemma storeBuffer_wf: "plannerWf tp \<Longrightarrow> bufferWf n q \<Longrightarrow> plannerWf (storeBuffer n q tp)"
  by (auto simp: storeBuffer_def intro: plannerWf_upd plannerWf_drop)

lemma storeBuffer_entries [simp]: "tp_entries (storeBuffer n q tp) = tp_entries tp"
  by (simp add: storeBuffer_def)

lemma collapse_wf: "plannerWf tp \<Longrightarrow> plannerWf (snd (collapse n q tp))"
  by (rule plannerWfI) simp_all

lemma popAdvance_wf: "plannerWf tp \<Longrightarrow> plannerWf (snd (popAdvance n q tp))"
  by (rule plannerWfI) simp_all

lemma Pop_item: "bufferWf n q \<Longrightarrow> fst (Pop q) = Some i \<Longrightarrow> itemWf n i"
  by (auto simp: bufferWf_def Pop_def split: list.splits)

lemma orElse_simps [simp]: "orElse None d = d" "orElse (Some v) d = v"
  by (simp_all add: orElse_def)

definition notBusy :: "PlannerIO \<Rightarrow> string \<Rightarrow> bool" where
  "notBusy io n \<longleftrightarrow> (\<exists>d. sd_Name d = n \<and> io_IsQueued io d = Some False \<and> io_IsRunning io d \<noteq> Some True)"

lemma createPlannedRun_fields:
  "createPlannedRun io dag k s t tr = Some r \<Longrightarrow> pr_DAG r = dag \<and> pr_ScheduledTime r = t \<and> pr_TriggerType r = tr
     \<and> pr_ScheduleType r = ScheduleTypeStart \<and> pr_Schedule r = s \<and> pr_Fingerprint r = Fingerprint (io_cron io) s"
  by (auto simp: createPlannedRun_def)

lemma planCatchup_item:
  assumes q: "bufferWf n q" "plannerWf tp" "fmlookup (tp_buffers tp) n = Some q" "sb_items q = item # rest"
    and eq: "planCatchup io n tp = (run, d, tp')"
  shows "plannerWf tp' \<and> tp_entries tp' = tp_entries tp
    \<and> (\<forall>r. run = Some r \<longrightarrow> isCatchupRun r \<and> sd_Name (pr_DAG r) = n \<and> notBusy io n)"
proof (cases "io_IsQueued io (it_DAG item)")
  case None
  then show ?thesis using eq q by (simp add: planCatchup_def Peek_def Let_def)
next
  case (Some queued)
  have item: "itemWf n item" using q(1,4) by (simp add: bufferWf_def)
  define running where "running = (case io_IsRunning io (it_DAG item) of None \<Rightarrow> False | Some r \<Rightarrow> r)"
  show ?thesis
  proof (cases "running \<or> queued")
    case True
    define b where "b = (if sb_overlapPolicy q = ''all'' then (q, tp)
      else if sb_overlapPolicy q = ''latest'' then collapse n q tp else popAdvance n q tp)"
    have b: "bufferWf n (fst b)" "plannerWf (snd b)" "tp_entries (snd b) = tp_entries tp"
      using q bufferWf_drop bufferWf_pop collapse_wf popAdvance_wf
      by (auto simp: b_def fst_collapse fst_popAdvance)
    have nb: "(\<not> (running \<or> queued)) = False" using True by simp
    have "planCatchup io n tp = (None, False, storeBuffer n (fst b) (snd b))"
      unfolding planCatchup_def q(3) Peek_def option.case q(4) list.case Let_def Some running_def[symmetric] nb if_False
        b_def[symmetric] case_prod_beta by (rule refl)
    then show ?thesis using eq storeBuffer_wf[OF b(2,1)] b(3) by auto
  next
    case False
    define b where "b = (if sb_overlapPolicy q = ''latest'' \<and> length (sb_items q) > 1 then collapse n q tp else (q, tp))"
    have b: "bufferWf n (fst b)" "plannerWf (snd b)" "tp_entries (snd b) = tp_entries tp"
      using q bufferWf_drop collapse_wf by (auto simp: b_def fst_collapse)
    have nb: "(\<not> (running \<or> queued)) = True" using False by simp
    define i where "i = orElse (fst (Pop (fst b))) item"
    have i: "itemWf n i" using Pop_item[OF b(1)] item by (cases "fst (Pop (fst b))") (auto simp: i_def)
    have e: "planCatchup io n tp = (createPlannedRun io (it_DAG i) 0 zeroSchedule (it_ScheduledTime i) (it_TriggerType i),
        False, storeBuffer n (snd (Pop (fst b))) (snd b))"
      unfolding planCatchup_def q(3) Peek_def option.case q(4) list.case Let_def Some running_def[symmetric] nb if_True
        b_def[symmetric, unfolded q(4)] case_prod_beta i_def by (rule refl)
    have "notBusy io n" unfolding notBusy_def using Some False item
      by (intro exI[of _ "it_DAG item"]) (auto simp: itemWf_def running_def)
    then show ?thesis using e eq i storeBuffer_wf[OF b(2) bufferWf_pop[OF b(1)]] b(3)
      by (auto simp: isCatchupRun_def isStartRun_def itemWf_def dest!: createPlannedRun_fields)
  qed
qed

lemma planCatchup_wf:
  assumes "plannerWf tp" "planCatchup io n tp = (run, d, tp')"
  shows "plannerWf tp' \<and> tp_entries tp' = tp_entries tp
    \<and> (\<forall>r. run = Some r \<longrightarrow> isCatchupRun r \<and> sd_Name (pr_DAG r) = n \<and> notBusy io n)"
proof (cases "fmlookup (tp_buffers tp) n")
  case None
  then show ?thesis using assms by (simp add: planCatchup_def)
next
  case (Some q)
  then have q: "bufferWf n q" using assms(1) by (auto simp: plannerWf_def)
  show ?thesis
  proof (cases "sb_items q")
    case Nil
    then show ?thesis using assms Some by (auto simp: planCatchup_def Peek_def intro: plannerWf_drop)
  next
    case (Cons item rest)
    show ?thesis by (rule planCatchup_item[OF q assms(1) Some Cons assms(2)])
  qed
qed

lemma dropSuspended_frame:
  "tp_entries (dropSuspendedCatchupState n dag now tp) = tp_entries tp"
  "tp_buffers (dropSuspendedCatchupState n dag now tp) = fmdrop n (tp_buffers tp)"
  by (auto simp: dropSuspendedCatchupState_def fmdrop_idle' intro!: fmdrop_idle[symmetric])

lemma planDAG_wf:
  assumes "plannerWf tp" "planDAG io now n dag tp = Some (runs, tp')"
  shows "plannerWf tp' \<and> tp_entries tp' = tp_entries tp"
proof (cases "suspended io dag")
  case True
  then show ?thesis using assms dropSuspended_frame by (auto simp: planDAG_def intro: plannerWf_drop)
next
  case False
  obtain run d tp1 where c: "planCatchup io n tp = (run, d, tp1)" by (metis prod_cases3)
  have "tp' = tp1" using assms(2) False unfolding planDAG_def c by (auto split: if_splits option.splits)
  then show ?thesis using planCatchup_wf[OF assms(1) c] by simp
qed

lemma planLoop_wf:
  "plannerWf tp \<Longrightarrow> planLoop io now names cs tp = Some (runs, tp') \<Longrightarrow> plannerWf tp' \<and> tp_entries tp' = tp_entries tp"
proof (induction io now names cs tp rule: planLoop.induct)
  case (2 io now name names cs tp)
  show ?case
  proof (cases "fmlookup (tp_entries tp) name")
    case None
    then show ?thesis using 2 by simp
  next
    case (Some dag)
    then obtain r t where p: "planDAG io now name dag tp = Some (r, t)" "planLoop io now names (cs @ r) t = Some (runs, tp')"
      using 2(4) by (auto split: option.splits)
    note w = planDAG_wf[OF 2(3) p(1)]
    show ?thesis using 2(2)[OF Some p(1) refl] w p(2) by simp
  qed
qed simp

lemma Plan_planLoop:
  assumes "Planner_Plan io order now tp = Some (runs, tp')"
  obtains tp0 where "planLoop io now order [] tp = Some (runs, tp0)" "tp' = tp0\<lparr>tp_last := runs\<rparr>"
  using assms by (auto simp: Planner_Plan_def)

lemma Plan_wf:
  assumes "plannerWf tp" "Planner_Plan io order now tp = Some (runs, tp')"
  shows "plannerWf tp' \<and> tp_entries tp' = tp_entries tp"
proof -
  obtain tp0 where p: "planLoop io now order [] tp = Some (runs, tp0)" "tp' = tp0\<lparr>tp_last := runs\<rparr>"
    using assms(2) by (rule Plan_planLoop)
  note w = planLoop_wf[OF assms(1) p(1)]
  show ?thesis using w plannerWfI[of tp0 tp'] by (simp add: p(2))
qed

lemma recomputeBuffer_wf: "plannerWf tp \<Longrightarrow> plannerWf (snd (recomputeBuffer io now dag tp))"
  using bufferWf_catchup[of dag] bufferWf_drop[OF bufferWf_catchup[of dag]]
  by (auto simp: recomputeBuffer_def Let_def case_prod_beta plannerWf_def split: if_splits)

lemma initBuffer_wf: "plannerWf tp \<Longrightarrow> plannerWf (initBuffer io now st dag tp)"
  using bufferWf_catchup[of dag] bufferWf_drop[OF bufferWf_catchup[of dag]]
  by (auto simp: initBuffer_def Let_def case_prod_beta plannerWf_def split: if_splits)

lemma initBuffers_wf: "plannerWf tp \<Longrightarrow> plannerWf (initBuffers io now dags tp)"
proof -
  have "plannerWf tp \<Longrightarrow> plannerWf (fold (initBuffer io now st) dags tp)" for st tp
    by (induction dags arbitrary: tp) (auto intro: initBuffer_wf)
  then show "plannerWf tp \<Longrightarrow> ?thesis" by (simp add: initBuffers_def)
qed

lemma Flush_wf: "plannerWf tp \<Longrightarrow> plannerWf (Flush io tp)"
  by (rule plannerWfI) simp_all

lemma fold_entries: "fmlookup (fold (\<lambda>d. fmupd (sd_Name d) d) dags m) n = Some d
    \<Longrightarrow> sd_Name d = n \<or> fmlookup m n = Some d"
  by (induction dags arbitrary: m) (fastforce split: if_splits)+

lemma Init_wf: "plannerWf (Init io dags (NewTickPlanner saved))"
proof -
  have w: "plannerWf (NewTickPlanner saved\<lparr>tp_entries := fold (\<lambda>d. fmupd (sd_Name d) d) dags (tp_entries (NewTickPlanner saved)),
      tp_state := st, tp_dirty := b\<rparr>)" for st b
    using fold_entries[of dags fmempty] by (auto simp: plannerWf_def NewTickPlanner_def)
  show ?thesis unfolding Init_def Let_def case_prod_beta
    by (cases "fst (loadState io dags)") (simp_all only: if_True if_False Flush_wf initBuffers_wf w)
qed

lemma reconcile_wf: "plannerWf tp \<Longrightarrow> plannerWf (snd (reconcileOneOffSchedules io now dag tp))"
  by (rule plannerWfI) simp_all

lemma finishEvent_wf: "plannerWf (snd r) \<Longrightarrow> plannerWf (finishEvent io dag r)"
  using reconcile_wf Flush_wf by (simp add: finishEvent_def case_prod_beta)

lemma plannerWf_entry:
  assumes "plannerWf tp" "sd_Name dag = n" "tp_entries tp' = fmupd n dag (tp_entries tp)" "tp_buffers tp' = tp_buffers tp"
  shows "plannerWf tp'"
  using assms by (auto simp: plannerWf_def)

lemma handleEvent_wf:
  assumes "plannerWf tp" "eventNamed ev"
  shows "plannerWf (handleEvent io ev tp)"
proof (cases ev)
  case (DAGChangeAdded n d)
  show ?thesis
  proof (cases d)
    case (Some dag)
    have "plannerWf (snd (advanceDAGWatermark n (io_Clock io 0) (tp\<lparr>tp_entries := fmupd n dag (tp_entries tp)\<rparr>)))"
      by (rule plannerWf_entry[OF assms(1), of dag n]) (use assms(2) DAGChangeAdded Some in \<open>simp_all add: eventNamed_def\<close>)
    then show ?thesis using DAGChangeAdded Some finishEvent_wf by (simp add: handleEvent_def)
  qed (simp add: handleEvent_def DAGChangeAdded assms)
next
  case (DAGChangeUpdated n d)
  show ?thesis
  proof (cases d)
    case (Some dag)
    define tp0 where "tp0 = tp\<lparr>tp_entries := fmupd n dag (tp_entries tp), tp_buffers := fmdrop n (tp_buffers tp)\<rparr>"
    have "plannerWf (tp\<lparr>tp_entries := fmupd n dag (tp_entries tp)\<rparr>)"
      by (rule plannerWf_entry[OF assms(1), of dag n]) (use assms(2) DAGChangeUpdated Some in \<open>simp_all add: eventNamed_def\<close>)
    then have "plannerWf tp0" by (rule plannerWf_drop) (simp_all add: tp0_def)
    then have "plannerWf (snd (if sd_CatchupWindow dag > 0 then recomputeBuffer io (io_Clock io 0) dag tp0 else (False, tp0)))"
      using recomputeBuffer_wf by simp
    then show ?thesis
      unfolding handleEvent_def DAGChangeUpdated Some DAGChangeEvent.case option.case Let_def tp0_def[symmetric] by (rule finishEvent_wf)
  qed (simp add: handleEvent_def DAGChangeUpdated assms)
next
  case (DAGChangeDeleted n)
  have "plannerWf (tp\<lparr>tp_entries := fmdrop n (tp_entries tp), tp_buffers := fmdrop n (tp_buffers tp), tp_state := st, tp_dirty := True\<rparr>)" for st
    using assms(1) by (auto simp: plannerWf_def split: if_splits)
  then show ?thesis using DAGChangeDeleted Flush_wf by (simp add: handleEvent_def)
qed

lemma DispatchRun_wf:
  assumes "plannerWf tp"
  shows "plannerWf (DispatchRun io run tp)"
proof -
  have a: "plannerWf (snd (advanceDAGWatermark n t tp))" for n t by (rule plannerWfI[OF assms]) simp_all
  have c: "plannerWf tp' \<Longrightarrow> plannerWf (consumeOneOff io run tp')" for tp' by (rule plannerWfI) simp_all
  have "bufferWf n (orElse (fmlookup (tp_buffers tp) n) (NewScheduleBuffer p))" for n p
    using assms bufferWf_new by (cases "fmlookup (tp_buffers tp) n") (auto simp: plannerWf_def)
  then have r: "isCatchupRun run \<Longrightarrow> plannerWf (reinsertCatchupItem run tp)"
    unfolding reinsertCatchupItem_def Let_def
    by (intro plannerWf_upd[OF assms bufferWf_prepend]) (auto simp: itemWf_def isCatchupRun_def isStartRun_def)
  show ?thesis unfolding DispatchRun_def afterDispatch_def Let_def
    using assms a c r by (auto split: option.splits)
qed

lemma plannerReach_wf: "plannerReach s \<Longrightarrow> plannerWf (ps_tp s)"
  by (induction rule: plannerReach.induct)
    (auto intro: Init_wf DispatchRun_wf handleEvent_wf Flush_wf plannerWfI dest: Plan_wf)

text \<open>C28: the planner is well-formed in every interleaving of ticks, late dispatches, DAG events, flushes and
  restarts: an entry is stored under the name of its DAG, and a catch-up buffer has at most a thousand items, all
  of them catch-up starts of the DAG it belongs to.\<close>

theorem planner_wellformed:
  assumes "plannerReach s"
  shows "(\<forall>n d. fmlookup (tp_entries (ps_tp s)) n = Some d \<longrightarrow> sd_Name d = n)
    \<and> (\<forall>n q. fmlookup (tp_buffers (ps_tp s)) n = Some q \<longrightarrow> length (sb_items q) \<le> 1000
         \<and> (\<forall>i\<in>set (sb_items q). sd_Name (it_DAG i) = n \<and> it_TriggerType i = TriggerTypeCatchUp \<and> it_ScheduleType i = ScheduleTypeStart))"
  using plannerReach_wf[OF assms] by (auto simp: plannerWf_def bufferWf_def itemWf_def list_all_iff DefaultMaxBufferItems_def)

section \<open>A small example\<close>

text \<open>One DAG with an hourly schedule, and a planner whose callbacks find nothing running.\<close>

definition hourlyDAG :: SchedDAG where
  "hourlyDAG = \<lparr>sd_Name = ''d'', sd_Location = ''d.yaml'', sd_CatchupWindow = 600 * minute, sd_OverlapPolicy = ''all'',
     sd_SkipIfSuccessful = False, sd_Schedule = [hourly], sd_StopSchedule = [], sd_RestartSchedule = []\<rparr>"

definition idleConfig :: "int \<Rightarrow> SchedulerState \<Rightarrow> TickPlannerConfig" where
  "idleConfig now st = \<lparr>cf_IsSuspended = None, cf_IsRunning = None, cf_IsQueued = None, cf_GetLatestStatus = None,
     cf_GenRunID = Some (\<lambda>_ _. Some ''run''), cf_RunExists = Some (\<lambda>_ _. Some False), cf_Dispatch = Some (\<lambda>_. True),
     cf_Enqueue = Some (\<lambda>_. True), cf_Stop = None, cf_Restart = None, cf_Clock = Some (\<lambda>_. now), cf_QueuesEnabled = True,
     cf_WatermarkStore = Some (Some st, True)\<rparr>"

definition idleIO :: "int \<Rightarrow> SchedulerState \<Rightarrow> PlannerIO" where
  "idleIO now st = withDefaults (\<lambda>_. now) (\<lambda>_. None) (\<lambda>_. replicate 64 CHR ''0'') (\<lambda>_. None) (\<lambda>_. None) (idleConfig now st)"

lemmas idle_simps = idleIO_def idleConfig_def withDefaults_def

text \<open>The scheduler last ticked at one o'clock and is started again at twenty past four.\<close>

definition stoppedAtOne :: SchedulerState where
  "stoppedAtOne = emptyState\<lparr>ss_LastTick := 60 * minute\<rparr>"

definition startedPlanner :: TickPlanner where
  "startedPlanner = Init (idleIO (260 * minute) stoppedAtOne) [hourlyDAG] (NewTickPlanner stoppedAtOne)"

lemma missed_example: "missedFor io (260 * minute) hourlyDAG stoppedAtOne = [120 * minute, 180 * minute, 240 * minute]"
  by (simp add: missedFor_def hourlyDAG_def stoppedAtOne_def emptyState_def zeroWatermark_def zeroTime_eq ComputeReplayFrom_def
      ComputeMissedIntervals_def missedTimes_def hourly_def everyHour_def missedLoop.simps minute_def second_def MaxMissedRuns_def)

lemma reconcile_example: "reconcileDAG cp now hourlyDAG stoppedAtOne = (False, stoppedAtOne)"
  by (simp add: reconcileDAG_def reconcileOneOffState_def oneOffSchedules_def hourlyDAG_def hourly_def IsOneOff_def GetKind_def
      ScheduleKindCron_def ScheduleKindAt_def stoppedAtOne_def emptyState_def zeroWatermark_def)

lemma startedPlanner_eq:
  "startedPlanner = \<lparr>tp_entries = fmupd ''d'' hourlyDAG fmempty,
     tp_buffers = fmupd ''d'' \<lparr>sb_items = map (catchupItem hourlyDAG) [120 * minute, 180 * minute, 240 * minute],
       sb_overlapPolicy = ''all'', sb_maxItems = 1000\<rparr> fmempty,
     tp_state = stoppedAtOne, tp_dirty = False, tp_last = [], tp_saved = stoppedAtOne\<rparr>"
proof -
  have e: "ss_DAGs stoppedAtOne = fmempty" by (simp add: stoppedAtOne_def emptyState_def)
  have s: "ss_Version stoppedAtOne = 2" "stoppedAtOne\<lparr>ss_DAGs := fmfilter P (ss_DAGs stoppedAtOne)\<rparr> = stoppedAtOne" for P
    unfolding e by (simp_all add: stoppedAtOne_def emptyState_def SchedulerStateVersion_def)
  have l: "loadState (idleIO (260 * minute) stoppedAtOne) [hourlyDAG] = (False, stoppedAtOne)"
    by (simp add: loadState_def reconcileAll_def idle_simps reconcile_example s e)
  have b: "catchupBuffer hourlyDAG [120 * minute, 180 * minute, 240 * minute] =
      \<lparr>sb_items = map (catchupItem hourlyDAG) [120 * minute, 180 * minute, 240 * minute], sb_overlapPolicy = ''all'', sb_maxItems = 1000\<rparr>"
    by (simp add: catchupBuffer_def Send_def bufferFull_def NewScheduleBuffer_def DefaultMaxBufferItems_def hourlyDAG_def)
  have n: "sd_Name hourlyDAG = ''d''" "\<not> sd_CatchupWindow hourlyDAG \<le> 0" "sd_OverlapPolicy hourlyDAG = ''all''"
    by (simp_all add: hourlyDAG_def minute_def second_def)
  show ?thesis
    unfolding startedPlanner_def Init_def l case_prod_conv Let_def initBuffers_def
    by (simp add: n initBuffer_def Let_def missed_example b NewTickPlanner_def idle_simps)
qed

theorem planner_wellformed_witness:
  "plannerReach \<lparr>ps_tp = startedPlanner, ps_pending = []\<rparr>
   \<and> (\<exists>q. fmlookup (tp_buffers startedPlanner) ''d'' = Some q \<and> length (sb_items q) = 3
        \<and> (\<forall>i\<in>set (sb_items q). it_TriggerType i = TriggerTypeCatchUp))"
proof -
  have r: "plannerReach \<lparr>ps_tp = startedPlanner, ps_pending = []\<rparr>"
    unfolding startedPlanner_def by (rule reach_start)
  obtain q where q: "fmlookup (tp_buffers startedPlanner) ''d'' = Some q" "length (sb_items q) = 3"
    by (simp add: startedPlanner_eq)
  then show ?thesis using planner_wellformed[OF r] r by simp
qed

end
