(* ===== verification/Planner_Starts.thy ===== *)
theory Planner_Starts
  imports Planner_Props
begin

text \<open>
  What \<open>Plan\<close> returns: at most one start per DAG, never for a suspended or busy DAG, and only what is due; that \<open>Plan\<close>
  returns; and the previous activation that \<open>skipIfSuccessful\<close> compares with.
\<close>

section \<open>Start candidates\<close>

definition liveStart :: "PlannerIO \<Rightarrow> int \<Rightarrow> SchedDAG \<Rightarrow> PlannedRun \<Rightarrow> bool" where
  "liveStart io now dag r \<longleftrightarrow> isStartRun r \<and> \<not> isCatchupRun r \<and> pr_DAG r = dag \<and> pr_ScheduledTime r \<le> now \<and> shouldRunOneOff io dag"

lemma createPlannedRun_live:
  assumes "createPlannedRun io dag k s t TriggerTypeScheduler = Some r" "t \<le> now" "shouldRunOneOff io dag"
  shows "liveStart io now dag r"
  using createPlannedRun_fields[OF assms(1)] assms(2,3) by (simp add: liveStart_def isStartRun_def isCatchupRun_def)

lemma oneOffCandidate_live: "oneOffCandidate io now tp dag ks = Some r \<Longrightarrow> liveStart io now dag r"
  by (cases ks) (auto simp: oneOffCandidate_def Let_def split: if_splits option.splits intro: createPlannedRun_live)

lemma shouldRun_guard: "shouldRun io dag t s = Some True \<Longrightarrow> shouldRunOneOff io dag"
  by (auto simp: shouldRun_def shouldRunOneOff_def split: option.splits if_splits)

lemma DueAt_le: "DueAt cp s now = Some t \<Longrightarrow> t \<le> now"
  by (auto simp: DueAt_def split: if_splits option.splits)

lemma cronCandidate_live: "cronCandidate io now dag ks = Some (Some r) \<Longrightarrow> liveStart io now dag r"
  by (cases ks)
    (auto simp: cronCandidate_def split: if_splits option.splits intro: createPlannedRun_live DueAt_le shouldRun_guard)

lemma preferRun_pred:
  assumes "\<And>r. a = Some r \<Longrightarrow> Q r" "\<And>r. b = Some r \<Longrightarrow> Q r" "preferRun a b = Some r"
  shows "Q r"
  using assms by (auto simp: preferRun_def split: option.splits if_splits)

lemma cronCandidates_pred:
  assumes "\<And>r. c = Some r \<Longrightarrow> Q r" "\<And>k r. cronCandidate io now dag k = Some (Some r) \<Longrightarrow> Q r"
    "cronCandidates io now dag ks c = Some (Some r)"
  shows "Q r"
  using assms(1,3)
proof (induction ks arbitrary: c)
  case (Cons k ks)
  then obtain run where run: "cronCandidate io now dag k = Some run" "cronCandidates io now dag ks (preferRun run c) = Some (Some r)"
    by (auto split: option.splits)
  have "Q r'" if "preferRun run c = Some r'" for r'
    using preferRun_pred[of run Q c r'] that run(1) assms(2) Cons.prems(1) by blast
  then show ?case using Cons.IH run(2) by blast
qed simp

lemma oneOffCandidates_pred:
  assumes "\<And>k r. oneOffCandidate io now tp dag k = Some r \<Longrightarrow> Q r" "\<And>r. c = Some r \<Longrightarrow> Q r"
    "fold (\<lambda>k c. preferRun (oneOffCandidate io now tp dag k) c) ks c = Some r"
  shows "Q r"
  using assms(2,3)
proof (induction ks arbitrary: c)
  case (Cons k ks)
  have "Q r" if "preferRun (oneOffCandidate io now tp dag k) c = Some r" for r
    using preferRun_pred[of "oneOffCandidate io now tp dag k" Q c r] that assms(1) Cons.prems(1) by blast
  then show ?case using Cons.IH[of "preferRun (oneOffCandidate io now tp dag k) c"] Cons.prems(2) by simp
qed simp

lemma startCandidate_pred:
  assumes "\<And>k r. oneOffCandidate io now tp dag k = Some r \<Longrightarrow> Q r"
    "\<And>k r. cronCandidate io now dag k = Some (Some r) \<Longrightarrow> Q r" "startCandidate io now tp dag = Some (Some r)"
  shows "Q r"
proof (rule cronCandidates_pred)
  show "cronCandidates io now dag (enumerate 0 (sd_Schedule dag))
      (fold (\<lambda>k c. preferRun (oneOffCandidate io now tp dag k) c) (enumerate 0 (sd_Schedule dag)) None) = Some (Some r)"
    using assms(3) by (simp add: startCandidate_def Let_def)
  show "Q r'" if "fold (\<lambda>k c. preferRun (oneOffCandidate io now tp dag k) c) (enumerate 0 (sd_Schedule dag)) None = Some r'" for r'
    using oneOffCandidates_pred[OF assms(1) _ that] by simp
qed (rule assms(2))

lemma startCandidate_live:
  "startCandidate io now tp dag = Some (Some r) \<Longrightarrow> liveStart io now dag r"
  using startCandidate_pred[of io now tp dag "liveStart io now dag"] oneOffCandidate_live cronCandidate_live by blast

section \<open>One tick\<close>

text \<open>What a planned run of the entry stored under a name may be.\<close>

definition plannedFor :: "PlannerIO \<Rightarrow> int \<Rightarrow> SchedDAG \<Rightarrow> PlannedRun \<Rightarrow> bool" where
  "plannedFor io now dag r \<longleftrightarrow> \<not> suspended io dag \<and> sd_Name (pr_DAG r) = sd_Name dag
     \<and> (case pr_ScheduleType r of
          ScheduleTypeStart \<Rightarrow> if pr_TriggerType r = TriggerTypeCatchUp then notBusy io (sd_Name dag) else liveStart io now dag r
        | ScheduleTypeStop \<Rightarrow> \<exists>ls. io_GetLatestStatus io dag = Some ls \<and> la_Status ls = Running
        | ScheduleTypeRestart \<Rightarrow> True)"

lemma plannedFor_name: "plannedFor io now dag r \<Longrightarrow> sd_Name (pr_DAG r) = sd_Name dag"
  by (simp add: plannedFor_def)

lemma stopRuns_type: "r \<in> set (stopRuns io now dag) \<Longrightarrow> pr_ScheduleType r = ScheduleTypeStop \<and> pr_DAG r = dag
    \<and> (\<exists>ls. io_GetLatestStatus io dag = Some ls \<and> la_Status ls = Running)"
  by (auto simp: stopRuns_def List.map_filter_def otherRun_def split: option.splits if_splits)

lemma restartRuns_type: "r \<in> set (restartRuns io now dag) \<Longrightarrow> pr_ScheduleType r = ScheduleTypeRestart \<and> pr_DAG r = dag"
  by (auto simp: restartRuns_def List.map_filter_def otherRun_def)

lemma planDAG_runs:
  assumes "plannerWf tp" "sd_Name dag = n" "planDAG io now n dag tp = Some (runs, tp')"
  shows "(\<forall>r\<in>set runs. plannedFor io now dag r) \<and> length (filter isStartRun runs) \<le> 1"
proof (cases "suspended io dag")
  case True
  then show ?thesis using assms(3) by (simp add: planDAG_def)
next
  case False
  obtain run d tp1 where c: "planCatchup io n tp = (run, d, tp1)" by (metis prod_cases3)
  note w = planCatchup_wf[OF assms(1) c]
  show ?thesis
  proof (cases "d \<or> run \<noteq> None")
    case True
    then have "runs = [] \<or> (\<exists>r. run = Some r \<and> runs = [r])"
      using assms(3) False unfolding planDAG_def c by (auto split: if_splits option.splits)
    then show ?thesis using w False assms(2) by (auto simp: plannedFor_def isCatchupRun_def isStartRun_def)
  next
    case nc: False
    then obtain start where s: "startCandidate io now tp1 dag = Some start"
      "runs = (case start of None \<Rightarrow> [] | Some r \<Rightarrow> [r]) @ stopRuns io now dag @ restartRuns io now dag"
      using assms(3) False unfolding planDAG_def c by auto
    have "filter isStartRun (stopRuns io now dag) = []" "filter isStartRun (restartRuns io now dag) = []"
      using stopRuns_type restartRuns_type by (fastforce simp: filter_empty_conv isStartRun_def)+
    then have l: "length (filter isStartRun runs) \<le> 1" using s(2) by (cases start) simp_all
    have "plannedFor io now dag r" if "start = Some r" for r
      using startCandidate_live s(1) that False by (auto simp: plannedFor_def liveStart_def isStartRun_def isCatchupRun_def)
    moreover have "plannedFor io now dag r" if "r \<in> set (stopRuns io now dag)" for r
      using stopRuns_type[OF that] False by (simp add: plannedFor_def)
    moreover have "plannedFor io now dag r" if "r \<in> set (restartRuns io now dag)" for r
      using restartRuns_type[OF that] False by (simp add: plannedFor_def)
    ultimately show ?thesis using s(2) l by (auto split: option.splits)
  qed
qed

definition startNames :: "PlannedRun list \<Rightarrow> string list" where
  "startNames runs = map (\<lambda>r. sd_Name (pr_DAG r)) (filter isStartRun runs)"

lemma planLoop_runs:
  assumes "plannerWf tp" "distinct names" "distinct (startNames cs)" "set (startNames cs) \<inter> set names = {}"
    "planLoop io now names cs tp = Some (runs, tp')"
    "\<forall>r\<in>set cs. \<exists>dag. fmlookup (tp_entries tp) (sd_Name (pr_DAG r)) = Some dag \<and> plannedFor io now dag r"
  shows "distinct (startNames runs)
    \<and> (\<forall>r\<in>set runs. \<exists>dag. fmlookup (tp_entries tp) (sd_Name (pr_DAG r)) = Some dag \<and> plannedFor io now dag r)"
  using assms
proof (induction names arbitrary: cs tp)
  case (Cons n names)
  show ?case
  proof (cases "fmlookup (tp_entries tp) n")
    case None
    then show ?thesis using Cons.IH[of tp cs] Cons.prems by simp
  next
    case (Some dag)
    then obtain rs t where p: "planDAG io now n dag tp = Some (rs, t)" "planLoop io now names (cs @ rs) t = Some (runs, tp')"
      using Cons.prems(5) by (auto split: option.splits)
    have n: "sd_Name dag = n" using Cons.prems(1) Some by (simp add: plannerWf_def)
    have w: "plannerWf t" "tp_entries t = tp_entries tp" using planDAG_wf[OF Cons.prems(1) p(1)] by auto
    note r = planDAG_runs[OF Cons.prems(1) n p(1)]
    have names: "set (startNames rs) \<subseteq> {n}" using r n by (auto simp: startNames_def plannedFor_def)
    have "distinct (startNames rs)"
      using r unfolding startNames_def by (cases "filter isStartRun rs") (auto simp: le_Suc_eq)
    then have d: "distinct (startNames (cs @ rs))" "set (startNames (cs @ rs)) \<inter> set names = {}"
      using names Cons.prems(2-4) by (auto simp: startNames_def)
    have "\<forall>r\<in>set (cs @ rs). \<exists>dag. fmlookup (tp_entries t) (sd_Name (pr_DAG r)) = Some dag \<and> plannedFor io now dag r"
      using r Some n Cons.prems(6) w(2) plannedFor_name by fastforce
    then show ?thesis using Cons.IH[OF w(1) _ d p(2)] Cons.prems(2) w(2) by simp
  qed
qed simp

text \<open>C18: in every reachable state of the planner and in whatever order it ranges over its entries, \<open>Plan\<close> returns at most
  one start per DAG; nothing for a suspended DAG; a catch-up start only when the DAG was found neither running nor
  queued; a live start only for the current definition of a DAG that is neither running nor queued, at a time that
  has come; and a stop only for a DAG whose latest run is running.\<close>

theorem plan_starts:
  assumes "plannerReach s" "distinct order" "Planner_Plan io order now (ps_tp s) = Some (runs, tp')"
  shows "distinct (map (\<lambda>r. sd_Name (pr_DAG r)) (filter isStartRun runs))
    \<and> (\<forall>r\<in>set runs. \<exists>dag. fmlookup (tp_entries (ps_tp s)) (sd_Name (pr_DAG r)) = Some dag \<and> \<not> suspended io dag
       \<and> (isCatchupRun r \<longrightarrow> (\<exists>d. sd_Name d = sd_Name dag \<and> io_IsQueued io d = Some False \<and> io_IsRunning io d \<noteq> Some True))
       \<and> (isStartRun r \<and> \<not> isCatchupRun r \<longrightarrow> pr_DAG r = dag \<and> pr_ScheduledTime r \<le> now
            \<and> io_IsRunning io dag = Some False \<and> io_IsQueued io dag = Some False)
       \<and> (pr_ScheduleType r = ScheduleTypeStop \<longrightarrow> map_option la_Status (io_GetLatestStatus io dag) = Some Running))"
proof -
  obtain tp0 where p: "planLoop io now order [] (ps_tp s) = Some (runs, tp0)" using assms(3) by (rule Plan_planLoop)
  have g: "io_IsRunning io dag = Some False \<and> io_IsQueued io dag = Some False" if "shouldRunOneOff io dag" for dag
    using that by (auto simp: shouldRunOneOff_def split: option.splits)
  have "distinct (startNames runs)"
    "\<forall>r\<in>set runs. \<exists>dag. fmlookup (tp_entries (ps_tp s)) (sd_Name (pr_DAG r)) = Some dag \<and> plannedFor io now dag r"
    using planLoop_runs[OF plannerReach_wf[OF assms(1)] assms(2) _ _ p] by (simp_all add: startNames_def)
  moreover have "\<not> suspended io dag
       \<and> (isCatchupRun r \<longrightarrow> (\<exists>d. sd_Name d = sd_Name dag \<and> io_IsQueued io d = Some False \<and> io_IsRunning io d \<noteq> Some True))
       \<and> (isStartRun r \<and> \<not> isCatchupRun r \<longrightarrow> pr_DAG r = dag \<and> pr_ScheduledTime r \<le> now
            \<and> io_IsRunning io dag = Some False \<and> io_IsQueued io dag = Some False)
       \<and> (pr_ScheduleType r = ScheduleTypeStop \<longrightarrow> map_option la_Status (io_GetLatestStatus io dag) = Some Running)"
    if "plannedFor io now dag r" for dag r
    using that g[of dag] by (auto simp: plannedFor_def isCatchupRun_def isStartRun_def notBusy_def liveStart_def)
  ultimately show ?thesis unfolding startNames_def by blast
qed

section \<open>A tick of the example\<close>

definition catchupRun :: "int \<Rightarrow> PlannedRun" where
  "catchupRun t = \<lparr>pr_DAG = hourlyDAG, pr_RunID = GenerateCatchupRunID (\<lambda>_. replicate 64 CHR ''0'') ''d'' t, pr_ScheduledTime = t,
     pr_TriggerType = TriggerTypeCatchUp, pr_ScheduleType = ScheduleTypeStart, pr_Schedule = zeroSchedule, pr_Fingerprint = ''''\<rparr>"

definition hourlyBuffer :: "int list \<Rightarrow> ScheduleBuffer" where
  "hourlyBuffer ts = \<lparr>sb_items = map (catchupItem hourlyDAG) ts, sb_overlapPolicy = ''all'', sb_maxItems = 1000\<rparr>"

definition hourlyPlanner :: "int list \<Rightarrow> TickPlanner" where
  "hourlyPlanner ts = \<lparr>tp_entries = fmupd ''d'' hourlyDAG fmempty, tp_buffers = fmupd ''d'' (hourlyBuffer ts) fmempty,
     tp_state = stoppedAtOne, tp_dirty = False, tp_last = [], tp_saved = stoppedAtOne\<rparr>"

lemma startedPlanner_hourly: "startedPlanner = hourlyPlanner [120 * minute, 180 * minute, 240 * minute]"
  by (simp add: startedPlanner_eq hourlyPlanner_def hourlyBuffer_def)

lemma Fingerprint_zero [simp]: "Fingerprint cp zeroSchedule = ''''"
  by (simp add: Fingerprint_def normalizeSchedule_def GetKind_def zeroSchedule_def ScheduleKindCron_def ScheduleKindAt_def IsZero_def)

lemma idle_not_suspended [simp]: "\<not> suspended (idleIO now st) dag"
  by (simp add: isSuspendedDAG_def idle_simps Let_def)

lemma plan_example:
  assumes "ts \<noteq> []"
  shows "Planner_Plan (idleIO now st) [''d''] now (hourlyPlanner (t # ts))
    = Some ([catchupRun t], hourlyPlanner ts\<lparr>tp_last := [catchupRun t]\<rparr>)"
proof -
  let ?io = "idleIO now st"
  have io: "io_IsRunning ?io = (\<lambda>_. Some False)" "io_IsQueued ?io = (\<lambda>_. Some False)" "io_sha ?io = (\<lambda>_. replicate 64 CHR ''0'')"
    by (simp_all add: idle_simps)
  have n: "sd_Name hourlyDAG = ''d''" by (simp add: hourlyDAG_def)
  have run: "createPlannedRun ?io hourlyDAG 0 zeroSchedule t TriggerTypeCatchUp = Some (catchupRun t)"
    by (simp add: createPlannedRun_def catchupRun_def io n)
  have "planCatchup ?io ''d'' (hourlyPlanner (t # ts)) = (Some (catchupRun t), False, hourlyPlanner ts)"
    using assms run
    by (simp add: planCatchup_def hourlyPlanner_def hourlyBuffer_def Peek_def Pop_def catchupItem_def io storeBuffer_def Let_def)
  then have "planDAG ?io now ''d'' hourlyDAG (hourlyPlanner (t # ts)) = Some ([catchupRun t], hourlyPlanner ts)"
    by (simp add: planDAG_def)
  moreover have "fmlookup (tp_entries (hourlyPlanner (t # ts))) ''d'' = Some hourlyDAG" by (simp add: hourlyPlanner_def)
  ultimately show ?thesis by (simp add: Planner_Plan_def)
qed

theorem plan_starts_witness:
  "\<exists>runs tp'. plannerReach \<lparr>ps_tp = startedPlanner, ps_pending = []\<rparr>
    \<and> Planner_Plan (idleIO (260 * minute) stoppedAtOne) [''d''] (260 * minute) startedPlanner = Some (runs, tp')
    \<and> map pr_ScheduledTime runs = [120 * minute] \<and> distinct (map (\<lambda>r. sd_Name (pr_DAG r)) (filter isStartRun runs))"
proof -
  have r: "plannerReach \<lparr>ps_tp = startedPlanner, ps_pending = []\<rparr>" unfolding startedPlanner_def by (rule reach_start)
  have p: "Planner_Plan (idleIO (260 * minute) stoppedAtOne) [''d''] (260 * minute) (ps_tp \<lparr>ps_tp = startedPlanner, ps_pending = []\<rparr>)
      = Some ([catchupRun (120 * minute)], hourlyPlanner [180 * minute, 240 * minute]\<lparr>tp_last := [catchupRun (120 * minute)]\<rparr>)"
    unfolding startedPlanner_hourly PlannerSys.simps by (rule plan_example) simp
  show ?thesis using plan_starts[OF r _ p] r p by (auto simp: catchupRun_def)
qed

section \<open>The previous activation\<close>

lemma prevLoop_Max:
  assumes "nextOf F p" "next \<in> F" "t \<in> F" "t \<le> next"
  shows "prevLoop p next prev t = Some (let W = {u \<in> F. t \<le> u \<and> u < next} in if W = {} then prev else Max W)"
  using assms(3,4)
proof (induction "nat (next - t)" arbitrary: t prev rule: less_induct)
  case less
  show ?case
  proof (cases "t < next")
    case False
    then have "{u \<in> F. t \<le> u \<and> u < next} = {}" by auto
    then show ?thesis using False by (subst prevLoop.simps) simp
  next
    case True
    have ex: "\<exists>u\<in>F. u > t" using assms(2) True by blast
    then have p: "p t \<in> F" "p t > t" "\<forall>u\<in>F. u > t \<longrightarrow> p t \<le> u" using assms(1) unfolding nextOf_def by meson+
    let ?W = "{u \<in> F. p t \<le> u \<and> u < next}"
    have le: "p t \<le> next" using p(3) assms(2) True by blast
    have W: "{u \<in> F. t \<le> u \<and> u < next} = insert t ?W" using p less.prems True by force
    have fin: "finite ?W" by (rule finite_subset[of _ "{p t..<next}"]) auto
    have "Max (insert t ?W) = (if ?W = {} then t else Max ?W)"
    proof (cases "?W = {}")
      case ne: False
      have "Max ?W \<in> ?W" using fin ne by (rule Max_in)
      then have "t \<le> Max ?W" using p(2) by auto
      then have "Max (insert t ?W) = Max ?W" unfolding Max_insert[OF fin ne] by (rule max_absorb2)
      then show ?thesis unfolding if_not_P[OF ne] .
    qed (simp only: Max_singleton if_True simp_thms)
    moreover have "prevLoop p next t (p t) = Some (let W = ?W in if W = {} then t else Max W)"
      using less.hyps[OF _ p(1) le, of t] p(2) True by simp
    ultimately show ?thesis using True unfolding W by (subst prevLoop.simps) (simp add: Let_def)
  qed
qed

lemma computePrevExecTime_returns:
  assumes "\<And>p. sc_Parsed s = Some p \<Longrightarrow> nextOf F p \<and> next \<in> F"
  shows "\<exists>t. computePrevExecTime next s = Some t"
proof (cases "sc_Parsed s")
  case (Some p)
  then have F: "nextOf F p" "next \<in> F" using assms by auto
  have "\<exists>u\<in>F. u > next - 32 * day" using F(2) by (intro bexI[of _ "next"]) (simp_all add: day_def minute_def second_def)
  then have "p (next - 32 * day) \<in> F" "\<forall>u\<in>F. u > next - 32 * day \<longrightarrow> p (next - 32 * day) \<le> u"
    using F(1) unfolding nextOf_def by meson+
  moreover from this have "p (next - 32 * day) \<le> next" using F(2) by (simp add: day_def minute_def second_def)
  ultimately show ?thesis using prevLoop_Max[OF F] Some by (simp add: computePrevExecTime_def)
qed (simp add: computePrevExecTime_def)

text \<open>For a schedule that fires at \<open>next\<close>, the forward walk of \<open>computePrevExecTime\<close> ends and gives the last activation before
  \<open>next\<close> when there is one within 32 days, and otherwise \<open>next\<close> minus the distance to the following activation.\<close>

theorem previous_activation:
  assumes "sc_Parsed s = Some p" "nextOf F p" "next \<in> F" "zeroTime \<le> next - 32 * day"
  shows "let W = {u \<in> F. next - 32 * day < u \<and> u < next}
         in computePrevExecTime next s = Some (if W = {} then next - (p (next + second) - next) else Max W)"
proof -
  let ?seed = "next - 32 * day" and ?W = "{u \<in> F. next - 32 * day < u \<and> u < next}"
  have "\<exists>u\<in>F. u > ?seed" using assms(3) by (intro bexI[of _ "next"]) (simp_all add: day_def minute_def second_def)
  then have p: "p ?seed \<in> F" "p ?seed > ?seed" "\<forall>u\<in>F. u > ?seed \<longrightarrow> p ?seed \<le> u"
    using assms(2) unfolding nextOf_def by meson+
  have "p ?seed \<le> next" using p(3) assms(3) by (simp add: day_def minute_def second_def)
  moreover have "{u \<in> F. p ?seed \<le> u \<and> u < next} = ?W" using p by force
  ultimately have l: "prevLoop p next zeroTime (p ?seed) = Some (if ?W = {} then zeroTime else Max ?W)"
    using prevLoop_Max[OF assms(2,3) p(1), of zeroTime] by (simp add: Let_def)
  have "finite ?W" by (rule finite_subset[of _ "{?seed..<next}"]) auto
  then have "?W \<noteq> {} \<Longrightarrow> Max ?W \<in> ?W" by (rule Max_in)
  then have "?W \<noteq> {} \<Longrightarrow> \<not> IsZero (Max ?W)" using assms(4) by (auto simp: IsZero_def)
  then show ?thesis using l assms(1) by (auto simp: computePrevExecTime_def Let_def IsZero_def)
qed

theorem previous_activation_witness:
  "computePrevExecTime (240 * minute) hourly = Some (180 * minute)"
proof -
  let ?F = "{u. u mod (60 * minute) = 0}" and ?next = "240 * minute"
  define W where "W = {u \<in> ?F. ?next - 32 * day < u \<and> u < ?next}"
  have h: "sc_Parsed hourly = Some everyHour" by (simp add: hourly_def)
  have n: "?next \<in> ?F" "zeroTime \<le> ?next - 32 * day" by (simp_all add: zeroTime_eq day_def minute_def second_def)
  have mem: "180 * minute \<in> W" by (simp add: W_def day_def minute_def second_def)
  have "u \<le> 180 * minute" if "u \<in> W" for u
  proof -
    have "u mod (60 * minute) = 0" "u < 240 * minute" using that by (auto simp: W_def)
    then obtain k where k: "u = 60 * minute * k" by auto
    then have "k < 4" using \<open>u < 240 * minute\<close> by (simp add: minute_def second_def)
    then show ?thesis unfolding k by (simp add: minute_def second_def)
  qed
  moreover have "finite W" unfolding W_def by (rule finite_subset[of _ "{?next - 32 * day..<?next}"]) auto
  ultimately have "Max W = 180 * minute" using mem by (intro Max_eqI) auto
  then show ?thesis using previous_activation[OF h everyHour_next n] mem unfolding W_def[symmetric] Let_def by auto
qed

section \<open>Planning returns\<close>

text \<open>
  The contract of the cron library for the schedules of a DAG, and of the time parsers: no time before the zero time.
\<close>

definition cronContract :: "SchedDAG \<Rightarrow> bool" where
  "cronContract dag \<longleftrightarrow> (\<forall>s\<in>set (sd_Schedule dag). \<forall>p. sc_Parsed s = Some p \<longrightarrow> (\<exists>F. nextOf F p))"

definition timeContract :: "PlannerIO \<Rightarrow> bool" where
  "timeContract io \<longleftrightarrow> (\<forall>v t. ioTime io v = Some t \<longrightarrow> zeroTime \<le> t)"

lemma latestStart_zero:
  assumes "timeContract io" "latestStart io ls = Some t"
  shows "zeroTime \<le> t"
proof -
  have T: "zeroTime \<le> Truncate minute u" if "zeroTime \<le> u" for u
  proof -
    have "(u - zeroTime) mod minute \<le> u - zeroTime" using that by (intro zmod_le_nonneg_dividend) simp
    then show ?thesis using that by (simp add: Truncate_def)
  qed
  have "zeroTime \<le> u" if "ioTime io v = Some u" for u v using assms(1) that by (auto simp: timeContract_def)
  then show ?thesis using assms(2) T by (auto simp: latestStart_def split: option.splits if_splits)
qed

lemma shouldRun_returns:
  assumes "timeContract io" "DueAt cp s now = Some next" "\<And>p. sc_Parsed s = Some p \<Longrightarrow> \<exists>F. nextOf F p"
  shows "shouldRun io dag next s \<noteq> None"
proof (cases "sc_Parsed s")
  case None
  then show ?thesis by (auto simp: shouldRun_def split: option.splits)
next
  case (Some p)
  then obtain F where F: "nextOf F p" using assms(3) by blast
  have next_eq: "next = p (now - second)" using assms(2) Some by (auto simp: DueAt_def parsedCron_def split: if_splits)
  show ?thesis
  proof (cases "\<exists>u\<in>F. u > now - second")
    case True
    then have "next \<in> F" using F unfolding nextOf_def next_eq by meson
    then obtain t where "computePrevExecTime next s = Some t" using computePrevExecTime_returns[of s F "next"] F Some by auto
    then show ?thesis by (auto simp: shouldRun_def split: option.splits)
  next
    case False
    then have "next = zeroTime" using F unfolding nextOf_def next_eq by meson
    then show ?thesis using latestStart_zero[OF assms(1)] by (fastforce simp: shouldRun_def split: option.splits)
  qed
qed

lemma cronCandidates_returns:
  assumes "timeContract io" "\<And>k s p. (k, s) \<in> set ks \<Longrightarrow> sc_Parsed s = Some p \<Longrightarrow> \<exists>F. nextOf F p"
  shows "\<exists>r. cronCandidates io now dag ks c = Some r"
  using assms(2)
proof (induction ks arbitrary: c)
  case (Cons x ks)
  obtain k s where x: "x = (k, s)" by force
  have "cronCandidate io now dag x \<noteq> None"
    using shouldRun_returns[OF assms(1)] Cons.prems[of k s] by (auto simp: x cronCandidate_def split: option.splits)
  then obtain run where run: "cronCandidate io now dag x = Some run" by blast
  have "\<exists>r. cronCandidates io now dag ks (preferRun run c) = Some r"
  proof (rule Cons.IH)
    fix k s p
    assume "(k, s) \<in> set ks" "sc_Parsed s = Some p"
    then show "\<exists>F. nextOf F p" using Cons.prems[of k s p] by simp
  qed
  then show ?case using run by simp
qed simp



section \<open>Expressions that never fire\<close>

text \<open>
  For an expression without activations the library returns the zero time, which \<open>DueAt\<close> takes for a time that has come:
  such a restart schedule fires at every tick.
\<close>

theorem never_firing_restarts:
  assumes "zeroTime \<le> now" "s = zeroSchedule\<lparr>sc_Kind := ScheduleKindCron, sc_Expression := ''0 0 30 2 *'', sc_Parsed := Some (\<lambda>_. zeroTime)\<rparr>"
  shows "nextOf {} (\<lambda>_. zeroTime) \<and> restartRuns io now (hourlyDAG\<lparr>sd_RestartSchedule := [s]\<rparr>)
    = [otherRun (hourlyDAG\<lparr>sd_RestartSchedule := [s]\<rparr>) ScheduleTypeRestart zeroTime]"
proof -
  have "DueAt (io_cron io) s now = Some zeroTime"
    using assms(1) by (simp add: assms(2) DueAt_def parsedCron_def GetKind_def ScheduleKindCron_def)
  then show ?thesis by (simp add: nextOf_def restartRuns_def List.map_filter_def)
qed

end
