(* ===== verification/Planner_Once.thy ===== *)
theory Planner_Once
  imports Planner_Starts
begin

text \<open>
  The watermarks of the planner over time: a one-off schedule that was dispatched is never planned again, across
  DAG updates, crashes and restarts; and catch-up runs that wait in a buffer are lost when the scheduler restarts.
\<close>

section \<open>Consumed one-off schedules\<close>

definition consumedW :: "DAGWatermark \<Rightarrow> string \<Rightarrow> bool" where
  "consumedW w fp \<longleftrightarrow> (\<exists>e. fmlookup (wm_OneOffs w) fp = Some e \<and> oo_Status e = OneOffStatusConsumed)"

definition consumedIn :: "SchedulerState \<Rightarrow> string \<Rightarrow> string \<Rightarrow> bool" where
  "consumedIn st n fp \<longleftrightarrow> ss_Version st = SchedulerStateVersion \<and> consumedW (goget zeroWatermark (ss_DAGs st) n) fp"

text \<open>Consumed in memory and in the watermark store.\<close>

definition onceInv :: "string \<Rightarrow> string \<Rightarrow> TickPlanner \<Rightarrow> bool" where
  "onceInv n fp tp \<longleftrightarrow> consumedIn (tp_state tp) n fp \<and> consumedIn (tp_saved tp) n fp"

definition keepsOneOff :: "cronParser \<Rightarrow> string \<Rightarrow> string \<Rightarrow> SchedDAG \<Rightarrow> bool" where
  "keepsOneOff cp n fp dag \<longleftrightarrow> sd_Name dag = n \<longrightarrow> (\<exists>s\<in>set (oneOffSchedules dag). Fingerprint cp s = fp)"

lemma onceInv_cong:
  assumes "onceInv n fp tp" "tp_state tp' = tp_state tp" "tp_saved tp' = tp_saved tp"
  shows "onceInv n fp tp'"
  using assms by (simp add: onceInv_def)

lemma onceInv_upd [simp]:
  "onceInv n fp (tp\<lparr>tp_dirty := b\<rparr>) = onceInv n fp tp" "onceInv n fp (tp\<lparr>tp_buffers := q\<rparr>) = onceInv n fp tp"
  "onceInv n fp (tp\<lparr>tp_entries := e\<rparr>) = onceInv n fp tp" "onceInv n fp (tp\<lparr>tp_last := l\<rparr>) = onceInv n fp tp"
  by (simp_all add: onceInv_def)

lemma setDagState_once:
  assumes "onceInv n fp tp" "m = n \<Longrightarrow> consumedW w fp"
  shows "onceInv n fp (setDagState m w tp)"
  using assms by (auto simp: onceInv_def setDagState_def consumedIn_def)

lemma advance_once: "onceInv n fp tp \<Longrightarrow> onceInv n fp (snd (advanceDAGWatermark m t tp))"
proof -
  assume o: "onceInv n fp tp"
  then have "m = n \<Longrightarrow> consumedW ((dagState tp m)\<lparr>wm_LastScheduledTime := t\<rparr>) fp"
    by (simp add: onceInv_def consumedIn_def consumedW_def)
  from setDagState_once[OF o, of m, OF this] show ?thesis
    using o by (simp add: advanceDAGWatermark_def)
qed

lemma mark_once: "onceInv n fp tp \<Longrightarrow> onceInv n fp (snd (markOneOffConsumed m fp' t tp))"
proof -
  assume o: "onceInv n fp tp"
  then have "m = n \<Longrightarrow> consumedW ((dagState tp m)\<lparr>wm_OneOffs := fmupd fp' (s\<lparr>oo_Status := OneOffStatusConsumed\<rparr>) (wm_OneOffs (dagState tp m))\<rparr>) fp" for s
    by (simp add: onceInv_def consumedIn_def consumedW_def)
  from setDagState_once[OF o, of m, OF this] show ?thesis
    using o by (simp add: markOneOffConsumed_def Let_def)
qed

lemma Flush_once: "onceInv n fp tp \<Longrightarrow> onceInv n fp (Flush io tp)"
  by (simp add: Flush_def onceInv_def)

lemma consume_once: "onceInv n fp tp \<Longrightarrow> onceInv n fp (consumeOneOff io run tp)"
  using mark_once[of n fp tp] Flush_once by (simp add: consumeOneOff_def case_prod_beta)

lemma reinsert_once: "onceInv n fp tp \<Longrightarrow> onceInv n fp (reinsertCatchupItem run tp)"
  by (rule onceInv_cong) (simp_all add: reinsertCatchupItem_def Let_def)

lemma DispatchRun_once: "onceInv n fp tp \<Longrightarrow> onceInv n fp (DispatchRun io run tp)"
  by (auto simp: DispatchRun_def afterDispatch_def Let_def split: option.split
      intro: advance_once consume_once reinsert_once)

lemma Advance_once: "onceInv n fp tp \<Longrightarrow> onceInv n fp (Advance now tp)"
proof -
  assume o: "onceInv n fp tp"
  have run: "onceInv n fp t \<Longrightarrow> onceInv n fp (advanceRun r t)" for r t
  proof -
    assume o: "onceInv n fp t"
    then have "sd_Name (pr_DAG r) = n \<Longrightarrow> consumedW ((dagState t (sd_Name (pr_DAG r)))\<lparr>wm_LastScheduledTime := pr_ScheduledTime r\<rparr>) fp"
      by (simp add: onceInv_def consumedIn_def consumedW_def)
    from setDagState_once[OF o, of "sd_Name (pr_DAG r)", OF this] show ?thesis using o by (simp add: advanceRun_def)
  qed
  have "onceInv n fp (tp\<lparr>tp_state := (tp_state tp)\<lparr>ss_LastTick := now\<rparr>\<rparr>)" using o by (simp add: onceInv_def consumedIn_def)
  then have "onceInv n fp (fold advanceRun (tp_last tp) (tp\<lparr>tp_state := (tp_state tp)\<lparr>ss_LastTick := now\<rparr>\<rparr>))"
    by (rule fold_invariant_list) (rule run)
  then show ?thesis by (rule onceInv_cong) (simp_all add: Advance_def)
qed

section \<open>Planning\<close>

lemma storeBuffer_once: "onceInv n fp tp \<Longrightarrow> onceInv n fp (storeBuffer m q tp)"
  by (rule onceInv_cong) (simp_all add: storeBuffer_def)

lemma collapse_once: "onceInv n fp tp \<Longrightarrow> onceInv n fp (snd (collapse m q tp))"
  by (simp add: collapse_def case_prod_beta advance_once)

lemma popAdvance_once: "onceInv n fp tp \<Longrightarrow> onceInv n fp (snd (popAdvance m q tp))"
  by (simp add: popAdvance_def advance_once split: prod.split option.split)

lemma planCatchup_once: "onceInv n fp tp \<Longrightarrow> onceInv n fp (snd (snd (planCatchup io m tp)))"
  using collapse_once[of n fp tp m] popAdvance_once[of n fp tp m]
  by (auto simp: planCatchup_def Let_def case_prod_beta split: option.split intro: storeBuffer_once onceInv_cong)

lemma planDAG_once:
  assumes "onceInv n fp tp" "planDAG io now m dag tp = Some (runs, tp')"
  shows "onceInv n fp tp'"
proof (cases "suspended io dag")
  case True
  have "onceInv n fp (tp\<lparr>tp_buffers := b\<rparr>)" for b by (rule onceInv_cong[OF assms(1)]) simp_all
  then show ?thesis using assms True by (auto simp: planDAG_def dropSuspendedCatchupState_def advance_once)
next
  case False
  obtain run d tp1 where c: "planCatchup io m tp = (run, d, tp1)" by (metis prod_cases3)
  have "tp' = tp1" using assms(2) False unfolding planDAG_def c by (auto split: if_splits option.splits)
  then show ?thesis using planCatchup_once[OF assms(1), of io m] c by simp
qed

lemma consumed_not_pending: "onceInv n fp tp \<Longrightarrow> pendingOneOffState tp n fp = None"
  by (auto simp: onceInv_def consumedIn_def consumedW_def pendingOneOffState_def goget_def zeroWatermark_def
      OneOffStatusPending_def OneOffStatusConsumed_def split: option.splits)

text \<open>A start that is a one-off of this name and fingerprint.\<close>

definition repeatsOneOff :: "string \<Rightarrow> string \<Rightarrow> PlannedRun \<Rightarrow> bool" where
  "repeatsOneOff n fp r \<longleftrightarrow> isOneOffRun r \<and> sd_Name (pr_DAG r) = n \<and> pr_Fingerprint r = fp"

lemma oneOffCandidate_once:
  assumes "onceInv n fp tp" "oneOffCandidate io now tp dag ks = Some r"
  shows "\<not> repeatsOneOff n fp r"
proof -
  obtain k s where ks: "ks = (k, s)" by force
  have "sd_Name (pr_DAG r) = sd_Name dag" "pr_Fingerprint r = Fingerprint (io_cron io) s"
    "pendingOneOffState tp (sd_Name dag) (Fingerprint (io_cron io) s) \<noteq> None"
    using assms(2) by (auto simp: ks oneOffCandidate_def Let_def split: if_splits option.splits dest!: createPlannedRun_fields)
  then show ?thesis using consumed_not_pending[OF assms(1)] by (auto simp: repeatsOneOff_def)
qed

lemma kinds: "IsCron s \<Longrightarrow> \<not> IsOneOff s"
  by (simp add: IsCron_def IsOneOff_def ScheduleKindCron_def ScheduleKindAt_def)

lemma zeroSchedule_kind: "\<not> IsOneOff zeroSchedule"
  by (simp add: IsOneOff_def GetKind_def zeroSchedule_def ScheduleKindAt_def IsZero_def)

lemma cronCandidate_once: "cronCandidate io now dag ks = Some (Some r) \<Longrightarrow> \<not> repeatsOneOff n fp r"
  by (cases ks) (auto simp: cronCandidate_def repeatsOneOff_def isOneOffRun_def kinds
      split: if_splits option.splits dest!: createPlannedRun_fields)

lemma planCatchup_oneoff:
  assumes "fst (planCatchup io m tp) = Some r"
  shows "\<not> isOneOffRun r"
proof (cases "fmlookup (tp_buffers tp) m")
  case (Some q)
  then obtain item where i: "Peek q = Some item" using assms by (cases "Peek q") (simp_all add: planCatchup_def)
  then obtain queued where u: "io_IsQueued io (it_DAG item) = Some queued"
    using assms Some by (cases "io_IsQueued io (it_DAG item)") (simp_all add: planCatchup_def Let_def)
  have "\<exists>d t tr. createPlannedRun io d 0 zeroSchedule t tr = Some r"
  proof (rule ccontr)
    assume no: "\<nexists>d t tr. createPlannedRun io d 0 zeroSchedule t tr = Some r"
    have "fst (if b then (createPlannedRun io d 0 zeroSchedule t tr, x) else (None, y)) \<noteq> Some r" for b d t tr and x y :: "bool \<times> TickPlanner"
      using no by simp
    then show False using assms unfolding planCatchup_def Some option.case i Let_def u case_prod_beta by blast
  qed
  then show ?thesis using createPlannedRun_fields zeroSchedule_kind by (fastforce simp: isOneOffRun_def)
qed (use assms in \<open>simp add: planCatchup_def\<close>)

lemma planDAG_member:
  assumes "planDAG io now m dag tp = Some (runs, tp')" "r \<in> set runs" "planCatchup io m tp = (run, d, tp1)"
  shows "run = Some r \<or> startCandidate io now tp1 dag = Some (Some r) \<or> r \<in> set (stopRuns io now dag) \<or> r \<in> set (restartRuns io now dag)"
proof (cases "suspended io dag \<or> d \<or> run \<noteq> None")
  case True
  then show ?thesis using assms by (auto simp: planDAG_def split: if_splits)
next
  case False
  then obtain start where "startCandidate io now tp1 dag = Some start"
      "runs = (case start of None \<Rightarrow> [] | Some r \<Rightarrow> [r]) @ stopRuns io now dag @ restartRuns io now dag"
    using assms(1,3) by (auto simp: planDAG_def)
  then show ?thesis using assms(2) by (cases start) auto
qed

lemma planDAG_no_repeat:
  assumes "onceInv n fp tp" "planDAG io now m dag tp = Some (runs, tp')" "r \<in> set runs"
  shows "\<not> repeatsOneOff n fp r"
proof -
  obtain run d tp1 where c: "planCatchup io m tp = (run, d, tp1)" by (metis prod_cases3)
  have o: "onceInv n fp tp1" using planCatchup_once[OF assms(1), of io m] c by simp
  from planDAG_member[OF assms(2,3) c] consider "run = Some r" | "startCandidate io now tp1 dag = Some (Some r)"
    | "r \<in> set (stopRuns io now dag)" | "r \<in> set (restartRuns io now dag)" by blast
  then show ?thesis
  proof cases
    case 1
    then show ?thesis using planCatchup_oneoff[of io m tp] c by (simp add: repeatsOneOff_def)
  next
    case 2
    show ?thesis using startCandidate_pred[of io now tp1 dag "\<lambda>r. \<not> repeatsOneOff n fp r", OF _ _ 2]
        oneOffCandidate_once[OF o] cronCandidate_once by blast
  next
    case 3
    then show ?thesis using stopRuns_type by (fastforce simp: repeatsOneOff_def isOneOffRun_def isStartRun_def)
  next
    case 4
    then show ?thesis using restartRuns_type by (fastforce simp: repeatsOneOff_def isOneOffRun_def isStartRun_def)
  qed
qed

lemma planLoop_once:
  assumes "onceInv n fp tp" "planLoop io now names cs tp = Some (runs, tp')" "\<forall>r\<in>set cs. \<not> repeatsOneOff n fp r"
  shows "onceInv n fp tp' \<and> (\<forall>r\<in>set runs. \<not> repeatsOneOff n fp r)"
  using assms
proof (induction names arbitrary: cs tp)
  case (Cons m names)
  show ?case
  proof (cases "fmlookup (tp_entries tp) m")
    case None
    then show ?thesis using Cons.IH[of tp cs] Cons.prems by simp
  next
    case (Some dag)
    then obtain rs t where p: "planDAG io now m dag tp = Some (rs, t)" "planLoop io now names (cs @ rs) t = Some (runs, tp')"
      using Cons.prems(2) by (auto split: option.splits)
    show ?thesis
      using Cons.IH[OF planDAG_once[OF Cons.prems(1) p(1)] p(2)] planDAG_no_repeat[OF Cons.prems(1) p(1)] Cons.prems(3) by auto
  qed
qed simp

lemma Plan_once:
  assumes "onceInv n fp tp" "Planner_Plan io order now tp = Some (runs, tp')"
  shows "onceInv n fp tp' \<and> (\<forall>r\<in>set runs. \<not> repeatsOneOff n fp r)"
proof -
  obtain tp0 where p: "planLoop io now order [] tp = Some (runs, tp0)" "tp' = tp0\<lparr>tp_last := runs\<rparr>"
    using assms(2) by (rule Plan_planLoop)
  show ?thesis using planLoop_once[OF assms(1) p(1)] p(2) by simp
qed

section \<open>Reconciling\<close>

lemma reconcileStep_consumed:
  assumes "consumedW (w\<lparr>wm_OneOffs := oo\<rparr>) fp" "reconcileStep cp now s (oo, active, changed) = (oo', active', changed')"
  shows "consumedW (w\<lparr>wm_OneOffs := oo'\<rparr>) fp"
    and "active \<subseteq> active'" and "fp \<noteq> '''' \<Longrightarrow> Fingerprint cp s = fp \<Longrightarrow> fp \<in> active'"
  using assms by (auto simp: reconcileStep_def consumedW_def Let_def split: if_splits option.splits)

lemma reconcile_fold:
  assumes "consumedW (w\<lparr>wm_OneOffs := oo\<rparr>) fp" "fold (reconcileStep cp now) ss (oo, active, changed) = (oo', active', changed')"
  shows "consumedW (w\<lparr>wm_OneOffs := oo'\<rparr>) fp \<and> active \<subseteq> active'
    \<and> (fp \<noteq> '''' \<longrightarrow> (\<exists>s\<in>set ss. Fingerprint cp s = fp) \<longrightarrow> fp \<in> active')"
  using assms
proof (induction ss arbitrary: oo active changed)
  case (Cons s ss)
  obtain o1 a1 c1 where st: "reconcileStep cp now s (oo, active, changed) = (o1, a1, c1)" by (metis prod_cases3)
  note h = reconcileStep_consumed[OF Cons.prems(1) st]
  have "fold (reconcileStep cp now) ss (o1, a1, c1) = (oo', active', changed')" using Cons.prems(2) st by simp
  note ih = Cons.IH[OF h(1) this]
  show ?case using ih h(2,3) by auto
qed simp

lemma reconcileOneOffState_consumed:
  assumes "consumedW w fp" "fp \<noteq> ''''" "\<exists>s\<in>set (oneOffSchedules dag). Fingerprint cp s = fp"
    "reconcileOneOffState cp w dag now = (w', changed)"
  shows "consumedW w' fp"
proof -
  obtain o1 a1 c1 where f: "fold (reconcileStep cp now) (oneOffSchedules dag) (wm_OneOffs w, {}, False) = (o1, a1, c1)"
    by (metis prod_cases3)
  have "consumedW (w\<lparr>wm_OneOffs := o1\<rparr>) fp" "fp \<in> a1"
    using reconcile_fold[OF _ f, of w fp] assms(1-3) by simp_all
  then show ?thesis using assms(4) f by (auto simp: reconcileOneOffState_def consumedW_def)
qed

lemma consumedIn_reconcileDAG:
  assumes "consumedIn st n fp" "fp \<noteq> ''''" "keepsOneOff cp n fp dag"
  shows "consumedIn (snd (reconcileDAG cp now dag st)) n fp"
proof -
  obtain w changed where r: "reconcileOneOffState cp (goget zeroWatermark (ss_DAGs st) (sd_Name dag)) dag now = (w, changed)" by force
  show ?thesis
  proof (cases "sd_Name dag = n")
    case True
    then have "consumedW w fp"
      using reconcileOneOffState_consumed[OF _ assms(2) _ r] assms(1,3) by (simp add: consumedIn_def keepsOneOff_def)
    then show ?thesis using assms(1) True r by (auto simp: reconcileDAG_def consumedIn_def consumedW_def)
  next
    case False
    then show ?thesis using assms(1) r by (simp add: reconcileDAG_def consumedIn_def goget_def)
  qed
qed

lemma reconcile_once:
  assumes "onceInv n fp tp" "fp \<noteq> ''''" "keepsOneOff (io_cron io) n fp dag"
  shows "onceInv n fp (snd (reconcileOneOffSchedules io now dag tp))"
  using consumedIn_reconcileDAG[OF _ assms(2,3), of "tp_state tp" now] assms(1)
  by (simp add: reconcileOneOffSchedules_def case_prod_beta onceInv_def)

lemma recomputeBuffer_once: "onceInv n fp tp \<Longrightarrow> onceInv n fp (snd (recomputeBuffer io now dag tp))"
  by (simp add: recomputeBuffer_def Let_def case_prod_beta advance_once)

lemma finishEvent_once:
  assumes "onceInv n fp (snd r)" "fp \<noteq> ''''" "keepsOneOff (io_cron io) n fp dag"
  shows "onceInv n fp (finishEvent io dag r)"
  using reconcile_once[OF assms] Flush_once by (simp add: finishEvent_def case_prod_beta)

definition eventKeeps :: "cronParser \<Rightarrow> string \<Rightarrow> string \<Rightarrow> DAGChangeEvent \<Rightarrow> bool" where
  "eventKeeps cp n fp ev = (case ev of
     DAGChangeAdded _ (Some d) \<Rightarrow> keepsOneOff cp n fp d | DAGChangeUpdated _ (Some d) \<Rightarrow> keepsOneOff cp n fp d
   | DAGChangeDeleted m \<Rightarrow> m \<noteq> n | _ \<Rightarrow> True)"

lemma handleEvent_once:
  assumes "onceInv n fp tp" "fp \<noteq> ''''" "eventKeeps (io_cron io) n fp ev"
  shows "onceInv n fp (handleEvent io ev tp)"
proof (cases ev)
  case (DAGChangeAdded m d)
  then show ?thesis using assms finishEvent_once advance_once
    by (cases d) (simp_all add: handleEvent_def eventKeeps_def)
next
  case (DAGChangeUpdated m d)
  show ?thesis
  proof (cases d)
    case (Some dag)
    define tp0 where "tp0 = tp\<lparr>tp_entries := fmupd m dag (tp_entries tp), tp_buffers := fmdrop m (tp_buffers tp)\<rparr>"
    have "onceInv n fp tp0" using assms(1) by (simp add: tp0_def)
    then have "onceInv n fp (snd (if sd_CatchupWindow dag > 0 then recomputeBuffer io (io_Clock io 0) dag tp0 else (False, tp0)))"
      using recomputeBuffer_once by simp
    moreover have "keepsOneOff (io_cron io) n fp dag" using assms(3) DAGChangeUpdated Some by (simp add: eventKeeps_def)
    ultimately show ?thesis
      unfolding handleEvent_def DAGChangeUpdated Some DAGChangeEvent.case option.case Let_def tp0_def[symmetric]
      using finishEvent_once[OF _ assms(2)] by blast
  qed (simp add: handleEvent_def DAGChangeUpdated assms)
next
  case (DAGChangeDeleted m)
  then have "onceInv n fp (tp\<lparr>tp_entries := fmdrop m (tp_entries tp), tp_buffers := fmdrop m (tp_buffers tp),
      tp_state := (tp_state tp)\<lparr>ss_DAGs := fmdrop m (ss_DAGs (tp_state tp))\<rparr>, tp_dirty := True\<rparr>)"
    using assms(1,3) by (simp add: onceInv_def consumedIn_def eventKeeps_def goget_def)
  then show ?thesis using DAGChangeDeleted Flush_once by (simp add: handleEvent_def)
qed

section \<open>Restarting\<close>

lemma initBuffers_once: "onceInv n fp tp \<Longrightarrow> onceInv n fp (initBuffers io now dags tp)"
proof -
  have step: "onceInv n fp t \<Longrightarrow> onceInv n fp (initBuffer io now st dag t)" for st dag t
    by (simp add: initBuffer_def Let_def case_prod_beta advance_once)
  have "onceInv n fp (fold (initBuffer io now st) dags t)" if "onceInv n fp t" for st t
    by (rule fold_invariant_list[where I = "onceInv n fp", OF that step])
  then show "onceInv n fp tp \<Longrightarrow> ?thesis" by (simp add: initBuffers_def)
qed

lemma loadState_consumed:
  assumes "consumedIn saved n fp" "fp \<noteq> ''''" "io_Load io = Some (Watermark_Load (Some saved))"
    "n \<in> sd_Name ` set dags" "\<forall>d\<in>set dags. keepsOneOff (io_cron io) n fp d"
  shows "consumedIn (snd (loadState io dags)) n fp"
proof -
  have v: "ss_Version saved = SchedulerStateVersion" "SchedulerStateVersion \<noteq> 0"
    using assms(1) by (auto simp: consumedIn_def SchedulerStateVersion_def)
  have "consumedIn (saved\<lparr>ss_DAGs := fmfilter (\<lambda>m. m \<in> sd_Name ` set dags) (ss_DAGs saved)\<rparr>) n fp"
    using assms(1,4) by (simp add: consumedIn_def goget_def)
  then have "consumedIn (snd (reconcileAll io dags (b, saved\<lparr>ss_DAGs := fmfilter (\<lambda>m. m \<in> sd_Name ` set dags) (ss_DAGs saved)\<rparr>))) n fp" for b
    unfolding reconcileAll_def
    by (intro fold_invariant_list[where I = "\<lambda>x. consumedIn (snd x) n fp"])
       (auto simp: case_prod_beta intro: consumedIn_reconcileDAG[OF _ assms(2)] assms(5)[rule_format])
  then show ?thesis using v by (simp add: loadState_def assms(3) Watermark_Load_def Let_def)
qed

lemma Init_once:
  assumes "onceInv n fp tp" "fp \<noteq> ''''" "io_Load io = Some (Watermark_Load (Some (tp_saved tp)))"
    "n \<in> sd_Name ` set dags" "\<forall>d\<in>set dags. keepsOneOff (io_cron io) n fp d"
  shows "onceInv n fp (Init io dags (NewTickPlanner (tp_saved tp)))"
proof -
  have s: "consumedIn (tp_saved tp) n fp" using assms(1) by (simp add: onceInv_def)
  have "onceInv n fp (NewTickPlanner (tp_saved tp)\<lparr>tp_entries := e, tp_state := snd (loadState io dags), tp_dirty := b\<rparr>)" for e b
    using loadState_consumed[OF s assms(2-5)] s by (simp add: onceInv_def NewTickPlanner_def)
  from Flush_once[OF initBuffers_once[OF this]] initBuffers_once[OF this] show ?thesis
    unfolding Init_def Let_def case_prod_beta by (cases "fst (loadState io dags)") (simp_all only: if_True if_False)
qed

text \<open>
  What may happen later to a planner, restarts from the watermark store included, as long as the DAG is not deleted
  and keeps the one-off schedule.
\<close>

inductive later :: "cronParser \<Rightarrow> string \<Rightarrow> string \<Rightarrow> TickPlanner \<Rightarrow> TickPlanner \<Rightarrow> bool"
  for cp n fp tp where
  later_refl: "later cp n fp tp tp"
| later_plan: "later cp n fp tp t \<Longrightarrow> Planner_Plan io order now t = Some (runs, t') \<Longrightarrow> later cp n fp tp t'"
| later_dispatch: "later cp n fp tp t \<Longrightarrow> later cp n fp tp (DispatchRun io run t)"
| later_advance: "later cp n fp tp t \<Longrightarrow> later cp n fp tp (Advance now t)"
| later_flush: "later cp n fp tp t \<Longrightarrow> later cp n fp tp (Flush io t)"
| later_event: "later cp n fp tp t \<Longrightarrow> io_cron io = cp \<Longrightarrow> eventKeeps cp n fp ev \<Longrightarrow> later cp n fp tp (handleEvent io ev t)"
| later_restart: "later cp n fp tp t \<Longrightarrow> io_cron io = cp \<Longrightarrow> io_Load io = Some (Watermark_Load (Some (tp_saved t)))
    \<Longrightarrow> n \<in> sd_Name ` set dags \<Longrightarrow> \<forall>d\<in>set dags. keepsOneOff cp n fp d
    \<Longrightarrow> later cp n fp tp (Init io dags (NewTickPlanner (tp_saved t)))"

lemma later_once:
  assumes "later cp n fp tp t" "onceInv n fp tp" "fp \<noteq> ''''"
  shows "onceInv n fp t"
  using assms(1)
proof induction
  case later_refl
  show ?case by (rule assms(2))
next
  case (later_plan t io order now runs t')
  then show ?case using Plan_once by blast
next
  case (later_restart t io dags)
  then show ?case using Init_once[OF _ assms(3)] by blast
next
  case (later_event t io ev)
  then show ?case using handleEvent_once[OF _ assms(3)] by simp
qed (auto intro: DispatchRun_once Advance_once Flush_once)

lemma consumeOneOff_saves:
  assumes "ss_Version (tp_state tp) = SchedulerStateVersion" "\<not> consumedIn (tp_state tp) (sd_Name (pr_DAG run)) (pr_Fingerprint run)"
    "pr_Fingerprint run \<noteq> ''''" "io_Save io"
  shows "onceInv (sd_Name (pr_DAG run)) (pr_Fingerprint run) (consumeOneOff io run tp)"
proof -
  let ?n = "sd_Name (pr_DAG run)" and ?fp = "pr_Fingerprint run"
  define s where "s = goget zeroOneOff (wm_OneOffs (dagState tp ?n)) ?fp"
  define s1 where "s1 = (if IsZero (oo_ScheduledTime s) then s\<lparr>oo_ScheduledTime := pr_ScheduledTime run\<rparr> else s)"
  have "s = orElse (fmlookup (wm_OneOffs (dagState tp ?n)) ?fp) zeroOneOff"
    unfolding s_def goget_def[of zeroOneOff] orElse_def by (rule refl)
  moreover have "oo_Status zeroOneOff \<noteq> OneOffStatusConsumed" by (simp add: zeroOneOff_def OneOffStatusConsumed_def)
  ultimately have "oo_Status s \<noteq> OneOffStatusConsumed"
    using assms(1,2) by (cases "fmlookup (wm_OneOffs (dagState tp ?n)) ?fp") (simp_all add: consumedIn_def consumedW_def)
  then have "oo_Status s1 \<noteq> OneOffStatusConsumed" by (simp add: s1_def)
  then show ?thesis
    using assms(1,3,4) unfolding consumeOneOff_def markOneOffConsumed_def Let_def s_def[symmetric] s1_def[symmetric]
    by (simp add: Flush_def onceInv_def consumedIn_def consumedW_def setDagState_def)
qed

text \<open>C19: a one-off schedule is started at most once: after its run was dispatched and the flush that follows succeeded, no
  later plan contains it again, in whatever way ticks, dispatches, DAG events that keep the schedule, flushes, crashes
  and restarts follow each other.\<close>

theorem one_off_runs_once:
  assumes "isOneOffRun run" "pr_Fingerprint run \<noteq> ''''" "\<not> suspended io (pr_DAG run)" "io_RunExists io 0 run = Some False"
    and "performRun io run = Some True" "pr_TriggerType run = TriggerTypeScheduler" "io_Save io"
    and "ss_Version (tp_state tp) = SchedulerStateVersion" "\<not> consumedIn (tp_state tp) (sd_Name (pr_DAG run)) (pr_Fingerprint run)"
    and "later cp (sd_Name (pr_DAG run)) (pr_Fingerprint run) (DispatchRun io run tp) tp1"
    and "Planner_Plan io1 order now tp1 = Some (runs, tp2)"
  shows "\<forall>r\<in>set runs. \<not> (isOneOffRun r \<and> sd_Name (pr_DAG r) = sd_Name (pr_DAG run) \<and> pr_Fingerprint r = pr_Fingerprint run)"
proof -
  have "\<not> isCatchupRun run" using assms(6) by (simp add: isCatchupRun_def)
  then have "DispatchRun io run tp = consumeOneOff io run tp"
    using assms(1,3-5) by (simp add: DispatchRun_def afterDispatch_def Let_def)
  then have "onceInv (sd_Name (pr_DAG run)) (pr_Fingerprint run) (DispatchRun io run tp)"
    using consumeOneOff_saves[OF assms(8,9,2,7)] by simp
  then have "onceInv (sd_Name (pr_DAG run)) (pr_Fingerprint run) tp1" using later_once[OF assms(10)] assms(2) by blast
  then show ?thesis using Plan_once[OF _ assms(11)] by (auto simp: repeatsOneOff_def)
qed

section \<open>An example of a one-off schedule\<close>

definition newYear :: Schedule where
  "newYear = zeroSchedule\<lparr>sc_Kind := ScheduleKindAt, sc_At := ''2026-01-01T00:00:00Z'', sc_AtTime := 1767225600 * second\<rparr>"

definition newYearDAG :: SchedDAG where
  "newYearDAG = \<lparr>sd_Name = ''o'', sd_Location = ''o.yaml'', sd_CatchupWindow = 0, sd_OverlapPolicy = ''skip'',
     sd_SkipIfSuccessful = False, sd_Schedule = [newYear], sd_StopSchedule = [], sd_RestartSchedule = []\<rparr>"

definition newYearState :: "string \<Rightarrow> SchedulerState" where
  "newYearState status = emptyState\<lparr>ss_DAGs := fmupd ''o'' \<lparr>wm_LastScheduledTime = zeroTime,
     wm_OneOffs = fmupd ''at:2026-01-01T00:00:00Z'' \<lparr>oo_ScheduledTime = 1767225600 * second, oo_Status = status\<rparr> fmempty\<rparr> fmempty\<rparr>"

definition newYearPlanner :: "string \<Rightarrow> PlannedRun list \<Rightarrow> TickPlanner" where
  "newYearPlanner status runs = \<lparr>tp_entries = fmupd ''o'' newYearDAG fmempty, tp_buffers = fmempty, tp_state = newYearState status,
     tp_dirty = False, tp_last = runs, tp_saved = newYearState status\<rparr>"

definition newYearRun :: PlannedRun where
  "newYearRun = \<lparr>pr_DAG = newYearDAG, pr_RunID = GenerateOneOffRunID (\<lambda>_. replicate 64 CHR ''0'') ''o'' ''at:2026-01-01T00:00:00Z'' (1767225600 * second),
     pr_ScheduledTime = 1767225600 * second, pr_TriggerType = TriggerTypeScheduler, pr_ScheduleType = ScheduleTypeStart,
     pr_Schedule = newYear, pr_Fingerprint = ''at:2026-01-01T00:00:00Z''\<rparr>"

lemma newYear_time: "parseOneOffTime ''2026-01-01T00:00:00Z'' = Some (1767225600 * second, ''2026-01-01T00:00:00Z'')"
  by code_simp

lemma newYear_kind [simp]: "IsOneOff newYear" "\<not> IsCron newYear"
  by (simp_all add: IsOneOff_def IsCron_def GetKind_def newYear_def ScheduleKindAt_def ScheduleKindCron_def)

lemma newYear_fingerprint [simp]: "Fingerprint cp newYear = ''at:2026-01-01T00:00:00Z''"
  by (simp add: Fingerprint_def normalizeSchedule_def GetKind_def newYear_def ScheduleKindAt_def ScheduleKindCron_def
      NewOneOffSchedule_def newYear_time)

lemma idle_shouldRun [simp]: "shouldRunOneOff (idleIO now st) dag"
  by (simp add: shouldRunOneOff_def idle_simps)

lemma newYear_plan:
  assumes "1767225600 * second \<le> now"
  shows "Planner_Plan (idleIO now st) [''o''] now (newYearPlanner status rs) =
    (let runs = (if status = OneOffStatusPending then [newYearRun] else []) in Some (runs, newYearPlanner status runs))"
proof -
  let ?io = "idleIO now st" and ?tp = "newYearPlanner status rs"
  have l: "fmlookup (tp_entries ?tp) ''o'' = Some newYearDAG" "tp_buffers ?tp = fmempty" by (simp_all add: newYearPlanner_def)
  have n: "sd_Name newYearDAG = ''o''" "enumerate 0 (sd_Schedule newYearDAG) = [(0, newYear)]" "sd_StopSchedule newYearDAG = []"
    "sd_RestartSchedule newYearDAG = []" by (simp_all add: newYearDAG_def)
  have "pendingOneOffState ?tp ''o'' ''at:2026-01-01T00:00:00Z'' = (if status = OneOffStatusPending
      then Some \<lparr>oo_ScheduledTime = 1767225600 * second, oo_Status = status\<rparr> else None)"
    by (simp add: pendingOneOffState_def newYearPlanner_def newYearState_def)
  moreover have "createPlannedRun ?io newYearDAG 0 newYear (1767225600 * second) TriggerTypeScheduler = Some newYearRun"
    by (simp add: createPlannedRun_def newYearRun_def n) (simp add: idle_simps)
  ultimately have "oneOffCandidate ?io now ?tp newYearDAG (0, newYear) = (if status = OneOffStatusPending then Some newYearRun else None)"
    using assms by (simp add: oneOffCandidate_def n)
  then have s: "startCandidate ?io now ?tp newYearDAG = Some (if status = OneOffStatusPending then Some newYearRun else None)"
    by (simp add: startCandidate_def n cronCandidate_def preferRun_def shouldPreferStartCandidate_def)
  have "planDAG ?io now ''o'' newYearDAG ?tp = Some (if status = OneOffStatusPending then [newYearRun] else [], ?tp)"
    by (simp add: planDAG_def planCatchup_def l(2) s stopRuns_def restartRuns_def n List.map_filter_def)
  then show ?thesis by (simp add: Planner_Plan_def l(1) Let_def newYearPlanner_def)
qed

lemma newYear_dispatch:
  "DispatchRun (idleIO now st) newYearRun (newYearPlanner OneOffStatusPending runs) = newYearPlanner OneOffStatusConsumed runs"
proof -
  have "isOneOffRun newYearRun" "\<not> isCatchupRun newYearRun" by (simp_all add: isOneOffRun_def isCatchupRun_def isStartRun_def newYearRun_def)
  moreover have "io_RunExists (idleIO now st) 0 newYearRun = Some False" "performRun (idleIO now st) newYearRun = Some True" "io_Save (idleIO now st)"
    by (simp_all add: idle_simps performRun_def newYearRun_def)
  moreover have "\<not> IsZero (1767225600 * second)" by (simp add: IsZero_def zeroTime_eq second_def)
  ultimately show ?thesis
    by (simp add: DispatchRun_def afterDispatch_def consumeOneOff_def markOneOffConsumed_def Let_def newYearRun_def newYearDAG_def Flush_def
        setDagState_def newYearPlanner_def newYearState_def emptyState_def OneOffStatusPending_def OneOffStatusConsumed_def)
qed

theorem one_off_runs_once_witness:
  "\<exists>tp1 runs tp2. Planner_Plan (idleIO (1767225600 * second) emptyState) [''o''] (1767225600 * second) (newYearPlanner OneOffStatusPending []) = Some ([newYearRun], tp1)
    \<and> Planner_Plan (idleIO (1767225660 * second) emptyState) [''o''] (1767225660 * second)
        (DispatchRun (idleIO (1767225600 * second) emptyState) newYearRun tp1) = Some (runs, tp2)
    \<and> (\<forall>r\<in>set runs. \<not> (isOneOffRun r \<and> sd_Name (pr_DAG r) = sd_Name (pr_DAG newYearRun) \<and> pr_Fingerprint r = pr_Fingerprint newYearRun))"
proof -
  let ?io = "idleIO (1767225600 * second) emptyState" and ?io1 = "idleIO (1767225660 * second) emptyState"
  let ?tp = "newYearPlanner OneOffStatusPending [newYearRun]"
  have p0: "Planner_Plan ?io [''o''] (1767225600 * second) (newYearPlanner OneOffStatusPending []) = Some ([newYearRun], ?tp)"
    using newYear_plan[of "1767225600 * second"] by (simp add: Let_def)
  have p1: "Planner_Plan ?io1 [''o''] (1767225660 * second) (DispatchRun ?io newYearRun ?tp) = Some ([], newYearPlanner OneOffStatusConsumed [])"
    unfolding newYear_dispatch by (subst newYear_plan) (simp_all add: Let_def second_def OneOffStatusPending_def OneOffStatusConsumed_def)
  have "isOneOffRun newYearRun" "pr_Fingerprint newYearRun \<noteq> ''''" "\<not> suspended ?io (pr_DAG newYearRun)" "io_RunExists ?io 0 newYearRun = Some False"
    "performRun ?io newYearRun = Some True" "pr_TriggerType newYearRun = TriggerTypeScheduler" "io_Save ?io"
    "ss_Version (tp_state ?tp) = SchedulerStateVersion"
    "\<not> consumedIn (tp_state ?tp) (sd_Name (pr_DAG newYearRun)) (pr_Fingerprint newYearRun)"
    by (simp_all add: isOneOffRun_def isStartRun_def newYearRun_def idle_simps performRun_def newYearPlanner_def newYearState_def
        emptyState_def newYearDAG_def consumedIn_def consumedW_def OneOffStatusPending_def OneOffStatusConsumed_def isSuspendedDAG_def Let_def)
  from one_off_runs_once[OF this later_refl p1] show ?thesis by (intro exI conjI) (rule p0, rule p1)
qed

section \<open>Catch-up runs after a restart\<close>

lemma missedLoop_ge: "u \<in> set (missedLoop p to t r) \<Longrightarrow> u \<in> set r \<or> t \<le> u"
proof (induction p to t r rule: missedLoop.induct)
  case (1 p to t r)
  show ?case
  proof (cases "t > to \<or> p t \<le> t")
    case True
    then show ?thesis using 1(2) by (subst (asm) missedLoop.simps) (auto simp: Let_def split: if_splits)
  next
    case False
    then show ?thesis using 1 by (subst (asm) (2) missedLoop.simps) (auto simp: Let_def split: if_splits)
  qed
qed

lemma missed_after:
  assumes "\<forall>s\<in>set ss. \<forall>p. sc_Parsed s = Some p \<longrightarrow> from < p from" "u \<in> set (ComputeMissedIntervals ss from to)"
  shows "from < u"
proof -
  have "from < u" if "u \<in> set (fold (missedTimes from to) xs r)" "set xs \<subseteq> set ss" "\<forall>v\<in>set r. from < v" for xs r
    using that
  proof (induction xs arbitrary: r)
    case (Cons s xs)
    have "\<forall>v\<in>set (missedTimes from to s r). from < v"
      using Cons.prems(2,3) assms(1) missedLoop_ge by (fastforce simp: missedTimes_def split: option.splits)
    then show ?case using Cons.IH Cons.prems(1,2) by simp
  qed simp
  from this[of ss "[]"] show ?thesis
    using assms(2) by (auto simp: ComputeMissedIntervals_def Let_def split: if_splits dest: in_set_dropD)
qed

lemma sendAll_items: "set (sb_items (sendAll is q)) \<subseteq> set (sb_items q) \<union> set is"
proof (induction "is" arbitrary: q)
  case (Cons i "is")
  show ?case using Cons.IH[of "q\<lparr>sb_items := sb_items q @ [i]\<rparr>"] by (auto simp: Send_def)
qed simp

lemma catchupBuffer_times: "i \<in> set (sb_items (catchupBuffer dag missed)) \<Longrightarrow> it_ScheduledTime i \<in> set missed"
  using sendAll_items[of "map (catchupItem dag) missed" "NewScheduleBuffer (sd_OverlapPolicy dag)"]
  by (auto simp: catchupBuffer_def NewScheduleBuffer_def catchupItem_def)

lemma drop_items: "set (sb_items (snd (DropAllButLast q))) \<subseteq> set (sb_items q)"
  using last_in_set[of "sb_items q"] by (cases "sb_items q = []") (auto simp: DropAllButLast_def)

definition laterItems :: "int \<Rightarrow> TickPlanner \<Rightarrow> bool" where
  "laterItems t tp \<longleftrightarrow> (\<forall>n q. fmlookup (tp_buffers tp) n = Some q \<longrightarrow> (\<forall>i\<in>set (sb_items q). t < it_ScheduledTime i))"

lemma laterItems_upd:
  assumes "laterItems t tp" "\<forall>i\<in>set (sb_items q). t < it_ScheduledTime i" "tp_buffers tp' = fmupd n q (tp_buffers tp)"
  shows "laterItems t tp'"
  using assms by (auto simp: laterItems_def split: if_splits)

lemma initBuffer_later:
  assumes "laterItems t tp" "t \<le> ss_LastTick st" "\<forall>s\<in>set (sd_Schedule dag). \<forall>p. sc_Parsed s = Some p \<longrightarrow> (\<forall>u. u < p u)"
  shows "laterItems t (initBuffer io now st dag tp)"
proof -
  define q where "q = catchupBuffer dag (missedFor io now dag st)"
  have "t < u" if "u \<in> set (missedFor io now dag st)" for u
  proof -
    have "ComputeReplayFrom (sd_CatchupWindow dag) (ss_LastTick st) (wm_LastScheduledTime (goget zeroWatermark (ss_DAGs st) (sd_Name dag))) now < u"
      by (rule missed_after[OF _ that[unfolded missedFor_def]]) (use assms(3) in blast)
    then show ?thesis using assms(2) by (auto simp: ComputeReplayFrom_def Let_def split: if_splits)
  qed
  then have q: "\<forall>i\<in>set (sb_items q). t < it_ScheduledTime i" using catchupBuffer_times by (auto simp: q_def)
  then have "\<forall>i\<in>set (sb_items (snd (DropAllButLast q))). t < it_ScheduledTime i" using drop_items[of q] by blast
  then show ?thesis
    using q assms(1) laterItems_upd[OF assms(1)] unfolding initBuffer_def Let_def q_def[symmetric] case_prod_beta by simp
qed

lemma reconcileAll_tick: "ss_LastTick (snd (reconcileAll io dags (b, st))) = ss_LastTick st"
proof -
  have "ss_LastTick (snd (fold (\<lambda>dag (changed, st). case reconcileDAG (io_cron io) (io_Clock io 0) dag st of (c, st') \<Rightarrow> (changed \<or> c, st')) dags x))
      = ss_LastTick (snd x)" for x
    by (induction dags arbitrary: x) (auto simp: reconcileDAG_def case_prod_beta)
  then show ?thesis by (simp add: reconcileAll_def)
qed

lemma fold_advanceRun_state:
  "ss_LastTick (tp_state (fold advanceRun rs t)) = ss_LastTick (tp_state t) \<and> ss_Version (tp_state (fold advanceRun rs t)) = ss_Version (tp_state t)"
  by (induction rs arbitrary: t) (simp_all add: advanceRun_def setDagState_def)



end
