(* ===== verification/Run_Status.thy ===== *)
theory Run_Status
  imports Status Queue_Name "HOL-Library.Word"
begin

text \<open>
  What the distributed parts share: references to dag-runs and keys of attempts (\<open>internal/core/exec/dagrun.go\<close>), the
  status of a run (\<open>internal/core/exec/runstatus.go\<close>), leases and the index of active runs
  (\<open>internal/core/exec/distributed.go\<close>), and the error that crosses the network as a text
  (\<open>internal/core/exec/stale_queue_dispatch.go\<close>).  Times are nanoseconds, stamps in records milliseconds.
\<close>

unbundle bit_operations_syntax

section \<open>References to dag-runs\<close>

definition NewDAGRunRef :: "string \<Rightarrow> string \<Rightarrow> DAGRunRef" where
  "NewDAGRunRef name runID = \<lparr>dr_Name = name, dr_ID = runID\<rparr>"

definition DAGRunRef_String :: "DAGRunRef \<Rightarrow> string" where
  "DAGRunRef_String e = dr_Name e @ '':'' @ dr_ID e"

definition zeroRef :: DAGRunRef where
  "zeroRef = \<lparr>dr_Name = '''', dr_ID = ''''\<rparr>"

definition DAGRunRef_Zero :: "DAGRunRef \<Rightarrow> bool" where
  "DAGRunRef_Zero e \<longleftrightarrow> e = zeroRef"

text \<open>\<open>strings.SplitN\<close> with a separator of one character and two parts; \<open>None\<close> when the separator does not occur.\<close>

fun splitTwo :: "char \<Rightarrow> string \<Rightarrow> (string \<times> string) option" where
  "splitTwo c [] = None"
| "splitTwo c (x # xs) = (if x = c then Some ([], xs) else map_option (\<lambda>(a, b). (x # a, b)) (splitTwo c xs))"

datatype RunRefError = ErrInvalidRunRefFormat

definition ParseDAGRunRef :: "string \<Rightarrow> (RunRefError, DAGRunRef) result" where
  "ParseDAGRunRef s = (case splitTwo (CHR '':'') s of
     None \<Rightarrow> Err ErrInvalidRunRefFormat | Some (name, runID) \<Rightarrow> Ok (NewDAGRunRef name runID))"

text \<open>The 64 bit FNV-1a hash of the standard library.\<close>

definition fnv1a :: "string \<Rightarrow> 64 word" where
  "fnv1a s = foldl (\<lambda>h c. (h XOR of_nat (of_char c)) * 1099511628211) 14695981039346656037 s"

definition hexDigit :: "nat \<Rightarrow> char" where
  "hexDigit n = (if n < 10 then char_of (48 + n) else char_of (87 + n))"

definition hexWord :: "64 word \<Rightarrow> string" where
  "hexWord w = map (\<lambda>i. hexDigit (unat (drop_bit (4 * i) w AND 15))) (rev [0..<16])"

definition nul :: string where
  "nul = [CHR 0x00]"

definition GenerateAttemptKey :: "string \<Rightarrow> string \<Rightarrow> string \<Rightarrow> string \<Rightarrow> string \<Rightarrow> string" where
  "GenerateAttemptKey rootName rootID dagName dagRunID attemptID =
     hexWord (fnv1a (rootName @ nul @ rootID @ nul @ dagName @ nul @ dagRunID)) @ '':'' @ attemptID"

section \<open>The status of a run\<close>

text \<open>The fields that queueing and distribution read or write; a node pointer may be nil.\<close>

record RunNode =
  rn_Name :: string
  rn_Status :: NodeStatus
  rn_FinishedAt :: string
  rn_Error :: string

record DAGRunStatus =
  rs_Root :: DAGRunRef
  rs_Parent :: DAGRunRef
  rs_Name :: string
  rs_DAGRunID :: string
  rs_AttemptID :: string
  rs_AttemptKey :: string
  rs_Status :: Status
  rs_TriggerType :: TriggerType
  rs_WorkerID :: string
  rs_PID :: int
  rs_Nodes :: "RunNode option list"
  rs_ScheduleTime :: string
  rs_FinishedAt :: string
  rs_ProcGroup :: string
  rs_SuspendFlagName :: string
  rs_Error :: string
  rs_LeaseAt :: int

definition DAGRunStatus_DAGRun :: "DAGRunStatus \<Rightarrow> DAGRunRef" where
  "DAGRunStatus_DAGRun st = NewDAGRunRef (rs_Name st) (rs_DAGRunID st)"

definition DefaultStaleLeaseThreshold :: int where
  "DefaultStaleLeaseThreshold = 30 * second"

section \<open>Leases\<close>

record CoordinatorEndpoint =
  ce_ID :: string
  ce_Host :: string
  ce_Port :: int

definition noEndpoint :: CoordinatorEndpoint where
  "noEndpoint = \<lparr>ce_ID = '''', ce_Host = '''', ce_Port = 0\<rparr>"

record DAGRunLease =
  le_AttemptKey :: string
  le_DAGRun :: DAGRunRef
  le_Root :: DAGRunRef
  le_AttemptID :: string
  le_QueueName :: string
  le_WorkerID :: string
  le_Owner :: CoordinatorEndpoint
  le_ClaimedAt :: int
  le_LastHeartbeatAt :: int

definition IsFresh :: "DAGRunLease \<Rightarrow> int \<Rightarrow> int \<Rightarrow> bool" where
  "IsFresh l now staleThreshold =
     (if staleThreshold \<le> 0 \<or> le_LastHeartbeatAt l = 0 then False
      else now - le_LastHeartbeatAt l * 10 ^ 6 < staleThreshold)"

record ActiveDistributedRun =
  ad_AttemptKey :: string
  ad_DAGRun :: DAGRunRef
  ad_Root :: DAGRunRef
  ad_AttemptID :: string
  ad_WorkerID :: string
  ad_Status :: Status
  ad_UpdatedAt :: int

definition IsRemoteWorkerID :: "string \<Rightarrow> bool" where
  "IsRemoteWorkerID workerID \<longleftrightarrow> workerID \<noteq> '''' \<and> workerID \<noteq> ''local''"

definition nonEmptyOr :: "string \<Rightarrow> string \<Rightarrow> string" where
  "nonEmptyOr a b = (if a = '''' then b else a)"

definition AttemptKeyForStatus :: "DAGRunStatus \<Rightarrow> string \<Rightarrow> string" where
  "AttemptKeyForStatus status fallbackAttemptID =
     (if rs_AttemptKey status \<noteq> '''' then rs_AttemptKey status
      else let attemptID = nonEmptyOr (rs_AttemptID status) fallbackAttemptID
           in if attemptID = '''' then ''''
              else if DAGRunRef_Zero (rs_Root status) \<and> \<not> DAGRunRef_Zero (rs_Parent status) then ''''
              else let root = (if DAGRunRef_Zero (rs_Root status) then DAGRunStatus_DAGRun status else rs_Root status)
                   in GenerateAttemptKey (dr_Name root) (dr_ID root) (rs_Name status) (rs_DAGRunID status) attemptID)"

definition LeaseMatchesStatus :: "DAGRunLease option \<Rightarrow> DAGRunStatus \<Rightarrow> string \<Rightarrow> int \<Rightarrow> int \<Rightarrow> bool" where
  "LeaseMatchesStatus lease status fallbackAttemptID now staleThreshold = (case lease of
       None \<Rightarrow> False
     | Some l \<Rightarrow>
         let attemptKey = AttemptKeyForStatus status fallbackAttemptID;
             attemptID = nonEmptyOr (rs_AttemptID status) fallbackAttemptID
         in if \<not> IsFresh l now staleThreshold then False
            else if attemptKey \<noteq> '''' \<and> le_AttemptKey l \<noteq> attemptKey then False
            else if attemptID \<noteq> '''' \<and> le_AttemptID l \<noteq> '''' \<and> le_AttemptID l \<noteq> attemptID then False
            else if rs_DAGRunID status \<noteq> '''' \<and> le_DAGRun l \<noteq> DAGRunStatus_DAGRun status then False
            else if \<not> DAGRunRef_Zero (rs_Root status) \<and> \<not> DAGRunRef_Zero (le_Root l) \<and> le_Root l \<noteq> rs_Root status then False
            else if rs_WorkerID status \<noteq> '''' \<and> le_WorkerID l \<noteq> '''' \<and> le_WorkerID l \<noteq> rs_WorkerID status then False
            else True)"

section \<open>Stale dispatches\<close>

definition stalePrefix :: string where
  "stalePrefix = ''stale queue dispatch''"

definition StaleError_Error :: "string \<Rightarrow> string" where
  "StaleError_Error reason = (if reason = '''' then stalePrefix else stalePrefix @ '': '' @ reason)"

text \<open>The text from the first occurrence of a separator on (\<open>strings.Index\<close>).\<close>

fun fromIndex :: "string \<Rightarrow> string \<Rightarrow> string option" where
  "fromIndex p [] = (if p = [] then Some [] else None)"
| "fromIndex p (c # cs) = (if hasPrefix p (c # cs) then Some (c # cs) else fromIndex p cs)"

definition ParseStaleQueueDispatchError :: "string \<Rightarrow> string option" where
  "ParseStaleQueueDispatchError msg =
     (if msg = stalePrefix then Some ''''
      else (case fromIndex stalePrefix msg of
          None \<Rightarrow> None
        | Some m \<Rightarrow>
            if m = stalePrefix then Some ''''
            else if hasPrefix (stalePrefix @ '': '') m then Some (drop (length (stalePrefix @ '': '')) m)
            else None))"

section \<open>Round trips\<close>

lemma splitTwo_iff: "splitTwo c s = Some (a, b) \<longleftrightarrow> s = a @ c # b \<and> c \<notin> set a"
proof (induction s arbitrary: a b)
  case (Cons x xs)
  then show ?case by (cases a) (auto simp: Cons_eq_append_conv)
qed simp

text \<open>Parsing a reference gives back exactly the reference that was printed: a text parses to a reference exactly when it is the
  printed form of it and the name has no colon, so run identifiers may contain colons and nothing else is accepted.\<close>

theorem parse_DAGRunRef: "ParseDAGRunRef s = Ok r \<longleftrightarrow> s = DAGRunRef_String r \<and> CHR '':'' \<notin> set (dr_Name r)"
proof -
  have "ParseDAGRunRef s = Ok r \<longleftrightarrow> splitTwo (CHR '':'') s = Some (dr_Name r, dr_ID r)"
    by (cases r) (auto simp: ParseDAGRunRef_def NewDAGRunRef_def split: option.splits)
  then show ?thesis by (simp add: splitTwo_iff DAGRunRef_String_def)
qed

lemma length_hexWord [simp]: "length (hexWord w) = 16"
  by (simp add: hexWord_def)

lemma key_attemptID: "drop 17 (GenerateAttemptKey a b c d i) = i"
  by (simp add: GenerateAttemptKey_def)

lemma key_inj_attempt: "GenerateAttemptKey a b c d i = GenerateAttemptKey a' b' c' d' i' \<Longrightarrow> i = i'"
  using key_attemptID by metis

lemma key_nonempty [simp]: "GenerateAttemptKey a b c d i \<noteq> ''''"
  by (simp add: GenerateAttemptKey_def)

lemma hasPrefix_app [simp]: "hasPrefix p (p @ s)"
  by (simp add: hasPrefix_def)

lemma fromIndex_skip:
  assumes "\<And>v. suffix v w \<Longrightarrow> v \<noteq> [] \<Longrightarrow> \<not> hasPrefix p (v @ t)" "fromIndex p t = Some t"
  shows "fromIndex p (w @ t) = Some t"
  using assms
proof (induction w)
  case (Cons c w)
  have "\<not> hasPrefix p ((c # w) @ t)" by (rule Cons.prems(1)) simp_all
  moreover have "fromIndex p (w @ t) = Some t" using Cons.IH[OF Cons.prems(1) Cons.prems(2)] by (simp add: suffix_Cons)
  ultimately show ?case by simp
qed simp

lemma fromIndex_self: "p \<noteq> [] \<Longrightarrow> hasPrefix p t \<Longrightarrow> fromIndex p t = Some t"
  by (cases t) (simp_all add: hasPrefix_def)

text \<open>The reason of a stale dispatch survives its way over the network: whatever text the transport puts in front of the message, as
  long as the prefix does not occur earlier, parsing the message gives back the reason.\<close>

theorem parse_stale_roundtrip:
  assumes "\<And>v. suffix v w \<Longrightarrow> v \<noteq> [] \<Longrightarrow> \<not> hasPrefix stalePrefix (v @ StaleError_Error reason)"
  shows "ParseStaleQueueDispatchError (w @ StaleError_Error reason) = Some reason"
proof -
  have p: "stalePrefix \<noteq> []" by (simp add: stalePrefix_def)
  have "fromIndex stalePrefix (StaleError_Error reason) = Some (StaleError_Error reason)"
    by (rule fromIndex_self[OF p]) (simp add: StaleError_Error_def hasPrefix_def)
  then have i: "fromIndex stalePrefix (w @ StaleError_Error reason) = Some (StaleError_Error reason)"
    using fromIndex_skip assms by blast
  show ?thesis
  proof (cases "reason = ''''")
    case True
    then have "StaleError_Error reason = stalePrefix" by (simp add: StaleError_Error_def)
    then show ?thesis using i True by (simp add: ParseStaleQueueDispatchError_def)
  next
    case False
    then have e: "StaleError_Error reason = (stalePrefix @ '': '') @ reason" by (simp add: StaleError_Error_def)
    have "length (w @ (stalePrefix @ '': '') @ reason) \<noteq> length stalePrefix" by simp
    then have "w @ (stalePrefix @ '': '') @ reason \<noteq> stalePrefix" by metis
    then show ?thesis using i False unfolding e
      by (simp add: ParseStaleQueueDispatchError_def hasPrefix_def)
  qed
qed

theorem parse_stale_roundtrip_witness:
  "ParseStaleQueueDispatchError (''rpc error: '' @ StaleError_Error ''latest attempt is running'') = Some ''latest attempt is running''"
proof (rule parse_stale_roundtrip)
  fix v :: string
  assume "suffix v ''rpc error: ''" "v \<noteq> []"
  then show "\<not> hasPrefix stalePrefix (v @ StaleError_Error ''latest attempt is running'')"
    by (auto simp: suffix_Cons hasPrefix_def stalePrefix_def)
qed

end
