(* ===== verification/Run_Store.thy ===== *)
theory Run_Store
  imports Run_Status
begin

text \<open>
  The part of the dag-run store (\<open>internal/persis/filedagrun\<close>) that queueing and distribution use: the attempts of a run, the
  append-only status file of an attempt, the latest attempt, and the compare-and-swap on its status.  A run is a directory
  with its attempts, the latest first; sub-runs lie below their root run.  A status file is a list of lines, a line that
  does not parse is \<open>None\<close>.  The cache of parsed files is not modelled.
  Closing an attempt replaces its file by one with the last status only, which reads the same.  A writer that is still open on the
  replaced file loses its lines, here they arrive; this happens only after a compare-and-swap has made the status terminal, when the
  coordinator accepts only reports with that same status.
\<close>

section \<open>Attempts\<close>

record Attempt =
  at_ID :: string
  at_Hidden :: bool
  at_Lines :: "DAGRunStatus option list option"
  at_CancelRequested :: bool

datatype RunKey = RootRun DAGRunRef | SubRun DAGRunRef string

record RunStore =
  st_runs :: "(RunKey, Attempt list) fmap"

datatype RunStoreError = ErrDAGRunIDEmpty | ErrDAGRunIDNotFound | ErrNoStatusData | ErrCorruptedStatusFile | ErrMissingRootName
  | ErrStoreIO

text \<open>An open attempt is the run and the identifier of the attempt.\<close>

type_synonym AttemptHandle = "RunKey \<times> string"

record RunIO =
  rio_lock :: bool
  rio_find :: bool
  rio_read :: bool
  rio_open :: bool
  rio_write :: bool
  rio_flag :: bool

text \<open>\<open>parseStatusFileWithContext\<close>: the last line that parses.\<close>

fun parseLines :: "DAGRunStatus option list \<Rightarrow> DAGRunStatus option" where
  "parseLines [] = None"
| "parseLines (l # ls) = (case parseLines ls of Some st \<Rightarrow> Some st | None \<Rightarrow> l)"

definition Attempt_Exists :: "Attempt \<Rightarrow> bool" where
  "Attempt_Exists a \<longleftrightarrow> at_Lines a \<noteq> None"

definition LatestAttempt :: "Attempt list \<Rightarrow> (RunStoreError, Attempt) result" where
  "LatestAttempt as = (case find (\<lambda>a. \<not> at_Hidden a \<and> Attempt_Exists a) as of
     None \<Rightarrow> Err ErrNoStatusData | Some a \<Rightarrow> Ok a)"

definition FindByDAGRunID :: "RunIO \<Rightarrow> DAGRunRef \<Rightarrow> RunStore \<Rightarrow> (RunStoreError, Attempt list) result" where
  "FindByDAGRunID io ref s = (if \<not> rio_find io then Err ErrStoreIO
     else (case fmlookup (st_runs s) (RootRun ref) of None \<Rightarrow> Err ErrDAGRunIDNotFound | Some as \<Rightarrow> Ok as))"

definition FindAttempt :: "RunIO \<Rightarrow> DAGRunRef \<Rightarrow> RunStore \<Rightarrow> (RunStoreError, AttemptHandle) result" where
  "FindAttempt io ref s = (if dr_ID ref = '''' then Err ErrDAGRunIDEmpty
     else result_bind (FindByDAGRunID io ref s) (\<lambda>as.
          result_bind (LatestAttempt as) (\<lambda>a. Ok (RootRun ref, at_ID a))))"

definition FindSubAttempt :: "RunIO \<Rightarrow> DAGRunRef \<Rightarrow> string \<Rightarrow> RunStore \<Rightarrow> (RunStoreError, AttemptHandle) result" where
  "FindSubAttempt io ref subDAGRunID s = (if dr_ID ref = '''' then Err ErrDAGRunIDEmpty
     else result_bind (FindByDAGRunID io ref s) (\<lambda>_.
          case fmlookup (st_runs s) (SubRun ref subDAGRunID) of
            None \<Rightarrow> Err ErrDAGRunIDNotFound
          | Some as \<Rightarrow> result_bind (LatestAttempt as) (\<lambda>a. Ok (SubRun ref subDAGRunID, at_ID a))))"

definition attemptOf :: "AttemptHandle \<Rightarrow> RunStore \<Rightarrow> Attempt option" where
  "attemptOf h s = (case fmlookup (st_runs s) (fst h) of None \<Rightarrow> None | Some as \<Rightarrow> find (\<lambda>a. at_ID a = snd h) as)"

definition ReadStatus :: "RunIO \<Rightarrow> AttemptHandle \<Rightarrow> RunStore \<Rightarrow> (RunStoreError, DAGRunStatus) result" where
  "ReadStatus io h s = (if \<not> rio_read io then Err ErrStoreIO
     else (case attemptOf h s of
         None \<Rightarrow> Err ErrStoreIO
       | Some a \<Rightarrow> (case at_Lines a of
             None \<Rightarrow> Err ErrStoreIO
           | Some ls \<Rightarrow> (case parseLines ls of None \<Rightarrow> Err ErrCorruptedStatusFile | Some st \<Rightarrow> Ok st))))"

definition IsAborting :: "RunIO \<Rightarrow> AttemptHandle \<Rightarrow> RunStore \<Rightarrow> (RunStoreError, bool) result" where
  "IsAborting io h s = (if \<not> rio_flag io then Err ErrStoreIO
     else Ok (case attemptOf h s of None \<Rightarrow> False | Some a \<Rightarrow> at_CancelRequested a))"

definition Attempt_Abort :: "AttemptHandle \<Rightarrow> RunStore \<Rightarrow> RunStore" where
  "Attempt_Abort h s = (case fmlookup (st_runs s) (fst h) of
       None \<Rightarrow> s
     | Some as \<Rightarrow> s\<lparr>st_runs := fmupd (fst h) (map (\<lambda>a. if at_ID a = snd h then a\<lparr>at_CancelRequested := True\<rparr> else a) as) (st_runs s)\<rparr>)"

definition appendLine :: "DAGRunStatus \<Rightarrow> Attempt \<Rightarrow> Attempt" where
  "appendLine st a = a\<lparr>at_Lines := Some ((case at_Lines a of None \<Rightarrow> [] | Some ls \<Rightarrow> ls) @ [Some st])\<rparr>"

definition Attempt_Write :: "RunIO \<Rightarrow> AttemptHandle \<Rightarrow> DAGRunStatus \<Rightarrow> RunStore \<Rightarrow> (RunStoreError, unit) result \<times> RunStore" where
  "Attempt_Write io h st s = (if \<not> rio_write io then (Err ErrStoreIO, s)
     else (Ok (), s\<lparr>st_runs := fmupd (fst h)
       (map (\<lambda>a. if at_ID a = snd h then appendLine st a else a)
         (case fmlookup (st_runs s) (fst h) of None \<Rightarrow> [] | Some as \<Rightarrow> as)) (st_runs s)\<rparr>))"

text \<open>The compare-and-swap; \<open>mutate\<close> never fails in its callers here.\<close>

definition CompareAndSwapLatestAttemptStatus :: "RunIO \<Rightarrow> DAGRunRef \<Rightarrow> string \<Rightarrow> Status \<Rightarrow> (DAGRunStatus \<Rightarrow> DAGRunStatus) \<Rightarrow> RunStore
    \<Rightarrow> (RunStoreError, DAGRunStatus \<times> bool) result \<times> RunStore" where
  "CompareAndSwapLatestAttemptStatus io dagRun expectedAttemptID expectedStatus mutate s =
     (if dr_ID dagRun = '''' then (Err ErrDAGRunIDEmpty, s)
      else if \<not> rio_lock io then (Err ErrStoreIO, s)
      else (case FindByDAGRunID io dagRun s of
          Inl e \<Rightarrow> (Err e, s)
        | Inr as \<Rightarrow> (case LatestAttempt as of
              Inl e \<Rightarrow> (Err e, s)
            | Inr a \<Rightarrow> (case ReadStatus io (RootRun dagRun, at_ID a) s of
                  Inl e \<Rightarrow> (Err e, s)
                | Inr st \<Rightarrow>
                    if expectedAttemptID \<noteq> '''' \<and> rs_AttemptID st \<noteq> expectedAttemptID then (Ok (st, False), s)
                    else if rs_Status st \<noteq> expectedStatus then (Ok (st, False), s)
                    else if \<not> rio_open io then (Err ErrStoreIO, s)
                    else (case Attempt_Write io (RootRun dagRun, at_ID a) (mutate st) s of
                        (Inl e, s1) \<Rightarrow> (Err e, s1)
                      | (Inr _, s1) \<Rightarrow> (Ok (mutate st, True), s1))))))"

section \<open>The latest status\<close>

text \<open>
  What every reader sees of an attempt: the last line that parses.  Identifiers of the attempts of a run are distinct.
\<close>

definition statusAt :: "AttemptHandle \<Rightarrow> RunStore \<Rightarrow> DAGRunStatus option" where
  "statusAt h s = (case attemptOf h s of None \<Rightarrow> None | Some a \<Rightarrow> (case at_Lines a of None \<Rightarrow> None | Some ls \<Rightarrow> parseLines ls))"

lemma parseLines_append [simp]: "parseLines (ls @ [Some st]) = Some st"
  by (induction ls) simp_all

lemma at_ID_append [simp]: "at_ID (appendLine st a) = at_ID a"
  by (simp add: appendLine_def)

lemma find_map_ID:
  assumes "\<And>a. at_ID (f a) = at_ID a"
  shows "find (\<lambda>a. at_ID a = i) (map f as) = map_option f (find (\<lambda>a. at_ID a = i) as)"
  using assms by (induction as) auto

lemma attemptOf_write:
  assumes "Attempt_Write io h st s = (Ok (), s')"
  shows "attemptOf h' s' = map_option (\<lambda>a. if h' = h then appendLine st a else a) (attemptOf h' s)"
proof -
  let ?f = "\<lambda>a. if at_ID a = snd h then appendLine st a else a"
  let ?as = "case fmlookup (st_runs s) (fst h) of None \<Rightarrow> [] | Some as \<Rightarrow> as"
  have s': "st_runs s' = fmupd (fst h) (map ?f ?as) (st_runs s)"
    using assms by (auto simp: Attempt_Write_def split: if_splits)
  show ?thesis
  proof (cases "fst h' = fst h")
    case True
    have "attemptOf h' s' = map_option ?f (find (\<lambda>a. at_ID a = snd h') ?as)"
      using True find_map_ID[of ?f "snd h'" ?as] by (simp add: attemptOf_def s')
    also have "\<dots> = map_option ?f (attemptOf h' s)"
      using True by (simp add: attemptOf_def split: option.split)
    also have "\<dots> = map_option (\<lambda>a. if h' = h then appendLine st a else a) (attemptOf h' s)"
    proof (cases "attemptOf h' s")
      case (Some a)
      then have "at_ID a = snd h'" by (auto simp: attemptOf_def find_Some_iff split: option.splits)
      then show ?thesis using Some True by (simp add: prod_eq_iff)
    qed simp
    finally show ?thesis .
  next
    case False
    then have "h' \<noteq> h" by auto
    then show ?thesis using False by (simp add: attemptOf_def s' option.map_ident)
  qed
qed

lemma statusAt_write:
  assumes "Attempt_Write io h st s = (Ok (), s')"
  shows "statusAt h' s' = (if h' = h \<and> attemptOf h s \<noteq> None then Some st else statusAt h' s)"
  using attemptOf_write[OF assms, of h']
  by (cases "attemptOf h' s") (auto simp: statusAt_def appendLine_def split: option.split)

lemma ReadStatus_eq: "ReadStatus io h s = Ok st \<longleftrightarrow> rio_read io \<and> statusAt h s = Some st"
  by (auto simp: ReadStatus_def statusAt_def split: option.splits)

lemma statusAt_attempt: "statusAt h s = Some st \<Longrightarrow> attemptOf h s \<noteq> None"
  by (auto simp: statusAt_def split: option.splits)

lemma write_err: "Attempt_Write io h st s = (Err e, s') \<Longrightarrow> s' = s"
  by (simp add: Attempt_Write_def split: if_splits)

text \<open>
  The compare-and-swap either leaves the store as it is or appends the changed status to one attempt, the one whose last
  status had the expected value.
\<close>

lemma cas_cases:
  assumes "CompareAndSwapLatestAttemptStatus io dagRun aid exp mutate s = (r, s')"
  obtains (same) "s' = s" "\<And>st. r \<noteq> Ok (st, True)"
  | (swap) h st where "fst h = RootRun dagRun" "FindAttempt io dagRun s = Ok h" "statusAt h s = Some st" "aid = '''' \<or> rs_AttemptID st = aid"
      "rs_Status st = exp" "Attempt_Write io h (mutate st) s = (Ok (), s')" "r = Ok (mutate st, True)"
proof (cases "r = Inr (fst (projr r), True)")
  case False
  then have "r \<noteq> Ok (st, True)" for st by auto
  moreover have "s' = s"
    using assms False write_err
    by (auto simp: CompareAndSwapLatestAttemptStatus_def split: if_splits sum.splits prod.splits)
  ultimately show ?thesis using same by blast
next
  case True
  then show ?thesis
    using assms swap
    by (auto simp: CompareAndSwapLatestAttemptStatus_def FindAttempt_def ReadStatus_eq split: if_splits sum.splits prod.splits)
qed

section \<open>Which attempt is the latest\<close>

text \<open>Writing a status changes neither the attempts of a run nor which one is the latest.\<close>

definition distinctIDs :: "RunStore \<Rightarrow> bool" where
  "distinctIDs s \<longleftrightarrow> (\<forall>k as. fmlookup (st_runs s) k = Some as \<longrightarrow> distinct (map at_ID as))"

lemma find_map_same: "(\<And>x. x \<in> set xs \<Longrightarrow> P (f x) \<longleftrightarrow> P x) \<Longrightarrow> find P (map f xs) = map_option f (find P xs)"
  by (induction xs) auto

lemma distinct_find: "distinct (map f xs) \<Longrightarrow> x \<in> set xs \<Longrightarrow> find (\<lambda>y. f y = f x) xs = Some x"
  by (induction xs) (auto simp: image_iff)

lemma write_latest:
  assumes "Attempt_Write io h st s = (Ok (), s')" "statusAt h s \<noteq> None" "distinctIDs s"
  shows "distinctIDs s'" "FindAttempt rio ref s' = FindAttempt rio ref s"
proof -
  let ?f = "\<lambda>a. if at_ID a = snd h then appendLine st a else a"
  obtain as a where a: "fmlookup (st_runs s) (fst h) = Some as" "find (\<lambda>a. at_ID a = snd h) as = Some a" "at_Lines a \<noteq> None"
    using assms(2) by (auto simp: statusAt_def attemptOf_def split: option.splits)
  have s': "st_runs s' = fmupd (fst h) (map ?f as) (st_runs s)"
    using assms(1) a(1) by (auto simp: Attempt_Write_def split: if_splits)
  have d: "distinct (map at_ID as)" using assms(3) a(1) unfolding distinctIDs_def by blast
  have ids: "at_ID \<circ> ?f = at_ID" by auto
  show "distinctIDs s'" using assms(3) d by (auto simp: distinctIDs_def s' ids split: if_splits)
  have "(\<not> at_Hidden (?f x) \<and> Attempt_Exists (?f x)) = (\<not> at_Hidden x \<and> Attempt_Exists x)" if "x \<in> set as" for x
  proof (cases "at_ID x = snd h")
    case True
    then have "x = a" using distinct_find[OF d that] a(2) by simp
    then show ?thesis using a(3) True by (simp add: appendLine_def Attempt_Exists_def)
  qed simp
  then have l: "find (\<lambda>a. \<not> at_Hidden a \<and> Attempt_Exists a) (map ?f as) = map_option ?f (find (\<lambda>a. \<not> at_Hidden a \<and> Attempt_Exists a) as)"
    by (rule find_map_same)
  show "FindAttempt rio ref s' = FindAttempt rio ref s"
  proof (cases "RootRun ref = fst h")
    case True
    then show ?thesis using a(1) l
      by (auto simp: FindAttempt_def FindByDAGRunID_def LatestAttempt_def s' split: option.split)
  qed (simp add: FindAttempt_def FindByDAGRunID_def s')
qed

text \<open>The compare-and-swap when nothing fails.\<close>

definition runOk :: "RunIO \<Rightarrow> bool" where
  "runOk io \<longleftrightarrow> rio_lock io \<and> rio_find io \<and> rio_read io \<and> rio_open io \<and> rio_write io"

lemma cas_eval:
  assumes "runOk io" "FindAttempt io ref s = Ok h" "statusAt h s = Some st" "rs_AttemptID st = aid"
  shows "CompareAndSwapLatestAttemptStatus io ref aid e m s =
    (if rs_Status st = e then (Ok (m st, True), snd (Attempt_Write io h (m st) s)) else (Ok (st, False), s))"
proof -
  obtain as a where a: "dr_ID ref \<noteq> ''''" "FindByDAGRunID io ref s = Ok as" "LatestAttempt as = Ok a" "h = (RootRun ref, at_ID a)"
    using assms(2) by (auto simp: FindAttempt_def result_bind_eq_Ok split: if_splits)
  have "ReadStatus io (RootRun ref, at_ID a) s = Ok st" using assms(1,3) a(4) by (simp add: ReadStatus_eq runOk_def)
  then show ?thesis using a assms(1,4) by (simp add: CompareAndSwapLatestAttemptStatus_def runOk_def Attempt_Write_def)
qed

end
