(* ===== verification/Tracking_Stores.thy ===== *)
theory Tracking_Stores
  imports Run_Status
begin

text \<open>
  The stores for leases, for the index of active runs and for the presence of workers (\<open>internal/persis/filedistributed\<close>).  A record is
  a file named by the SHA-256 digest of its key; a directory is a finite map from keys to contents, \<open>None\<close> for a file that
  does not decode.  Listings are sorted by the digests, an argument (\<open>digest\<close>).  The locks of the lease and active-run
  stores make their operations atomic (see the theory of the directory lock).
\<close>

section \<open>Files of records\<close>

type_synonym 'r recordDir = "(string, 'r option) fmap"

record TrackIO =
  tio_lock :: bool
  tio_list :: bool
  tio_read :: bool
  tio_write :: bool
  tio_remove :: bool

datatype TrackError = ErrKeyRequired | ErrTrackLock | ErrTrackList | ErrTrackRead | ErrTrackDecode | ErrTrackWrite | ErrTrackRemove
  | ErrDAGRunLeaseNotFound | ErrActiveRunNotFound

definition readRecord :: "TrackIO \<Rightarrow> TrackError \<Rightarrow> string \<Rightarrow> 'r recordDir \<Rightarrow> (TrackError, 'r) result" where
  "readRecord io notFound key d = (if \<not> tio_read io then Err ErrTrackRead
     else (case fmlookup d key of None \<Rightarrow> Err notFound | Some None \<Rightarrow> Err ErrTrackDecode | Some (Some r) \<Rightarrow> Ok r))"

definition writeRecord :: "TrackIO \<Rightarrow> string \<Rightarrow> 'r \<Rightarrow> 'r recordDir \<Rightarrow> (TrackError, unit) result \<times> 'r recordDir" where
  "writeRecord io key r d = (if tio_write io then (Ok (), fmupd key (Some r) d) else (Err ErrTrackWrite, d))"

definition removeRecord :: "TrackIO \<Rightarrow> string \<Rightarrow> 'r recordDir \<Rightarrow> (TrackError, unit) result \<times> 'r recordDir" where
  "removeRecord io key d = (if key |\<notin>| fmdom d then (Ok (), d)
     else if tio_remove io then (Ok (), fmdrop key d) else (Err ErrTrackRemove, d))"

definition recordFiles :: "(string \<Rightarrow> string) \<Rightarrow> 'r recordDir \<Rightarrow> 'r option list" where
  "recordFiles digest d = map (\<lambda>k. the (fmlookup d k)) (sort_key digest (sorted_list_of_fset (fmdom d)))"

section \<open>Leases\<close>

definition stampLease :: "int \<Rightarrow> DAGRunLease \<Rightarrow> DAGRunLease" where
  "stampLease now lease =
     (let ms = now div 10 ^ 6;
          l1 = (if le_ClaimedAt lease = 0
                then let l = lease\<lparr>le_ClaimedAt := ms\<rparr> in if le_LastHeartbeatAt l = 0 then l\<lparr>le_LastHeartbeatAt := ms\<rparr> else l
                else lease)
      in if le_LastHeartbeatAt l1 = 0 then l1\<lparr>le_LastHeartbeatAt := ms\<rparr> else l1)"

definition Lease_Upsert :: "TrackIO \<Rightarrow> int \<Rightarrow> DAGRunLease \<Rightarrow> DAGRunLease recordDir \<Rightarrow> (TrackError, unit) result \<times> DAGRunLease recordDir" where
  "Lease_Upsert io now lease d =
     (if le_AttemptKey lease = '''' then (Err ErrKeyRequired, d)
      else if \<not> tio_lock io then (Err ErrTrackLock, d)
      else writeRecord io (le_AttemptKey lease) (stampLease now lease) d)"

definition Lease_Get :: "TrackIO \<Rightarrow> string \<Rightarrow> DAGRunLease recordDir \<Rightarrow> (TrackError, DAGRunLease) result" where
  "Lease_Get io attemptKey d = readRecord io ErrDAGRunLeaseNotFound attemptKey d"

definition Lease_Touch :: "TrackIO \<Rightarrow> string \<Rightarrow> int \<Rightarrow> DAGRunLease recordDir \<Rightarrow> (TrackError, unit) result \<times> DAGRunLease recordDir" where
  "Lease_Touch io attemptKey observedAt d =
     (if \<not> tio_lock io then (Err ErrTrackLock, d)
      else (case Lease_Get io attemptKey d of
          Inl e \<Rightarrow> (Err e, d)
        | Inr lease \<Rightarrow> writeRecord io attemptKey (lease\<lparr>le_LastHeartbeatAt := observedAt div 10 ^ 6\<rparr>) d))"

definition Lease_Delete :: "TrackIO \<Rightarrow> string \<Rightarrow> DAGRunLease recordDir \<Rightarrow> (TrackError, unit) result \<times> DAGRunLease recordDir" where
  "Lease_Delete io attemptKey d = (if \<not> tio_lock io then (Err ErrTrackLock, d) else removeRecord io attemptKey d)"

definition Lease_ListAll :: "TrackIO \<Rightarrow> (string \<Rightarrow> string) \<Rightarrow> DAGRunLease recordDir \<Rightarrow> (TrackError, DAGRunLease list) result" where
  "Lease_ListAll io digest d = (if \<not> tio_list io then Err ErrTrackList
     else let fs = recordFiles digest d
          in if fs \<noteq> [] \<and> \<not> tio_read io then Err ErrTrackRead
             else if None \<in> set fs then Err ErrTrackDecode
             else Ok (filter (\<lambda>l. le_AttemptKey l \<noteq> '''') (map the fs)))"

definition Lease_ListByQueue :: "TrackIO \<Rightarrow> (string \<Rightarrow> string) \<Rightarrow> string \<Rightarrow> DAGRunLease recordDir \<Rightarrow> (TrackError, DAGRunLease list) result" where
  "Lease_ListByQueue io digest queueName d =
     result_bind (Lease_ListAll io digest d) (\<lambda>leases. Ok (filter (\<lambda>l. le_QueueName l = queueName) leases))"

section \<open>Active runs\<close>

definition stampActive :: "int \<Rightarrow> ActiveDistributedRun \<Rightarrow> ActiveDistributedRun" where
  "stampActive now r = (if ad_UpdatedAt r = 0 then r\<lparr>ad_UpdatedAt := now div 10 ^ 6\<rparr> else r)"

definition Active_Upsert :: "TrackIO \<Rightarrow> int \<Rightarrow> ActiveDistributedRun \<Rightarrow> ActiveDistributedRun recordDir
    \<Rightarrow> (TrackError, unit) result \<times> ActiveDistributedRun recordDir" where
  "Active_Upsert io now r d =
     (if ad_AttemptKey r = '''' then (Err ErrKeyRequired, d)
      else if \<not> tio_lock io then (Err ErrTrackLock, d)
      else writeRecord io (ad_AttemptKey r) (stampActive now r) d)"

definition Active_Delete :: "TrackIO \<Rightarrow> string \<Rightarrow> ActiveDistributedRun recordDir \<Rightarrow> (TrackError, unit) result \<times> ActiveDistributedRun recordDir" where
  "Active_Delete io attemptKey d = (if attemptKey = '''' then (Ok (), d)
     else if \<not> tio_lock io then (Err ErrTrackLock, d) else removeRecord io attemptKey d)"

definition Active_Get :: "TrackIO \<Rightarrow> string \<Rightarrow> ActiveDistributedRun recordDir \<Rightarrow> (TrackError, ActiveDistributedRun) result" where
  "Active_Get io attemptKey d = readRecord io ErrActiveRunNotFound attemptKey d"

text \<open>Unlike the other listings, this one skips a file that cannot be read or decoded.\<close>

definition Active_ListAll :: "TrackIO \<Rightarrow> (string \<Rightarrow> string) \<Rightarrow> ActiveDistributedRun recordDir \<Rightarrow> (TrackError, ActiveDistributedRun list) result" where
  "Active_ListAll io digest d = (if \<not> tio_list io then Err ErrTrackList
     else if \<not> tio_read io then Ok []
     else Ok (filter (\<lambda>r. ad_AttemptKey r \<noteq> '''') (List.map_filter id (recordFiles digest d))))"

section \<open>Presence of workers\<close>

record WorkerHeartbeatRecord =
  wh_WorkerID :: string
  wh_Labels :: "(string, string) fmap"
  wh_LastHeartbeatAt :: int

definition Heartbeat_Upsert :: "TrackIO \<Rightarrow> int \<Rightarrow> WorkerHeartbeatRecord \<Rightarrow> WorkerHeartbeatRecord recordDir
    \<Rightarrow> (TrackError, unit) result \<times> WorkerHeartbeatRecord recordDir" where
  "Heartbeat_Upsert io now r d =
     (if wh_WorkerID r = '''' then (Err ErrKeyRequired, d)
      else let r1 = (if wh_LastHeartbeatAt r = 0 then r\<lparr>wh_LastHeartbeatAt := now div 10 ^ 6\<rparr> else r)
           in writeRecord io (wh_WorkerID r1) r1 d)"

definition Heartbeat_List :: "TrackIO \<Rightarrow> (string \<Rightarrow> string) \<Rightarrow> WorkerHeartbeatRecord recordDir \<Rightarrow> (TrackError, WorkerHeartbeatRecord list) result" where
  "Heartbeat_List io digest d = (if \<not> tio_list io then Err ErrTrackList
     else let fs = recordFiles digest d
          in if fs \<noteq> [] \<and> \<not> tio_read io then Err ErrTrackRead
             else if None \<in> set fs then Err ErrTrackDecode
             else Ok (filter (\<lambda>r. wh_WorkerID r \<noteq> '''') (map the fs)))"

text \<open>
  The stamp 0 stands for the zero time, which is before every bound.  A record whose file is already gone counts as removed.
\<close>

fun removeStale :: "TrackIO \<Rightarrow> int \<Rightarrow> WorkerHeartbeatRecord list \<Rightarrow> WorkerHeartbeatRecord recordDir
    \<Rightarrow> nat \<times> TrackError option \<times> WorkerHeartbeatRecord recordDir" where
  "removeStale io before [] d = (0, None, d)"
| "removeStale io before (r # rs) d =
     (if wh_LastHeartbeatAt r \<noteq> 0 \<and> wh_LastHeartbeatAt r * 10 ^ 6 > before then removeStale io before rs d
      else (case removeRecord io (wh_WorkerID r) d of
          (Inl e, d1) \<Rightarrow> (0, Some e, d1)
        | (Inr _, d1) \<Rightarrow> (let (n, e, d2) = removeStale io before rs d1 in (Suc n, e, d2))))"

definition Heartbeat_DeleteStale :: "TrackIO \<Rightarrow> (string \<Rightarrow> string) \<Rightarrow> int \<Rightarrow> WorkerHeartbeatRecord recordDir
    \<Rightarrow> nat \<times> TrackError option \<times> WorkerHeartbeatRecord recordDir" where
  "Heartbeat_DeleteStale io digest before d = (case Heartbeat_List io digest d of
     Inl e \<Rightarrow> (0, Some e, d) | Inr rs \<Rightarrow> removeStale io before rs d)"

section \<open>The contract of a record store\<close>

text \<open>
  What the coordinator and the scheduler rely on (the interfaces \<open>DAGRunLeaseStore\<close> and \<open>ActiveDistributedRunStore\<close>): records are written,
  deleted, read and listed by their key, and an operation that reports an error changes nothing.
\<close>

locale record_store =
  fixes upsert :: "TrackIO \<Rightarrow> int \<Rightarrow> 'r \<Rightarrow> 'r recordDir \<Rightarrow> (TrackError, unit) result \<times> 'r recordDir"
    and delete :: "TrackIO \<Rightarrow> string \<Rightarrow> 'r recordDir \<Rightarrow> (TrackError, unit) result \<times> 'r recordDir"
    and listing :: "TrackIO \<Rightarrow> (string \<Rightarrow> string) \<Rightarrow> 'r recordDir \<Rightarrow> (TrackError, 'r list) result"
    and keyOf :: "'r \<Rightarrow> string"
    and stamped :: "int \<Rightarrow> 'r \<Rightarrow> 'r"
  assumes upsert_ok: "upsert io now r d = (Ok (), d') \<Longrightarrow> keyOf r \<noteq> '''' \<and> d' = fmupd (keyOf r) (Some (stamped now r)) d"
    and upsert_err: "upsert io now r d = (Err e, d') \<Longrightarrow> d' = d"
    and delete_ok: "delete io k d = (Ok (), d') \<Longrightarrow> k \<noteq> '''' \<Longrightarrow> d' = fmdrop k d"
    and delete_err: "delete io k d = (Err e, d') \<Longrightarrow> d' = d"
    and delete_nokey: "delete io '''' d = (Ok (), d') \<Longrightarrow> fmlookup d '''' = None \<Longrightarrow> d' = d"
    and keyOf_stamped: "keyOf (stamped now r) = keyOf r"
    and listing_ok: "listing io digest d = Ok rs \<Longrightarrow> tio_read io \<Longrightarrow>
      rs = filter (\<lambda>r. keyOf r \<noteq> '''') (List.map_filter id (recordFiles digest d))"
begin

definition proper :: "'r recordDir \<Rightarrow> bool" where
  "proper d \<longleftrightarrow> (\<forall>k r. fmlookup d k = Some (Some r) \<longrightarrow> keyOf r = k) \<and> fmlookup d '''' = None"

lemma upsert_cases:
  obtains "snd (upsert io now r d) = d" | "keyOf r \<noteq> ''''" "snd (upsert io now r d) = fmupd (keyOf r) (Some (stamped now r)) d"
proof (cases "fst (upsert io now r d)")
  case (Inl e)
  then have "upsert io now r d = (Err e, snd (upsert io now r d))" by (metis prod.collapse)
  then show ?thesis using upsert_err that(1) by blast
next
  case (Inr u)
  then have "upsert io now r d = (Ok (), snd (upsert io now r d))" by (metis prod.collapse old.unit.exhaust)
  then show ?thesis using upsert_ok that(2) by blast
qed

lemma delete_cases:
  assumes "fmlookup d '''' = None"
  obtains "snd (delete io k d) = d" | "snd (delete io k d) = fmdrop k d"
proof (cases "fst (delete io k d)")
  case (Inl e)
  then have "delete io k d = (Err e, snd (delete io k d))" by (metis prod.collapse)
  then show ?thesis using delete_err that(1) by blast
next
  case (Inr u)
  then have "delete io k d = (Ok (), snd (delete io k d))" by (metis prod.collapse old.unit.exhaust)
  then show ?thesis using delete_ok delete_nokey assms that by blast
qed

lemma proper_upsert:
  assumes "proper d"
  shows "proper (snd (upsert io now r d))"
proof (rule upsert_cases[of io now r d])
  assume "keyOf r \<noteq> ''''" "snd (upsert io now r d) = fmupd (keyOf r) (Some (stamped now r)) d"
  then show ?thesis using assms by (auto simp: proper_def keyOf_stamped split: if_splits)
qed (use assms in simp)

lemma proper_delete:
  assumes "proper d"
  shows "proper (snd (delete io k d))"
proof (rule delete_cases[of d io k])
  assume "snd (delete io k d) = fmdrop k d"
  then show ?thesis using assms by (auto simp: proper_def)
qed (use assms in \<open>simp_all add: proper_def\<close>)

lemma listing_mem:
  assumes "listing io digest d = Ok rs" "tio_read io"
  shows "r \<in> set rs \<longleftrightarrow> keyOf r \<noteq> '''' \<and> Some r \<in> set (recordFiles digest d)"
  unfolding listing_ok[OF assms] by (force simp: List.map_filter_def)

lemma recordFiles_mem: "f \<in> set (recordFiles digest d) \<longleftrightarrow> (\<exists>k. fmlookup d k = Some f)"
proof -
  have "set (recordFiles digest d) = (\<lambda>k. the (fmlookup d k)) ` fset (fmdom d)"
    by (simp add: recordFiles_def sorted_list_of_fset.rep_eq)
  then show ?thesis by (auto simp: fmlookup_dom_iff intro!: image_eqI)
qed

text \<open>A listing of a proper directory has each record once, and exactly those that are read by their key.\<close>

lemma listing_exact:
  assumes "proper d" "listing io digest d = Ok rs" "tio_read io"
  shows "r \<in> set rs \<longleftrightarrow> fmlookup d (keyOf r) = Some (Some r)"
proof -
  have "keyOf r \<noteq> '''' \<and> (\<exists>k. fmlookup d k = Some (Some r)) \<longleftrightarrow> fmlookup d (keyOf r) = Some (Some r)"
    using assms(1) unfolding proper_def by (metis option.distinct(1))
  then show ?thesis by (simp add: listing_mem[OF assms(2,3)] recordFiles_mem)
qed

lemma listing_distinct_keys:
  assumes "proper d" "listing io digest d = Ok rs" "tio_read io"
  shows "distinct (map keyOf rs)"
proof -
  let ?ks = "sort_key digest (sorted_list_of_fset (fmdom d))"
  let ?fs = "filter (\<lambda>k. the (fmlookup d k) \<noteq> None \<and> keyOf (the (the (fmlookup d k))) \<noteq> '''') ?ks"
  have ks: "distinct ?ks" "set ?ks = fset (fmdom d)" by (simp_all add: sorted_list_of_fset.rep_eq)
  have "rs = map (\<lambda>k. the (the (fmlookup d k))) ?fs"
    unfolding listing_ok[OF assms(2,3)] by (simp add: recordFiles_def List.map_filter_def filter_map comp_def conj_commute)
  then have "map keyOf rs = map (\<lambda>k. keyOf (the (the (fmlookup d k)))) ?fs" by simp
  also have "\<dots> = map id ?fs"
  proof (rule map_cong)
    fix k
    assume "k \<in> set ?fs"
    then have "k \<in> fset (fmdom d)" "the (fmlookup d k) \<noteq> None" using ks(2) by auto
    then obtain x where "fmlookup d k = Some (Some x)" by (auto simp: fmlookup_dom_iff)
    then show "keyOf (the (the (fmlookup d k))) = id k" using assms(1) by (simp add: proper_def)
  qed simp
  finally show ?thesis using ks(1) by simp
qed

end

section \<open>The stores keep the contract\<close>

lemma map_filter_the: "None \<notin> set fs \<Longrightarrow> List.map_filter id fs = map the fs"
proof (induction fs)
  case (Cons a fs)
  then show ?case by (cases a) (simp_all add: List.map_filter_simps)
qed simp

lemma stampLease_key [simp]: "le_AttemptKey (stampLease now l) = le_AttemptKey l"
  by (simp add: stampLease_def Let_def)

lemma stampActive_key [simp]: "ad_AttemptKey (stampActive now r) = ad_AttemptKey r"
  by (simp add: stampActive_def)

lemma removeRecord_ok: "removeRecord io k d = (Ok (), d') \<Longrightarrow> d' = fmdrop k d"
  by (auto simp: removeRecord_def split: if_splits intro!: fmap_ext dest: fmdom_notD)

lemma removeRecord_err: "removeRecord io k d = (Err e, d') \<Longrightarrow> d' = d"
  by (simp add: removeRecord_def split: if_splits)

lemma fmdrop_missing: "fmlookup d k = None \<Longrightarrow> fmdrop k d = d"
  by (intro fmap_ext) auto

interpretation leases: record_store Lease_Upsert Lease_Delete Lease_ListAll le_AttemptKey stampLease
proof unfold_locales
  fix io :: TrackIO and now :: int and r e and d d' :: "DAGRunLease recordDir" and k digest rs
  show "le_AttemptKey r \<noteq> '''' \<and> d' = fmupd (le_AttemptKey r) (Some (stampLease now r)) d" if "Lease_Upsert io now r d = (Ok (), d')"
    using that by (simp add: Lease_Upsert_def writeRecord_def split: if_splits)
  show "d' = d" if "Lease_Upsert io now r d = (Err e, d')"
    using that by (simp add: Lease_Upsert_def writeRecord_def split: if_splits)
  show "d' = fmdrop k d" if "Lease_Delete io k d = (Ok (), d')" "k \<noteq> ''''"
    using that removeRecord_ok by (simp add: Lease_Delete_def split: if_splits)
  show "d' = d" if "Lease_Delete io k d = (Err e, d')"
    using that removeRecord_err by (auto simp: Lease_Delete_def split: if_splits)
  show "d' = d" if "Lease_Delete io '''' d = (Ok (), d')" "fmlookup d '''' = None"
    using that removeRecord_ok[of io "''''" d d'] fmdrop_missing by (simp add: Lease_Delete_def split: if_splits)
  show "le_AttemptKey (stampLease now r) = le_AttemptKey r" by simp
  show "rs = filter (\<lambda>r. le_AttemptKey r \<noteq> '''') (List.map_filter id (recordFiles digest d))"
    if "Lease_ListAll io digest d = Ok rs" "tio_read io"
    using that by (simp add: Lease_ListAll_def Let_def map_filter_the split: if_splits)
qed

interpretation active: record_store Active_Upsert Active_Delete Active_ListAll ad_AttemptKey stampActive
proof unfold_locales
  fix io :: TrackIO and now :: int and r e and d d' :: "ActiveDistributedRun recordDir" and k digest rs
  show "ad_AttemptKey r \<noteq> '''' \<and> d' = fmupd (ad_AttemptKey r) (Some (stampActive now r)) d" if "Active_Upsert io now r d = (Ok (), d')"
    using that by (simp add: Active_Upsert_def writeRecord_def split: if_splits)
  show "d' = d" if "Active_Upsert io now r d = (Err e, d')"
    using that by (simp add: Active_Upsert_def writeRecord_def split: if_splits)
  show "d' = fmdrop k d" if "Active_Delete io k d = (Ok (), d')" "k \<noteq> ''''"
    using that removeRecord_ok by (simp add: Active_Delete_def split: if_splits)
  show "d' = d" if "Active_Delete io k d = (Err e, d')"
    using that removeRecord_err by (auto simp: Active_Delete_def split: if_splits)
  show "d' = d" if "Active_Delete io '''' d = (Ok (), d')" "fmlookup d '''' = None"
    using that by (simp add: Active_Delete_def)
  show "ad_AttemptKey (stampActive now r) = ad_AttemptKey r" by simp
  show "rs = filter (\<lambda>r. ad_AttemptKey r \<noteq> '''') (List.map_filter id (recordFiles digest d))"
    if "Active_ListAll io digest d = Ok rs" "tio_read io"
    using that by (simp add: Active_ListAll_def split: if_splits)
qed

text \<open>The states of the lease store under any operations of any processes, with any failures.\<close>

inductive leaseReach :: "DAGRunLease recordDir \<Rightarrow> bool" where
  lease_start: "leaseReach fmempty"
| lease_upsert: "leaseReach d \<Longrightarrow> leaseReach (snd (Lease_Upsert io now l d))"
| lease_touch: "leaseReach d \<Longrightarrow> leaseReach (snd (Lease_Touch io k now d))"
| lease_delete: "leaseReach d \<Longrightarrow> leaseReach (snd (Lease_Delete io k d))"

lemma proper_touch:
  assumes "leases.proper d"
  shows "leases.proper (snd (Lease_Touch io k now d))"
proof -
  have *: "leases.proper (fmupd k (Some (l\<lparr>le_LastHeartbeatAt := m\<rparr>)) d)" if "fmlookup d k = Some (Some l)" for l m
    using that assms unfolding leases.proper_def by (auto split: if_splits)
  show ?thesis
    using assms * by (auto simp: Lease_Touch_def Lease_Get_def readRecord_def writeRecord_def split: sum.split option.splits if_splits)
qed

lemma leaseReach_proper: "leaseReach d \<Longrightarrow> leases.proper d"
proof (induction rule: leaseReach.induct)
  case lease_start
  show ?case by (simp add: leases.proper_def)
qed (simp_all add: leases.proper_upsert leases.proper_delete proper_touch)

lemma leaseReach_key: "leaseReach d \<Longrightarrow> fmlookup d k = Some (Some l) \<Longrightarrow> le_AttemptKey l = k \<and> k \<noteq> ''''"
  using leaseReach_proper unfolding leases.proper_def by fastforce

lemma Lease_Get_iff: "Lease_Get io k d = Ok l \<longleftrightarrow> tio_read io \<and> fmlookup d k = Some (Some l)"
  by (auto simp: Lease_Get_def readRecord_def split: option.splits)


definition exTrack :: TrackIO where
  "exTrack = \<lparr>tio_lock = True, tio_list = True, tio_read = True, tio_write = True, tio_remove = True\<rparr>"

definition exLeaseOf :: "string \<Rightarrow> string \<Rightarrow> DAGRunLease" where
  "exLeaseOf k q = \<lparr>le_AttemptKey = k, le_DAGRun = NewDAGRunRef ''dag'' ''r'', le_Root = zeroRef, le_AttemptID = ''a'', le_QueueName = q,
     le_WorkerID = ''w'', le_Owner = noEndpoint, le_ClaimedAt = 1, le_LastHeartbeatAt = 1\<rparr>"

definition twoLeases :: "DAGRunLease recordDir" where
  "twoLeases = snd (Lease_Upsert exTrack 0 (exLeaseOf ''k2'' ''p'') (snd (Lease_Upsert exTrack 0 (exLeaseOf ''k1'' ''q'') fmempty)))"

lemma twoLeases_eq: "twoLeases = fmupd ''k2'' (Some (exLeaseOf ''k2'' ''p'')) (fmupd ''k1'' (Some (exLeaseOf ''k1'' ''q'')) fmempty)"
  by (simp add: twoLeases_def Lease_Upsert_def stampLease_def writeRecord_def exTrack_def exLeaseOf_def)

lemma exLeaseOf_fields: "le_AttemptKey (exLeaseOf k q) = k" "le_QueueName (exLeaseOf k q) = q"
  by (simp_all add: exLeaseOf_def)


end
