(* ===== verification/Dispatch_Store.thy ===== *)
theory Dispatch_Store
  imports Run_Status
begin

text \<open>
  The shared queue of tasks for distributed workers (\<open>internal/persis/filedistributed/dispatch_task_store.go\<close>).
  A task file is in the directory of pending tasks or in the one of claims; claiming renames it.  The directories are
  finite maps from file names to contents and times of the last change.  Failures of the file system are inputs
  (\<open>DispatchIO\<close>), as are the clock and the fresh identifiers.  Times are nanoseconds, stamps in the files milliseconds.
\<close>

section \<open>Tasks\<close>

text \<open>The fields of a task that the store and the coordinator read or write; \<open>tk_Payload\<close> stands for all the others.\<close>

record Task =
  tk_Payload :: string
  tk_RootDagRunName :: string
  tk_RootDagRunId :: string
  tk_DagRunId :: string
  tk_Target :: string
  tk_AttemptId :: string
  tk_AttemptKey :: string
  tk_QueueName :: string
  tk_WorkerSelector :: "(string, string) fmap"
  tk_OwnerCoordinatorId :: string
  tk_OwnerCoordinatorHost :: string
  tk_OwnerCoordinatorPort :: int
  tk_ClaimToken :: string
  tk_WorkerId :: string

record dispatchTaskFile =
  df_Task :: "Task option"
  df_TaskFileName :: string
  df_EnqueuedAt :: int
  df_ClaimToken :: string
  df_ClaimedAt :: int
  df_WorkerID :: string
  df_PollerID :: string
  df_Owner :: CoordinatorEndpoint

record DispatchTaskClaim =
  dc_WorkerID :: string
  dc_PollerID :: string
  dc_Labels :: "(string, string) fmap"
  dc_Owner :: CoordinatorEndpoint
  dc_ClaimTimeout :: int

record ClaimedDispatchTask =
  ct_Task :: Task
  ct_ClaimToken :: string
  ct_ClaimedAt :: int
  ct_WorkerID :: string
  ct_PollerID :: string
  ct_Owner :: CoordinatorEndpoint

record DispatchTaskStore =
  ds_pending :: "(string, dispatchTaskFile \<times> int) fmap"
  ds_claims :: "(string, dispatchTaskFile \<times> int) fmap"

datatype DispatchError = ErrTaskRequired | ErrListDir | ErrReadTask | ErrStatClaim | ErrWriteTask | ErrMkdir | ErrRename
  | ErrChtimes | ErrPortRange | ErrDispatchTaskNotFound | ErrRemoveClaim

text \<open>
  Whether an operation on the file of a name succeeds; \<open>dio_list\<close> lists the claims, \<open>dio_listPending\<close> the pending tasks
  and \<open>dio_back\<close> is the renaming that undoes a claim.  The clock is read once per operation.
\<close>

record DispatchIO =
  dio_list :: bool
  dio_listPending :: bool
  dio_read :: "string \<Rightarrow> bool"
  dio_stat :: "string \<Rightarrow> bool"
  dio_write :: "string \<Rightarrow> bool"
  dio_mkdir :: bool
  dio_rename :: "string \<Rightarrow> bool"
  dio_chtimes :: "string \<Rightarrow> bool"
  dio_back :: bool
  dio_remove :: bool

definition applyTaskClaim :: "Task \<Rightarrow> CoordinatorEndpoint \<Rightarrow> string \<Rightarrow> (DispatchError, Task) result" where
  "applyTaskClaim task owner claimToken =
     (if ce_Port owner < 0 \<or> ce_Port owner > 2 ^ 31 - 1 then Err ErrPortRange
      else Ok (task\<lparr>tk_OwnerCoordinatorId := ce_ID owner, tk_OwnerCoordinatorHost := ce_Host owner,
                   tk_OwnerCoordinatorPort := ce_Port owner, tk_ClaimToken := claimToken\<rparr>))"

definition clearTaskClaim :: "Task option \<Rightarrow> Task option" where
  "clearTaskClaim = map_option (\<lambda>task. task\<lparr>tk_OwnerCoordinatorId := '''', tk_OwnerCoordinatorHost := '''',
     tk_OwnerCoordinatorPort := 0, tk_ClaimToken := '''', tk_WorkerId := ''''\<rparr>)"

definition matchesSelector :: "(string, string) fmap \<Rightarrow> (string, string) fmap \<Rightarrow> bool" where
  "matchesSelector workerLabels selector \<longleftrightarrow>
     fBall (fmdom selector) (\<lambda>k. goget '''' workerLabels k = the (fmlookup selector k))"

section \<open>The directories\<close>

definition sortedFiles :: "(string, 'a) fmap \<Rightarrow> string list" where
  "sortedFiles d = sorted_list_of_fset (fmdom d)"

text \<open>\<open>key\<close> is \<open>encodeKey\<close>, the hexadecimal digest of a string.\<close>

definition claimPath :: "(string \<Rightarrow> string) \<Rightarrow> string \<Rightarrow> string" where
  "claimPath key claimToken = ''claim_'' @ key claimToken @ ''.json''"

definition taskFileName :: "int \<Rightarrow> string \<Rightarrow> string" where
  "taskFileName now uuid = ''task_'' @ padNat 20 (nat (now div 10 ^ 6)) @ ''_'' @ uuid @ ''.json''"

definition DispatchEnqueue :: "DispatchIO \<Rightarrow> int \<Rightarrow> string \<Rightarrow> Task option \<Rightarrow> DispatchTaskStore
    \<Rightarrow> (DispatchError, unit) result \<times> DispatchTaskStore" where
  "DispatchEnqueue io now uuid task s = (case task of
       None \<Rightarrow> (Err ErrTaskRequired, s)
     | Some t \<Rightarrow>
         (let f = taskFileName now uuid;
              r = \<lparr>df_Task = Some t, df_TaskFileName = f, df_EnqueuedAt = now div 10 ^ 6, df_ClaimToken = '''', df_ClaimedAt = 0,
                   df_WorkerID = '''', df_PollerID = '''', df_Owner = noEndpoint\<rparr>
          in if dio_write io f then (Ok (), s\<lparr>ds_pending := fmupd f (r, now) (ds_pending s)\<rparr>) else (Err ErrWriteTask, s)))"

section \<open>Recycling expired claims\<close>

definition orDefaultTimeout :: "int \<Rightarrow> int" where
  "orDefaultTimeout claimTimeout = (if claimTimeout \<le> 0 then 30 * second else claimTimeout)"

definition clearedFile :: "dispatchTaskFile \<Rightarrow> dispatchTaskFile" where
  "clearedFile r = r\<lparr>df_ClaimToken := '''', df_ClaimedAt := 0, df_WorkerID := '''', df_PollerID := '''', df_Owner := noEndpoint,
     df_Task := clearTaskClaim (df_Task r)\<rparr>"

text \<open>
  The body of the loop in three parts, between which another process may act: reading a claim and deciding whether it
  has expired (\<open>None\<close>: go on with the next file), writing the cleared file, and renaming it.
\<close>

definition recycleRead :: "DispatchIO \<Rightarrow> int \<Rightarrow> int \<Rightarrow> string \<Rightarrow> DispatchTaskStore \<Rightarrow> (DispatchError, dispatchTaskFile option) result" where
  "recycleRead io timeout now f s = (case fmlookup (ds_claims s) f of
       None \<Rightarrow> Ok None
     | Some (r, modTime) \<Rightarrow>
         if \<not> dio_read io f then Err ErrReadTask
         else if \<not> df_ClaimedAt r > 0 \<and> \<not> dio_stat io f then Err ErrStatClaim
         else (let claimedAt = (if df_ClaimedAt r > 0 then df_ClaimedAt r * 10 ^ 6 else modTime)
               in if now - claimedAt < timeout then Ok None else Ok (Some (clearedFile r))))"

definition recycleWrite :: "DispatchIO \<Rightarrow> int \<Rightarrow> string \<Rightarrow> dispatchTaskFile \<Rightarrow> DispatchTaskStore \<Rightarrow> (DispatchError, unit) result \<times> DispatchTaskStore" where
  "recycleWrite io now f r s =
     (if dio_write io f then (Ok (), s\<lparr>ds_claims := fmupd f (r, now) (ds_claims s)\<rparr>) else (Err ErrWriteTask, s))"

definition recycleRename :: "DispatchIO \<Rightarrow> string \<Rightarrow> DispatchTaskStore \<Rightarrow> (DispatchError, unit) result \<times> DispatchTaskStore" where
  "recycleRename io f s =
     (if \<not> dio_mkdir io then (Err ErrMkdir, s)
      else (case fmlookup (ds_claims s) f of
          None \<Rightarrow> (Ok (), s)
        | Some (r, m) \<Rightarrow> if \<not> dio_rename io f then (Err ErrRename, s)
            else (Ok (), s\<lparr>ds_claims := fmdrop f (ds_claims s), ds_pending := fmupd (df_TaskFileName r) (r, m) (ds_pending s)\<rparr>)))"

definition recycleOne :: "DispatchIO \<Rightarrow> int \<Rightarrow> int \<Rightarrow> string \<Rightarrow> DispatchTaskStore \<Rightarrow> (DispatchError, unit) result \<times> DispatchTaskStore" where
  "recycleOne io timeout now f s = (case recycleRead io timeout now f s of
       Inl e \<Rightarrow> (Err e, s)
     | Inr None \<Rightarrow> (Ok (), s)
     | Inr (Some r) \<Rightarrow> (case recycleWrite io now f r s of
           (Inl e, s1) \<Rightarrow> (Err e, s1)
         | (Inr _, s1) \<Rightarrow> recycleRename io f s1))"

fun recycleLoop :: "DispatchIO \<Rightarrow> int \<Rightarrow> int \<Rightarrow> string list \<Rightarrow> DispatchTaskStore \<Rightarrow> (DispatchError, unit) result \<times> DispatchTaskStore" where
  "recycleLoop io timeout now [] s = (Ok (), s)"
| "recycleLoop io timeout now (f # fs) s = (case recycleOne io timeout now f s of
     (Inl e, s1) \<Rightarrow> (Err e, s1) | (Inr _, s1) \<Rightarrow> recycleLoop io timeout now fs s1)"

definition recycleExpiredClaims :: "DispatchIO \<Rightarrow> int \<Rightarrow> int \<Rightarrow> DispatchTaskStore \<Rightarrow> (DispatchError, unit) result \<times> DispatchTaskStore" where
  "recycleExpiredClaims io claimTimeout now s =
     (if \<not> dio_list io then (Err ErrListDir, s)
      else recycleLoop io (orDefaultTimeout claimTimeout) now (sortedFiles (ds_claims s)) s)"

section \<open>Claiming\<close>

text \<open>Undoing a claim: the renaming may fail without notice.\<close>

definition unclaim :: "DispatchIO \<Rightarrow> string \<Rightarrow> string \<Rightarrow> DispatchTaskStore \<Rightarrow> DispatchTaskStore" where
  "unclaim io c f s = (case fmlookup (ds_claims s) c of
       None \<Rightarrow> s
     | Some x \<Rightarrow> if dio_back io then s\<lparr>ds_claims := fmdrop c (ds_claims s), ds_pending := fmupd f x (ds_pending s)\<rparr> else s)"

definition claimedFile :: "DispatchTaskClaim \<Rightarrow> string \<Rightarrow> int \<Rightarrow> Task \<Rightarrow> dispatchTaskFile \<Rightarrow> dispatchTaskFile" where
  "claimedFile claim token now t r = r\<lparr>df_ClaimToken := token, df_ClaimedAt := now div 10 ^ 6, df_WorkerID := dc_WorkerID claim,
     df_PollerID := dc_PollerID claim, df_Owner := dc_Owner claim, df_Task := Some t\<rparr>"

text \<open>Claiming one pending file that matches.\<close>

definition claimFile :: "DispatchIO \<Rightarrow> (string \<Rightarrow> string) \<Rightarrow> DispatchTaskClaim \<Rightarrow> int \<Rightarrow> string \<Rightarrow> string \<Rightarrow> dispatchTaskFile \<times> int \<Rightarrow> Task
    \<Rightarrow> DispatchTaskStore \<Rightarrow> (DispatchError, ClaimedDispatchTask option) result \<times> DispatchTaskStore" where
  "claimFile io key claim now token f x t s =
     (let c = claimPath key token;
          s1 = s\<lparr>ds_pending := fmdrop f (ds_pending s), ds_claims := fmupd c x (ds_claims s)\<rparr>;
          s2 = s1\<lparr>ds_claims := fmupd c (fst x, now) (ds_claims s1)\<rparr>
      in if \<not> dio_mkdir io then (Err ErrMkdir, s)
         else if \<not> dio_rename io f then (Err ErrRename, s)
         else if \<not> dio_chtimes io c then (Err ErrChtimes, unclaim io c f s1)
         else (case applyTaskClaim t (dc_Owner claim) token of
             Inl e \<Rightarrow> (Err e, unclaim io c f s2)
           | Inr t' \<Rightarrow>
               if \<not> dio_write io c then (Err ErrWriteTask, unclaim io c f s2)
               else (Ok (Some \<lparr>ct_Task = t', ct_ClaimToken = token, ct_ClaimedAt = now, ct_WorkerID = dc_WorkerID claim,
                               ct_PollerID = dc_PollerID claim, ct_Owner = dc_Owner claim\<rparr>),
                     s2\<lparr>ds_claims := fmupd c (claimedFile claim token now t' (fst x), now) (ds_claims s2)\<rparr>)))"

fun claimLoop :: "DispatchIO \<Rightarrow> (string \<Rightarrow> string) \<Rightarrow> DispatchTaskClaim \<Rightarrow> int \<Rightarrow> string \<Rightarrow> string list
    \<Rightarrow> DispatchTaskStore \<Rightarrow> (DispatchError, ClaimedDispatchTask option) result \<times> DispatchTaskStore" where
  "claimLoop io key claim now token [] s = (Ok None, s)"
| "claimLoop io key claim now token (f # fs) s = (case fmlookup (ds_pending s) f of
     None \<Rightarrow> claimLoop io key claim now token fs s
   | Some x \<Rightarrow>
       if \<not> dio_read io f then (Err ErrReadTask, s)
       else (case df_Task (fst x) of
           None \<Rightarrow> claimLoop io key claim now token fs s
         | Some t \<Rightarrow> if \<not> matchesSelector (dc_Labels claim) (tk_WorkerSelector t) then claimLoop io key claim now token fs s
                     else claimFile io key claim now token f x t s))"

definition ClaimNext :: "DispatchIO \<Rightarrow> (string \<Rightarrow> string) \<Rightarrow> int \<Rightarrow> string \<Rightarrow> DispatchTaskClaim \<Rightarrow> DispatchTaskStore
    \<Rightarrow> (DispatchError, ClaimedDispatchTask option) result \<times> DispatchTaskStore" where
  "ClaimNext io key now token claim s = (case recycleExpiredClaims io (dc_ClaimTimeout claim) now s of
       (Inl e, s1) \<Rightarrow> (Err e, s1)
     | (Inr _, s1) \<Rightarrow> if \<not> dio_listPending io then (Err ErrListDir, s1)
         else claimLoop io key claim now token (sortedFiles (ds_pending s1)) s1)"

definition GetClaim :: "DispatchIO \<Rightarrow> (string \<Rightarrow> string) \<Rightarrow> string \<Rightarrow> DispatchTaskStore \<Rightarrow> (DispatchError, ClaimedDispatchTask) result" where
  "GetClaim io key token s = (case fmlookup (ds_claims s) (claimPath key token) of
       None \<Rightarrow> Err ErrDispatchTaskNotFound
     | Some (r, _) \<Rightarrow> if \<not> dio_read io (claimPath key token) then Err ErrReadTask
         else (case df_Task r of
             None \<Rightarrow> Err ErrDispatchTaskNotFound
           | Some t \<Rightarrow> if df_ClaimToken r = '''' \<or> df_ClaimToken r \<noteq> token \<or> df_ClaimedAt r = 0 then Err ErrDispatchTaskNotFound
               else Ok \<lparr>ct_Task = t, ct_ClaimToken = df_ClaimToken r, ct_ClaimedAt = df_ClaimedAt r * 10 ^ 6,
                        ct_WorkerID = df_WorkerID r, ct_PollerID = df_PollerID r, ct_Owner = df_Owner r\<rparr>))"

definition DeleteClaim :: "DispatchIO \<Rightarrow> (string \<Rightarrow> string) \<Rightarrow> string \<Rightarrow> DispatchTaskStore \<Rightarrow> (DispatchError, unit) result \<times> DispatchTaskStore" where
  "DeleteClaim io key token s =
     (if claimPath key token |\<notin>| fmdom (ds_claims s) then (Ok (), s)
      else if dio_remove io then (Ok (), s\<lparr>ds_claims := fmdrop (claimPath key token) (ds_claims s)\<rparr>)
      else (Err ErrRemoveClaim, s))"

section \<open>Counting\<close>

definition outstandingFiles :: "DispatchTaskStore \<Rightarrow> (string \<times> dispatchTaskFile) list" where
  "outstandingFiles s = map (\<lambda>f. (f, fst (the (fmlookup (ds_pending s) f)))) (sortedFiles (ds_pending s))
     @ map (\<lambda>f. (f, fst (the (fmlookup (ds_claims s) f)))) (sortedFiles (ds_claims s))"

text \<open>\<open>snapshotOutstandingPaths\<close> and the reading of the files.\<close>

definition snapshotOutstanding :: "DispatchIO \<Rightarrow> int \<Rightarrow> int \<Rightarrow> DispatchTaskStore
    \<Rightarrow> (DispatchError, (string \<times> dispatchTaskFile) list) result \<times> DispatchTaskStore" where
  "snapshotOutstanding io claimTimeout now s = (case recycleExpiredClaims io claimTimeout now s of
       (Inl e, s1) \<Rightarrow> (Err e, s1)
     | (Inr _, s1) \<Rightarrow> (if dio_listPending io \<and> dio_list io then Ok (outstandingFiles s1) else Err ErrListDir, s1))"

definition CountOutstandingByQueue :: "DispatchIO \<Rightarrow> string \<Rightarrow> int \<Rightarrow> int \<Rightarrow> DispatchTaskStore
    \<Rightarrow> (DispatchError, nat) result \<times> DispatchTaskStore" where
  "CountOutstandingByQueue io queueName claimTimeout now s = (case snapshotOutstanding io claimTimeout now s of
       (Inl e, s1) \<Rightarrow> (Err e, s1)
     | (Inr fs, s1) \<Rightarrow>
         (if list_ex (\<lambda>(f, r). \<not> dio_read io f) fs then Err ErrReadTask
          else Ok (length (filter (\<lambda>(f, r). case df_Task r of
                 None \<Rightarrow> False | Some t \<Rightarrow> queueName = '''' \<or> tk_QueueName t = queueName) fs)), s1))"

text \<open>The search stops at the first match, so a file that cannot be read matters only before it.\<close>

fun findAttemptFile :: "DispatchIO \<Rightarrow> string \<Rightarrow> (string \<times> dispatchTaskFile) list \<Rightarrow> (DispatchError, bool) result" where
  "findAttemptFile io attemptKey [] = Ok False"
| "findAttemptFile io attemptKey ((f, r) # fs) =
     (if \<not> dio_read io f then Err ErrReadTask
      else if map_option tk_AttemptKey (df_Task r) = Some attemptKey then Ok True
      else findAttemptFile io attemptKey fs)"

definition HasOutstandingAttempt :: "DispatchIO \<Rightarrow> string \<Rightarrow> int \<Rightarrow> int \<Rightarrow> DispatchTaskStore
    \<Rightarrow> (DispatchError, bool) result \<times> DispatchTaskStore" where
  "HasOutstandingAttempt io attemptKey claimTimeout now s =
     (if attemptKey = '''' then (Ok False, s)
      else (case snapshotOutstanding io claimTimeout now s of
          (Inl e, s1) \<Rightarrow> (Err e, s1)
        | (Inr fs, s1) \<Rightarrow> (findAttemptFile io attemptKey fs, s1)))"

end
