(* ===== verification/Coordinator.thy ===== *)
theory Coordinator
  imports Run_Store Tracking_Stores Dispatch_Store
begin

text \<open>
  The coordinator for distributed runs (\<open>internal/service/coordinator/handler.go\<close>), configured with all its stores as
  \<open>internal/cmd/coord.go\<close> does: handing out and acknowledging tasks, heartbeats, status reports of workers, and
  the detection of runs whose worker is gone.  A request and a pass of the detector are one step each; the
  reports of one run are serialized by a mutex, but the detector does not take it, and where that matters \<open>reportWrite\<close> is the
  second half of a report.  Failures of the stores and the clock are inputs.  Log paths, chat messages and log lines are not modelled.
\<close>

section \<open>State\<close>

record Coordinator =
  co_runs :: RunStore
  co_leases :: "DAGRunLease recordDir"
  co_active :: "ActiveDistributedRun recordDir"
  co_dispatch :: DispatchTaskStore
  co_workers :: "WorkerHeartbeatRecord recordDir"
  co_open :: "(string, AttemptHandle) fmap"

record HandlerConfig =
  hc_Owner :: CoordinatorEndpoint
  hc_StaleHeartbeatThreshold :: int
  hc_StaleLeaseThreshold :: int

definition applyDefaults :: "HandlerConfig \<Rightarrow> HandlerConfig" where
  "applyDefaults c =
     (let c1 = (if hc_StaleHeartbeatThreshold c = 0 then c\<lparr>hc_StaleHeartbeatThreshold := 30 * second\<rparr> else c)
      in if hc_StaleLeaseThreshold c1 = 0 then c1\<lparr>hc_StaleLeaseThreshold := DefaultStaleLeaseThreshold\<rparr> else c1)"

text \<open>
  \<open>ci_statuses\<close> is \<open>ListStatuses\<close> for the statuses running and not started, \<open>None\<close> when it fails; \<open>ci_finished\<close> the
  formatted time of finishing.
\<close>

record CoordIO =
  ci_run :: "DAGRunRef \<Rightarrow> RunIO"
  ci_lease :: "string \<Rightarrow> TrackIO"
  ci_active :: "string \<Rightarrow> TrackIO"
  ci_listing :: TrackIO
  ci_dispatch :: DispatchIO
  ci_digest :: "string \<Rightarrow> string"
  ci_statuses :: "RunStore \<Rightarrow> DAGRunStatus option list option"
  ci_finished :: string

datatype RpcError = FailedPrecondition | InvalidArgument | Internal

section \<open>Tasks\<close>

definition buildLeaseFromTask :: "Task \<Rightarrow> string \<Rightarrow> CoordinatorEndpoint \<Rightarrow> int \<Rightarrow> DAGRunLease" where
  "buildLeaseFromTask task workerID owner now =
     (let root = NewDAGRunRef (tk_RootDagRunName task) (tk_RootDagRunId task);
          root' = (if DAGRunRef_Zero root then NewDAGRunRef (tk_Target task) (tk_DagRunId task) else root)
      in \<lparr>le_AttemptKey = tk_AttemptKey task, le_DAGRun = NewDAGRunRef (tk_Target task) (tk_DagRunId task), le_Root = root',
          le_AttemptID = tk_AttemptId task, le_QueueName = nonEmptyOr (tk_QueueName task) (tk_Target task), le_WorkerID = workerID,
          le_Owner = owner, le_ClaimedAt = now div 10 ^ 6, le_LastHeartbeatAt = now div 10 ^ 6\<rparr>)"

text \<open>One pass of the polling loop; \<open>None\<close>: nothing to do yet.\<close>

definition pollOnce :: "CoordIO \<Rightarrow> (string \<Rightarrow> string) \<Rightarrow> HandlerConfig \<Rightarrow> int \<Rightarrow> string \<Rightarrow> string \<Rightarrow> string \<Rightarrow> (string, string) fmap \<Rightarrow> Coordinator
    \<Rightarrow> (RpcError, Task option) result \<times> Coordinator" where
  "pollOnce io key cfg now token workerID pollerID labels co =
     (if pollerID = '''' then (Err InvalidArgument, co)
      else (case ClaimNext (ci_dispatch io) key now token
               \<lparr>dc_WorkerID = workerID, dc_PollerID = pollerID, dc_Labels = labels, dc_Owner = hc_Owner cfg,
                dc_ClaimTimeout = hc_StaleLeaseThreshold cfg\<rparr> (co_dispatch co) of
          (Inl e, d) \<Rightarrow> (Err Internal, co\<lparr>co_dispatch := d\<rparr>)
        | (Inr None, d) \<Rightarrow> (Ok None, co\<lparr>co_dispatch := d\<rparr>)
        | (Inr (Some ct), d) \<Rightarrow> (Ok (Some ((ct_Task ct)\<lparr>tk_WorkerId := workerID\<rparr>)), co\<lparr>co_dispatch := d\<rparr>)))"

datatype AckResponse = AckAccepted | AckNotFound | AckOtherWorker

text \<open>
  The acknowledgement in three steps, between which other processes may act: reading the claim, writing the lease, and
  deleting the claim.
\<close>

definition ackRead :: "CoordIO \<Rightarrow> (string \<Rightarrow> string) \<Rightarrow> string \<Rightarrow> string \<Rightarrow> Coordinator \<Rightarrow> (RpcError, AckResponse + Task) result" where
  "ackRead io key token workerID co =
     (if token = '''' then Err InvalidArgument
      else (case GetClaim (ci_dispatch io) key token (co_dispatch co) of
          Inl e \<Rightarrow> if e = ErrDispatchTaskNotFound then Ok (Inl AckNotFound) else Err Internal
        | Inr claimed \<Rightarrow>
            if ct_WorkerID claimed \<noteq> '''' \<and> workerID \<noteq> '''' \<and> ct_WorkerID claimed \<noteq> workerID then Ok (Inl AckOtherWorker)
            else Ok (Inr (ct_Task claimed))))"

definition ackLease :: "CoordIO \<Rightarrow> HandlerConfig \<Rightarrow> int \<Rightarrow> string \<Rightarrow> Task \<Rightarrow> Coordinator \<Rightarrow> (RpcError, unit) result \<times> Coordinator" where
  "ackLease io cfg now workerID task co =
     (case Lease_Upsert (ci_lease io (tk_AttemptKey task)) now (buildLeaseFromTask task workerID (hc_Owner cfg) now) (co_leases co) of
        (Inl e, l) \<Rightarrow> (Err Internal, co\<lparr>co_leases := l\<rparr>)
      | (Inr _, l) \<Rightarrow> (Ok (), co\<lparr>co_leases := l\<rparr>))"

definition ackDelete :: "CoordIO \<Rightarrow> (string \<Rightarrow> string) \<Rightarrow> string \<Rightarrow> Coordinator \<Rightarrow> (RpcError, AckResponse) result \<times> Coordinator" where
  "ackDelete io key token co = (case DeleteClaim (ci_dispatch io) key token (co_dispatch co) of
     (Inl e, d) \<Rightarrow> (Err Internal, co\<lparr>co_dispatch := d\<rparr>) | (Inr _, d) \<Rightarrow> (Ok AckAccepted, co\<lparr>co_dispatch := d\<rparr>))"

definition AckTaskClaim :: "CoordIO \<Rightarrow> (string \<Rightarrow> string) \<Rightarrow> HandlerConfig \<Rightarrow> int \<Rightarrow> string \<Rightarrow> string \<Rightarrow> Coordinator
    \<Rightarrow> (RpcError, AckResponse) result \<times> Coordinator" where
  "AckTaskClaim io key cfg now token workerID co = (case ackRead io key token workerID co of
       Inl e \<Rightarrow> (Err e, co)
     | Inr (Inl resp) \<Rightarrow> (Ok resp, co)
     | Inr (Inr task) \<Rightarrow> (case ackLease io cfg now workerID task co of
           (Inl e, c1) \<Rightarrow> (Err e, c1)
         | (Inr _, c1) \<Rightarrow> ackDelete io key token c1))"

section \<open>Statuses that workers report\<close>

definition isTerminalRunStatus :: "Status \<Rightarrow> bool" where
  "isTerminalRunStatus s \<longleftrightarrow> s \<noteq> NotStarted \<and> \<not> Status_IsActive s"

definition sameAttemptStatus :: "DAGRunStatus \<Rightarrow> DAGRunStatus \<Rightarrow> bool" where
  "sameAttemptStatus current incoming =
     (if rs_AttemptID current = '''' \<and> rs_AttemptKey current = '''' then True
      else if rs_AttemptID current \<noteq> '''' \<and> rs_AttemptID incoming \<noteq> '''' \<and> rs_AttemptID current \<noteq> rs_AttemptID incoming then False
      else if rs_AttemptKey current \<noteq> '''' \<and> rs_AttemptKey incoming \<noteq> '''' \<and> rs_AttemptKey current \<noteq> rs_AttemptKey incoming then False
      else if rs_AttemptID current \<noteq> '''' \<and> rs_AttemptID incoming \<noteq> '''' then True
      else rs_AttemptKey current \<noteq> '''' \<and> rs_AttemptKey current = rs_AttemptKey incoming)"

definition isLeaseInactive :: "CoordIO \<Rightarrow> HandlerConfig \<Rightarrow> int \<Rightarrow> string \<Rightarrow> Coordinator \<Rightarrow> bool" where
  "isLeaseInactive io cfg now attemptKey co =
     (if attemptKey = '''' then False
      else (case Lease_Get (ci_lease io attemptKey) attemptKey (co_leases co) of
          Inr lease \<Rightarrow> \<not> IsFresh lease now (hc_StaleLeaseThreshold cfg)
        | Inl e \<Rightarrow> e = ErrDAGRunLeaseNotFound))"

datatype Rejection = RejectedLeaseInactive | RejectedSuperseded | RejectedTerminal

text \<open>\<open>None\<close>: accepted.\<close>

definition remoteStatusDecision :: "CoordIO \<Rightarrow> HandlerConfig \<Rightarrow> int \<Rightarrow> DAGRunStatus \<Rightarrow> DAGRunStatus \<Rightarrow> Coordinator \<Rightarrow> Rejection option" where
  "remoteStatusDecision io cfg now latest incoming co =
     (if \<not> sameAttemptStatus latest incoming then Some RejectedSuperseded
      else if \<not> isTerminalRunStatus (rs_Status latest) then None
      else if isLeaseInactive io cfg now (rs_AttemptKey latest) co \<and> (Status_IsActive (rs_Status incoming) \<or> rs_Status incoming = NotStarted)
        then Some RejectedLeaseInactive
      else if rs_Status latest = rs_Status incoming then None
      else Some RejectedTerminal)"

definition resolveLatestAttempt :: "CoordIO \<Rightarrow> string \<Rightarrow> string \<Rightarrow> DAGRunRef \<Rightarrow> RunStore
    \<Rightarrow> (RunStoreError, AttemptHandle \<times> DAGRunStatus) result" where
  "resolveLatestAttempt io dagName dagRunID rootRef s =
     (let rio = ci_run io (NewDAGRunRef dagName dagRunID)
      in result_bind
        (if dr_ID rootRef \<noteq> '''' \<and> dr_ID rootRef \<noteq> dagRunID
         then (if dr_Name rootRef = '''' then Err ErrMissingRootName else FindSubAttempt rio rootRef dagRunID s)
         else FindAttempt rio (NewDAGRunRef dagName dagRunID) s)
        (\<lambda>h. result_bind (ReadStatus rio h s) (\<lambda>st. Ok (h, st))))"

text \<open>A cached attempt is used when it is the expected one; otherwise it is closed and the latest one opened.\<close>

definition replaceOpenAttempt :: "RunIO \<Rightarrow> string \<Rightarrow> AttemptHandle \<Rightarrow> string \<Rightarrow> (string, AttemptHandle) fmap
    \<Rightarrow> (RunStoreError, AttemptHandle) result \<times> (string, AttemptHandle) fmap" where
  "replaceOpenAttempt rio cacheKey latestAttempt expectedAttemptID cache =
     (case fmlookup cache cacheKey of
        Some h \<Rightarrow>
          if snd h = expectedAttemptID then (Ok h, cache)
          else if rio_open rio then (Ok latestAttempt, fmupd cacheKey latestAttempt (fmdrop cacheKey cache))
          else (Err ErrStoreIO, fmdrop cacheKey cache)
      | None \<Rightarrow> if rio_open rio then (Ok latestAttempt, fmupd cacheKey latestAttempt cache) else (Err ErrStoreIO, cache))"

definition queueNameForStatus :: "DAGRunStatus \<Rightarrow> string" where
  "queueNameForStatus status = (if rs_ProcGroup status = '''' then rs_Name status else rs_ProcGroup status)"

definition syncLeaseFromStatus :: "CoordIO \<Rightarrow> HandlerConfig \<Rightarrow> int \<Rightarrow> string \<Rightarrow> DAGRunStatus \<Rightarrow> string \<Rightarrow> Coordinator \<Rightarrow> Coordinator" where
  "syncLeaseFromStatus io cfg now workerID status fallbackAttemptID co =
     (let attemptKey = AttemptKeyForStatus status fallbackAttemptID;
          attemptID = nonEmptyOr (rs_AttemptID status) fallbackAttemptID;
          tio = ci_lease io attemptKey
      in if attemptKey = '''' then co
         else if rs_Status status = Running \<or> rs_Status status = NotStarted
         then let lease = \<lparr>le_AttemptKey = attemptKey, le_DAGRun = NewDAGRunRef (rs_Name status) (rs_DAGRunID status), le_Root = rs_Root status,
                           le_AttemptID = attemptID, le_QueueName = queueNameForStatus status, le_WorkerID = workerID,
                           le_Owner = hc_Owner cfg, le_ClaimedAt = now div 10 ^ 6, le_LastHeartbeatAt = now div 10 ^ 6\<rparr>;
                  lease' = (case Lease_Get tio attemptKey (co_leases co) of
                      Inl _ \<Rightarrow> lease
                    | Inr existing \<Rightarrow>
                        let l = lease\<lparr>le_ClaimedAt := le_ClaimedAt existing\<rparr>
                        in if rs_ProcGroup status = '''' \<and> le_QueueName existing \<noteq> '''' then l\<lparr>le_QueueName := le_QueueName existing\<rparr> else l)
              in co\<lparr>co_leases := snd (Lease_Upsert tio now lease' (co_leases co))\<rparr>
         else co\<lparr>co_leases := snd (Lease_Delete tio attemptKey (co_leases co))\<rparr>)"

definition upsertActiveDistributedRun :: "CoordIO \<Rightarrow> int \<Rightarrow> DAGRunStatus \<Rightarrow> string \<Rightarrow> string \<Rightarrow> Coordinator \<Rightarrow> Coordinator" where
  "upsertActiveDistributedRun io now status workerID fallbackAttemptID co =
     (let attemptKey = AttemptKeyForStatus status fallbackAttemptID;
          worker = nonEmptyOr workerID (rs_WorkerID status)
      in if attemptKey = '''' \<or> \<not> IsRemoteWorkerID worker then co
         else co\<lparr>co_active := snd (Active_Upsert (ci_active io attemptKey) now
                \<lparr>ad_AttemptKey = attemptKey, ad_DAGRun = DAGRunStatus_DAGRun status, ad_Root = rs_Root status,
                 ad_AttemptID = nonEmptyOr (rs_AttemptID status) fallbackAttemptID, ad_WorkerID = worker, ad_Status = rs_Status status,
                 ad_UpdatedAt = now div 10 ^ 6\<rparr> (co_active co))\<rparr>)"

definition syncActiveDistributedRunFromStatus :: "CoordIO \<Rightarrow> int \<Rightarrow> string \<Rightarrow> DAGRunStatus \<Rightarrow> string \<Rightarrow> Coordinator \<Rightarrow> Coordinator" where
  "syncActiveDistributedRunFromStatus io now workerID status fallbackAttemptID co =
     (let attemptKey = AttemptKeyForStatus status fallbackAttemptID
      in if attemptKey = '''' then co
         else if rs_Status status = Running \<or> rs_Status status = NotStarted
         then upsertActiveDistributedRun io now status workerID fallbackAttemptID co
         else co\<lparr>co_active := snd (Active_Delete (ci_active io attemptKey) attemptKey (co_active co))\<rparr>)"

definition syncDistributedRunTrackingFromStatus :: "CoordIO \<Rightarrow> HandlerConfig \<Rightarrow> int \<Rightarrow> string \<Rightarrow> DAGRunStatus \<Rightarrow> string \<Rightarrow> Coordinator \<Rightarrow> Coordinator" where
  "syncDistributedRunTrackingFromStatus io cfg now workerID status fallbackAttemptID co =
     syncActiveDistributedRunFromStatus io now workerID status fallbackAttemptID
       (syncLeaseFromStatus io cfg now workerID status fallbackAttemptID co)"

datatype ReportResponse = ReportAccepted | ReportRejected Rejection

text \<open>What a request does once it is accepted; the run is looked up and the decision made before.\<close>

definition reportWrite :: "CoordIO \<Rightarrow> HandlerConfig \<Rightarrow> int \<Rightarrow> string \<Rightarrow> DAGRunStatus \<Rightarrow> AttemptHandle \<Rightarrow> DAGRunStatus \<Rightarrow> Coordinator
    \<Rightarrow> (RpcError, ReportResponse) result \<times> Coordinator" where
  "reportWrite io cfg now workerID incoming latestAttempt latestStatus co =
     (let rio = ci_run io (NewDAGRunRef (rs_Name incoming) (rs_DAGRunID incoming))
      in case replaceOpenAttempt rio (rs_DAGRunID incoming) latestAttempt (rs_AttemptID latestStatus) (co_open co) of
           (Inl e, cache) \<Rightarrow> (Err Internal, co\<lparr>co_open := cache\<rparr>)
         | (Inr attempt, cache) \<Rightarrow> (case Attempt_Write rio attempt incoming (co_runs co) of
               (Inl e, rs) \<Rightarrow> (Err Internal, co\<lparr>co_open := cache, co_runs := rs\<rparr>)
             | (Inr _, rs) \<Rightarrow> (Ok ReportAccepted,
                 syncDistributedRunTrackingFromStatus io cfg now workerID incoming (snd attempt)
                   (co\<lparr>co_open := cache, co_runs := rs\<rparr>))))"

text \<open>The status of a request is nil, does not convert, or is a status.\<close>

definition ReportStatus :: "CoordIO \<Rightarrow> HandlerConfig \<Rightarrow> int \<Rightarrow> string \<Rightarrow> string \<Rightarrow> (unit, DAGRunStatus) result option \<Rightarrow> Coordinator
    \<Rightarrow> (RpcError, ReportResponse) result \<times> Coordinator" where
  "ReportStatus io cfg now workerID ownerID req co =
     (if ce_ID (hc_Owner cfg) \<noteq> '''' \<and> ownerID \<noteq> ce_ID (hc_Owner cfg) then (Err FailedPrecondition, co)
      else (case req of
          None \<Rightarrow> (Err InvalidArgument, co)
        | Some (Inl _) \<Rightarrow> (Err InvalidArgument, co)
        | Some (Inr incoming) \<Rightarrow>
            (case resolveLatestAttempt io (rs_Name incoming) (rs_DAGRunID incoming) (rs_Root incoming) (co_runs co) of
                Inl e \<Rightarrow> if e = ErrDAGRunIDNotFound \<or> e = ErrNoStatusData then (Ok (ReportRejected RejectedLeaseInactive), co)
                         else (Err Internal, co)
              | Inr (latestAttempt, latestStatus) \<Rightarrow> (case remoteStatusDecision io cfg now latestStatus incoming co of
                    Some reason \<Rightarrow> (Ok (ReportRejected reason), co)
                  | None \<Rightarrow> reportWrite io cfg now workerID incoming latestAttempt latestStatus co))))"

section \<open>Runs whose worker is gone\<close>

definition failNode :: "string \<Rightarrow> string \<Rightarrow> RunNode \<Rightarrow> RunNode" where
  "failNode finishedAt reason node =
     (if rn_Status node \<in> {NodeRunning, NodeNotStarted, NodeRetrying, NodeWaiting}
      then node\<lparr>rn_Status := NodeFailed, rn_FinishedAt := finishedAt, rn_Error := reason\<rparr> else node)"

definition failStatus :: "string \<Rightarrow> string \<Rightarrow> DAGRunStatus \<Rightarrow> DAGRunStatus" where
  "failStatus finishedAt reason status = status\<lparr>rs_Status := Failed, rs_FinishedAt := finishedAt, rs_Error := reason,
     rs_Nodes := map (map_option (failNode finishedAt reason)) (rs_Nodes status)\<rparr>"

definition DistributedLeaseExpiredReason :: "string \<Rightarrow> string" where
  "DistributedLeaseExpiredReason workerID = ''distributed run lease expired: worker '' @ workerID
     @ '' accepted the task claim but stopped reporting to the owner coordinator''"

definition deleteDistributedLease :: "CoordIO \<Rightarrow> string \<Rightarrow> Coordinator \<Rightarrow> Coordinator" where
  "deleteDistributedLease io attemptKey co = (if attemptKey = '''' then co
     else co\<lparr>co_leases := snd (Lease_Delete (ci_lease io attemptKey) attemptKey (co_leases co))\<rparr>)"

definition deleteActiveDistributedRun :: "CoordIO \<Rightarrow> string \<Rightarrow> Coordinator \<Rightarrow> Coordinator" where
  "deleteActiveDistributedRun io attemptKey co = (if attemptKey = '''' then co
     else co\<lparr>co_active := snd (Active_Delete (ci_active io attemptKey) attemptKey (co_active co))\<rparr>)"

definition deleteDistributedTracking :: "CoordIO \<Rightarrow> string \<Rightarrow> Coordinator \<Rightarrow> Coordinator" where
  "deleteDistributedTracking io attemptKey co = deleteActiveDistributedRun io attemptKey (deleteDistributedLease io attemptKey co)"

text \<open>The loop over the expected statuses; the accumulator is the last answer of the store.\<close>

fun casLoop :: "RunIO \<Rightarrow> DAGRunRef \<Rightarrow> string \<Rightarrow> (DAGRunStatus \<Rightarrow> DAGRunStatus) \<Rightarrow> Status list \<Rightarrow> (DAGRunStatus \<times> bool) option \<Rightarrow> RunStore
    \<Rightarrow> (RunStoreError, (DAGRunStatus \<times> bool) option) result \<times> RunStore" where
  "casLoop rio dagRun attemptID mutate [] answer s = (Ok answer, s)"
| "casLoop rio dagRun attemptID mutate (expectedStatus # exps) answer s =
     (case CompareAndSwapLatestAttemptStatus rio dagRun attemptID expectedStatus mutate s of
        (Inl e, s1) \<Rightarrow> (Err e, s1)
      | (Inr (status, swapped), s1) \<Rightarrow>
          if swapped \<or> rs_AttemptID status \<noteq> attemptID \<or> rs_Status status = expectedStatus then (Ok (Some (status, swapped)), s1)
          else casLoop rio dagRun attemptID mutate exps (Some (status, swapped)) s1)"

definition failDistributedAttemptIfCurrent :: "CoordIO \<Rightarrow> DAGRunRef \<Rightarrow> string \<Rightarrow> string \<Rightarrow> string \<Rightarrow> Status list \<Rightarrow> Coordinator \<Rightarrow> Coordinator" where
  "failDistributedAttemptIfCurrent io dagRun attemptID attemptKey reason expectedStatuses co =
     (if attemptID = '''' then co
      else (case casLoop (ci_run io dagRun) dagRun attemptID (failStatus (ci_finished io) reason) expectedStatuses None (co_runs co) of
          (Inl e, rs) \<Rightarrow> co\<lparr>co_runs := rs\<rparr>
        | (Inr None, rs) \<Rightarrow> deleteDistributedTracking io attemptKey (co\<lparr>co_runs := rs\<rparr>)
        | (Inr (Some (status, swapped)), rs) \<Rightarrow>
            if rs_AttemptID status \<noteq> attemptID \<or> \<not> Status_IsActive (rs_Status status) \<and> rs_Status status \<noteq> NotStarted
            then deleteDistributedTracking io attemptKey (co\<lparr>co_runs := rs\<rparr>)
            else if \<not> swapped then co\<lparr>co_runs := rs\<rparr>
            else deleteDistributedTracking io attemptKey (co\<lparr>co_runs := rs\<rparr>)))"

definition markLeaseRunFailed :: "CoordIO \<Rightarrow> DAGRunLease \<Rightarrow> string \<Rightarrow> Coordinator \<Rightarrow> Coordinator" where
  "markLeaseRunFailed io lease reason co = failDistributedAttemptIfCurrent io (le_DAGRun lease) (le_AttemptID lease) (le_AttemptKey lease)
     reason [Running, NotStarted, Queued] co"

definition markStatusLeaseRunFailed :: "CoordIO \<Rightarrow> DAGRunStatus \<Rightarrow> string \<Rightarrow> string \<Rightarrow> string \<Rightarrow> Coordinator \<Rightarrow> Coordinator" where
  "markStatusLeaseRunFailed io status attemptID attemptKey reason co =
     failDistributedAttemptIfCurrent io (DAGRunStatus_DAGRun status) attemptID attemptKey reason [rs_Status status] co"

definition resolveAttemptIDForStatus :: "CoordIO \<Rightarrow> DAGRunStatus \<Rightarrow> Coordinator \<Rightarrow> (RunStoreError, string) result" where
  "resolveAttemptIDForStatus io status co =
     (let rio = ci_run io (DAGRunStatus_DAGRun status)
      in if rs_AttemptID status \<noteq> '''' then Ok (rs_AttemptID status)
         else if \<not> DAGRunRef_Zero (rs_Root status)
         then result_bind (FindSubAttempt rio (rs_Root status) (rs_DAGRunID status) (co_runs co)) (\<lambda>h. Ok (snd h))
         else result_bind (FindAttempt rio (DAGRunStatus_DAGRun status) (co_runs co)) (\<lambda>h. Ok (snd h)))"

text \<open>The lease of a key for a check: \<open>None\<close> when it cannot be read.\<close>

definition leaseOrNil :: "CoordIO \<Rightarrow> string \<Rightarrow> Coordinator \<Rightarrow> DAGRunLease option option" where
  "leaseOrNil io attemptKey co = (case Lease_Get (ci_lease io attemptKey) attemptKey (co_leases co) of
     Inr l \<Rightarrow> Some (Some l) | Inl e \<Rightarrow> if e = ErrDAGRunLeaseNotFound then Some None else None)"

definition loadDistributedLeaseForStatus :: "CoordIO \<Rightarrow> DAGRunStatus \<Rightarrow> Coordinator \<Rightarrow> (string \<times> string \<times> DAGRunLease option) option" where
  "loadDistributedLeaseForStatus io status co = (case resolveAttemptIDForStatus io status co of
       Inl e \<Rightarrow> None
     | Inr attemptID \<Rightarrow>
         (let attemptKey = AttemptKeyForStatus status attemptID
          in if attemptKey = '''' then None
             else map_option (\<lambda>l. (attemptID, attemptKey, l)) (leaseOrNil io attemptKey co)))"

definition checkStatusLease :: "CoordIO \<Rightarrow> HandlerConfig \<Rightarrow> int \<Rightarrow> bool \<Rightarrow> DAGRunStatus option \<Rightarrow> Coordinator \<Rightarrow> Coordinator" where
  "checkStatusLease io cfg now backfill st co = (case st of
       None \<Rightarrow> co
     | Some status \<Rightarrow>
         if \<not> IsRemoteWorkerID (rs_WorkerID status) then co
         else (case loadDistributedLeaseForStatus io status co of
             None \<Rightarrow> co
           | Some (attemptID, attemptKey, lease) \<Rightarrow>
               if LeaseMatchesStatus lease status attemptID now (hc_StaleLeaseThreshold cfg)
               then (if backfill then upsertActiveDistributedRun io now status (rs_WorkerID status) attemptID co else co)
               else markStatusLeaseRunFailed io status attemptID attemptKey (DistributedLeaseExpiredReason (rs_WorkerID status)) co))"

definition detectOrphanedDistributedStatuses :: "CoordIO \<Rightarrow> HandlerConfig \<Rightarrow> int \<Rightarrow> Coordinator \<Rightarrow> Coordinator" where
  "detectOrphanedDistributedStatuses io cfg now co = (case ci_statuses io (co_runs co) of
     None \<Rightarrow> co | Some statuses \<Rightarrow> fold (checkStatusLease io cfg now False) statuses co)"

definition backfillActiveDistributedRuns :: "CoordIO \<Rightarrow> HandlerConfig \<Rightarrow> int \<Rightarrow> Coordinator \<Rightarrow> Coordinator" where
  "backfillActiveDistributedRuns io cfg now co = (case ci_statuses io (co_runs co) of
     None \<Rightarrow> co | Some statuses \<Rightarrow> fold (checkStatusLease io cfg now True) statuses co)"

definition indexedDistributedRunMatchesStatus :: "ActiveDistributedRun \<Rightarrow> DAGRunStatus \<Rightarrow> bool" where
  "indexedDistributedRunMatchesStatus r status =
     (if \<not> IsRemoteWorkerID (rs_WorkerID status) then False
      else if rs_Status status \<noteq> Running \<and> rs_Status status \<noteq> NotStarted then False
      else let attemptKey = AttemptKeyForStatus status (ad_AttemptID r)
           in if attemptKey = '''' \<or> attemptKey \<noteq> ad_AttemptKey r then False
              else if ad_AttemptID r \<noteq> '''' \<and> nonEmptyOr (rs_AttemptID status) (ad_AttemptID r) \<noteq> ad_AttemptID r then False
              else True)"

definition checkIndexedRun :: "CoordIO \<Rightarrow> HandlerConfig \<Rightarrow> int \<Rightarrow> ActiveDistributedRun \<Rightarrow> Coordinator \<Rightarrow> Coordinator" where
  "checkIndexedRun io cfg now r co =
     (if ad_AttemptKey r = '''' then co
      else (case resolveLatestAttempt io (dr_Name (ad_DAGRun r)) (dr_ID (ad_DAGRun r)) (ad_Root r) (co_runs co) of
          Inl e \<Rightarrow> if e = ErrDAGRunIDNotFound \<or> e = ErrNoStatusData then deleteDistributedTracking io (ad_AttemptKey r) co else co
        | Inr (_, status) \<Rightarrow>
            if \<not> indexedDistributedRunMatchesStatus r status then deleteDistributedTracking io (ad_AttemptKey r) co
            else (case leaseOrNil io (ad_AttemptKey r) co of
                None \<Rightarrow> co
              | Some lease \<Rightarrow>
                  if LeaseMatchesStatus lease status (ad_AttemptID r) now (hc_StaleLeaseThreshold cfg)
                  then upsertActiveDistributedRun io now status (rs_WorkerID status) (ad_AttemptID r) co
                  else markStatusLeaseRunFailed io status (ad_AttemptID r) (ad_AttemptKey r)
                         (DistributedLeaseExpiredReason (rs_WorkerID status)) co)))"

definition detectIndexedDistributedStatuses :: "CoordIO \<Rightarrow> HandlerConfig \<Rightarrow> int \<Rightarrow> Coordinator \<Rightarrow> Coordinator" where
  "detectIndexedDistributedStatuses io cfg now co = (case Active_ListAll (ci_listing io) (ci_digest io) (co_active co) of
     Inl e \<Rightarrow> co | Inr records \<Rightarrow> fold (checkIndexedRun io cfg now) records co)"

definition checkLease :: "CoordIO \<Rightarrow> HandlerConfig \<Rightarrow> int \<Rightarrow> DAGRunLease \<Rightarrow> Coordinator \<Rightarrow> Coordinator" where
  "checkLease io cfg now lease co = (if IsFresh lease now (hc_StaleLeaseThreshold cfg) then co
     else markLeaseRunFailed io lease (DistributedLeaseExpiredReason (le_WorkerID lease)) co)"

definition detectStaleLeases :: "CoordIO \<Rightarrow> HandlerConfig \<Rightarrow> int \<Rightarrow> Coordinator \<Rightarrow> Coordinator" where
  "detectStaleLeases io cfg now co = (case Lease_ListAll (ci_listing io) (ci_digest io) (co_leases co) of
       Inl e \<Rightarrow> co
     | Inr leases \<Rightarrow> detectOrphanedDistributedStatuses io cfg now
         (detectIndexedDistributedStatuses io cfg now (fold (checkLease io cfg now) leases co)))"

definition detectAndCleanupZombies :: "CoordIO \<Rightarrow> HandlerConfig \<Rightarrow> int \<Rightarrow> Coordinator \<Rightarrow> Coordinator" where
  "detectAndCleanupZombies io cfg now co =
     (let (n, e, w) = Heartbeat_DeleteStale (ci_listing io) (ci_digest io) (now - hc_StaleHeartbeatThreshold cfg) (co_workers co)
      in detectStaleLeases io cfg now (co\<lparr>co_workers := w\<rparr>))"

section \<open>Heartbeats\<close>

record RunningTask =
  rt_DagRunId :: string
  rt_DagName :: string
  rt_RootDagRunName :: string
  rt_RootDagRunId :: string
  rt_AttemptKey :: string

definition isTaskCancelled :: "CoordIO \<Rightarrow> RunningTask option \<Rightarrow> Coordinator \<Rightarrow> bool" where
  "isTaskCancelled io t co = (case t of
       None \<Rightarrow> False
     | Some task \<Rightarrow> (case resolveLatestAttempt io (rt_DagName task) (rt_DagRunId task)
             (NewDAGRunRef (rt_RootDagRunName task) (rt_RootDagRunId task)) (co_runs co) of
           Inl e \<Rightarrow> e = ErrDAGRunIDNotFound \<or> e = ErrNoStatusData
         | Inr (attempt, status) \<Rightarrow>
             if rt_AttemptKey task \<noteq> '''' \<and> rs_AttemptKey status \<noteq> '''' \<and> rs_AttemptKey status \<noteq> rt_AttemptKey task then True
             else if isTerminalRunStatus (rs_Status status) then True
             else (case IsAborting (ci_run io (NewDAGRunRef (rt_DagName task) (rt_DagRunId task))) attempt (co_runs co) of
                 Inl e \<Rightarrow> False | Inr aborting \<Rightarrow> aborting)))"

definition appendCancelledRunIfMissing :: "string list \<Rightarrow> string \<Rightarrow> string list" where
  "appendCancelledRunIfMissing cancelledRuns attemptKey =
     (if attemptKey = '''' \<or> attemptKey \<in> set cancelledRuns then cancelledRuns else cancelledRuns @ [attemptKey])"

definition appendCancelledRuns :: "string list \<Rightarrow> string list \<Rightarrow> string list" where
  "appendCancelledRuns dst src = foldl (\<lambda>d k. if k = '''' then d else appendCancelledRunIfMissing d k) dst src"

definition getCancelledRunsForWorker :: "CoordIO \<Rightarrow> RunningTask option list \<Rightarrow> Coordinator \<Rightarrow> string list" where
  "getCancelledRunsForWorker io tasks co = foldl (\<lambda>ks t. case t of
       None \<Rightarrow> ks
     | Some task \<Rightarrow> if isTaskCancelled io t co then appendCancelledRunIfMissing ks (rt_AttemptKey task) else ks) [] tasks"

fun touchTasks :: "CoordIO \<Rightarrow> int \<Rightarrow> RunningTask option list \<Rightarrow> string list \<Rightarrow> Coordinator \<Rightarrow> (RpcError, string list) result \<times> Coordinator" where
  "touchTasks io now [] cancelled co = (Ok cancelled, co)"
| "touchTasks io now (None # ts) cancelled co = touchTasks io now ts cancelled co"
| "touchTasks io now (Some task # ts) cancelled co =
     (if rt_AttemptKey task = '''' then touchTasks io now ts cancelled co
      else (case Lease_Touch (ci_lease io (rt_AttemptKey task)) (rt_AttemptKey task) now (co_leases co) of
          (Inr _, l) \<Rightarrow> touchTasks io now ts cancelled (co\<lparr>co_leases := l\<rparr>)
        | (Inl e, l) \<Rightarrow> if e = ErrDAGRunLeaseNotFound
            then touchTasks io now ts (appendCancelledRunIfMissing cancelled (rt_AttemptKey task)) (co\<lparr>co_leases := l\<rparr>)
            else (Err Internal, co\<lparr>co_leases := l\<rparr>)))"

definition RunHeartbeat :: "CoordIO \<Rightarrow> HandlerConfig \<Rightarrow> int \<Rightarrow> string \<Rightarrow> string \<Rightarrow> RunningTask option list \<Rightarrow> Coordinator
    \<Rightarrow> (RpcError, string list) result \<times> Coordinator" where
  "RunHeartbeat io cfg now workerID ownerID tasks co =
     (if workerID = '''' then (Err InvalidArgument, co)
      else if ce_ID (hc_Owner cfg) \<noteq> '''' \<and> ownerID \<noteq> ce_ID (hc_Owner cfg) then (Err FailedPrecondition, co)
      else (case touchTasks io now tasks [] co of
          (Inl e, c1) \<Rightarrow> (Err e, c1)
        | (Inr ks, c1) \<Rightarrow> (Ok (appendCancelledRuns ks (getCancelledRunsForWorker io tasks c1)), c1)))"

text \<open>Presence of a worker, and the workers that may be given a task.\<close>

definition WorkerHeartbeat :: "CoordIO \<Rightarrow> TrackIO \<Rightarrow> int \<Rightarrow> string \<Rightarrow> (string, string) fmap \<Rightarrow> RunningTask option list \<Rightarrow> Coordinator
    \<Rightarrow> (RpcError, string list) result \<times> Coordinator" where
  "WorkerHeartbeat io tio now workerID labels tasks co =
     (if workerID = '''' then (Err InvalidArgument, co)
      else (case Heartbeat_Upsert tio now \<lparr>wh_WorkerID = workerID, wh_Labels = labels, wh_LastHeartbeatAt = now div 10 ^ 6\<rparr> (co_workers co) of
          (Inl e, w) \<Rightarrow> (Err Internal, co\<lparr>co_workers := w\<rparr>)
        | (Inr _, w) \<Rightarrow> (Ok (getCancelledRunsForWorker io tasks co), co\<lparr>co_workers := w\<rparr>)))"

definition listHealthyWorkers :: "CoordIO \<Rightarrow> HandlerConfig \<Rightarrow> int \<Rightarrow> Coordinator \<Rightarrow> (TrackError, WorkerHeartbeatRecord list) result" where
  "listHealthyWorkers io cfg now co = result_bind (Heartbeat_List (ci_listing io) (ci_digest io) (co_workers co))
     (\<lambda>rs. Ok (filter (\<lambda>r. wh_LastHeartbeatAt r \<noteq> 0 \<and> now - wh_LastHeartbeatAt r * 10 ^ 6 \<le> hc_StaleHeartbeatThreshold cfg) rs))"

definition anyWorkerMatches :: "WorkerHeartbeatRecord list \<Rightarrow> (string, string) fmap \<Rightarrow> bool" where
  "anyWorkerMatches workers selector = (if fmdom selector = {||} then workers \<noteq> []
     else list_ex (\<lambda>w. matchesSelector (wh_Labels w) selector) workers)"

definition RequestCancel :: "CoordIO \<Rightarrow> string \<Rightarrow> string \<Rightarrow> DAGRunRef \<Rightarrow> Coordinator \<Rightarrow> (RpcError, bool) result \<times> Coordinator" where
  "RequestCancel io dagName dagRunID rootRef co =
     (let ref = NewDAGRunRef dagName dagRunID; rio = ci_run io ref
      in if dagName = '''' \<or> dagRunID = '''' then (Err InvalidArgument, co)
         else (case (if dr_ID rootRef \<noteq> '''' \<and> dr_ID rootRef \<noteq> dagRunID then FindSubAttempt rio rootRef dagRunID (co_runs co)
                     else FindAttempt rio ref (co_runs co)) of
             Inl e \<Rightarrow> (Ok False, co)
           | Inr h \<Rightarrow> if \<not> rio_flag rio then (Ok False, co) else (Ok True, co\<lparr>co_runs := Attempt_Abort h (co_runs co)\<rparr>)))"

end
