(* ===== verification/Coordinator_Props.thy ===== *)
theory Coordinator_Props
  imports Coordinator
begin

text \<open>
  Properties of the coordinator: a finished run stays finished, a run whose worker reports is not failed, a run whose worker is
  gone is, and the runs for which this does not work.
\<close>

section \<open>What the steps do to the statuses\<close>

text \<open>A finished attempt keeps its result.\<close>

definition keepsTerminal :: "RunStore \<Rightarrow> RunStore \<Rightarrow> bool" where
  "keepsTerminal s s' \<longleftrightarrow> (\<forall>h st. statusAt h s = Some st \<and> isTerminalRunStatus (rs_Status st)
     \<longrightarrow> (\<exists>st'. statusAt h s' = Some st' \<and> rs_Status st' = rs_Status st))"

lemma keepsTerminal_refl [simp]: "keepsTerminal s s"
  by (simp add: keepsTerminal_def)

lemma keepsTerminal_trans: "keepsTerminal s t \<Longrightarrow> keepsTerminal t u \<Longrightarrow> keepsTerminal s u"
  unfolding keepsTerminal_def by metis

lemma keepsTerminal_write:
  assumes "Attempt_Write io h st s = (Ok (), s')"
    and "\<And>old. statusAt h s = Some old \<Longrightarrow> isTerminalRunStatus (rs_Status old) \<Longrightarrow> rs_Status st = rs_Status old"
  shows "keepsTerminal s s'"
  unfolding keepsTerminal_def using statusAt_write[OF assms(1)] assms(2) statusAt_attempt by (metis (no_types, lifting))

text \<open>The attempts themselves stay: only their status files grow.\<close>

definition sameAttempts :: "RunStore \<Rightarrow> RunStore \<Rightarrow> bool" where
  "sameAttempts s s' \<longleftrightarrow> (\<forall>h. attemptOf h s' = None \<longleftrightarrow> attemptOf h s = None)
     \<and> (distinctIDs s \<longrightarrow> distinctIDs s' \<and> (\<forall>rio ref. FindAttempt rio ref s' = FindAttempt rio ref s))"

lemma sameAttempts_refl [simp]: "sameAttempts s s"
  by (simp add: sameAttempts_def)

lemma sameAttempts_trans: "sameAttempts s t \<Longrightarrow> sameAttempts t u \<Longrightarrow> sameAttempts s u"
  by (simp add: sameAttempts_def)

lemma sameAttempts_write: "Attempt_Write io h st s = (Ok (), s') \<Longrightarrow> statusAt h s \<noteq> None \<Longrightarrow> sameAttempts s s'"
  using attemptOf_write[of io h st s s'] write_latest[of io h st s s'] unfolding sameAttempts_def by simp

text \<open>
  One step of the detector on the store: it leaves a status as it is, or marks a root run as failed whose status was one of
  the expected ones and whose attempt was the given one.
\<close>

definition failsOnly :: "DAGRunRef \<Rightarrow> string \<Rightarrow> Status set \<Rightarrow> RunStore \<Rightarrow> RunStore \<Rightarrow> bool" where
  "failsOnly ref aid S s s' \<longleftrightarrow> sameAttempts s s' \<and> (\<forall>h. statusAt h s' = statusAt h s
     \<or> (\<exists>st f r. fst h = RootRun ref \<and> statusAt h s = Some st \<and> rs_AttemptID st = aid \<and> rs_Status st \<in> S
          \<and> statusAt h s' = Some (failStatus f r st)))"

lemma failsOnly_refl [simp]: "failsOnly ref aid S s s"
  by (simp add: failsOnly_def)

lemma failStatus_simps [simp]: "rs_Status (failStatus f r st) = Failed" "rs_AttemptID (failStatus f r st) = rs_AttemptID st"
  by (simp_all add: failStatus_def)

lemma cas_failsOnly:
  assumes "CompareAndSwapLatestAttemptStatus io ref aid e (failStatus f r) s = (res, s')" "aid \<noteq> ''''" "e \<in> S"
  shows "failsOnly ref aid S s s'"
  using assms(1)
proof (cases rule: cas_cases)
  case same
  then show ?thesis by simp
next
  case (swap h st)
  have "statusAt h' s' = statusAt h' s \<or> (\<exists>st f r. fst h' = RootRun ref \<and> statusAt h' s = Some st \<and> rs_AttemptID st = aid \<and> rs_Status st \<in> S
      \<and> statusAt h' s' = Some (failStatus f r st))" for h'
  proof (cases "h' = h")
    case True
    have "statusAt h s' = Some (failStatus f r st)" using statusAt_write[OF swap(6), of h] statusAt_attempt[OF swap(3)] by simp
    then show ?thesis using swap(1,3,4,5) assms(2,3) True by blast
  next
    case False
    then show ?thesis using statusAt_write[OF swap(6), of h'] by simp
  qed
  then show ?thesis using sameAttempts_write[OF swap(6)] swap(3) unfolding failsOnly_def by blast
qed

lemma cas_err_same: "CompareAndSwapLatestAttemptStatus io ref aid e m s = (Inl x, s') \<Longrightarrow> s' = s"
  by (erule cas_cases) auto

lemma cas_noswap_same: "CompareAndSwapLatestAttemptStatus io ref aid e m s = (Inr (st, False), s') \<Longrightarrow> s' = s"
  by (erule cas_cases) auto

lemma casLoop_failsOnly:
  assumes "aid \<noteq> ''''" "set es \<subseteq> S"
  shows "failsOnly ref aid S s (snd (casLoop io ref aid (failStatus f r) es a s))"
  using assms(2)
proof (induction es arbitrary: a)
  case (Cons e es)
  obtain res s1 where c: "CompareAndSwapLatestAttemptStatus io ref aid e (failStatus f r) s = (res, s1)" by fastforce
  have 1: "failsOnly ref aid S s s1" using cas_failsOnly[OF c assms(1)] Cons.prems by simp
  show ?case
  proof (cases res)
    case (Inl x)
    then show ?thesis using c 1 by simp
  next
    case (Inr p)
    then obtain st sw where p: "res = Inr (st, sw)" by (cases p) auto
    show ?thesis
    proof (cases sw)
      case True
      then show ?thesis using c p 1 by simp
    next
      case False
      then have "s1 = s" using c p cas_noswap_same by simp
      then show ?thesis using c p Cons by simp
    qed
  qed
qed simp

lemma deleteTracking_runs [simp]:
  "co_runs (deleteDistributedTracking io k co) = co_runs co" "co_open (deleteDistributedTracking io k co) = co_open co"
  by (simp_all add: deleteDistributedTracking_def deleteActiveDistributedRun_def deleteDistributedLease_def)

lemma upsertActive_runs [simp]:
  "co_runs (upsertActiveDistributedRun io now st w a co) = co_runs co" "co_open (upsertActiveDistributedRun io now st w a co) = co_open co"
  by (simp_all add: upsertActiveDistributedRun_def Let_def)

lemma sync_runs [simp]:
  "co_runs (syncDistributedRunTrackingFromStatus io cfg now w st a co) = co_runs co"
  "co_open (syncDistributedRunTrackingFromStatus io cfg now w st a co) = co_open co"
  by (simp_all add: syncDistributedRunTrackingFromStatus_def syncActiveDistributedRunFromStatus_def syncLeaseFromStatus_def Let_def)

lemma failDistributed_runs:
  "aid = '''' \<and> failDistributedAttemptIfCurrent io ref aid k r es co = co
    \<or> aid \<noteq> '''' \<and> co_runs (failDistributedAttemptIfCurrent io ref aid k r es co)
        = snd (casLoop (ci_run io ref) ref aid (failStatus (ci_finished io) r) es None (co_runs co))
      \<and> co_open (failDistributedAttemptIfCurrent io ref aid k r es co) = co_open co"
  by (auto simp: failDistributedAttemptIfCurrent_def split: sum.split option.split prod.split)

lemma failDistributed_failsOnly:
  "set es \<subseteq> S \<Longrightarrow> failsOnly ref aid S (co_runs co) (co_runs (failDistributedAttemptIfCurrent io ref aid k r es co))"
  using failDistributed_runs[of aid io ref k r es co] casLoop_failsOnly[of aid es S ref] by auto

lemma failDistributed_open: "co_open (failDistributedAttemptIfCurrent io ref aid k r es co) = co_open co"
  using failDistributed_runs[of aid io ref k r es co] by auto

section \<open>Well-formed states\<close>

text \<open>
  A status carries the identifier of its attempt or none (old files), identifiers are not shared, and the cached attempts exist.
\<close>

definition coordWf :: "Coordinator \<Rightarrow> bool" where
  "coordWf co \<longleftrightarrow> (\<forall>h st. statusAt h (co_runs co) = Some st \<longrightarrow> rs_AttemptID st \<in> {'''', snd h})
     \<and> (\<forall>h h'. attemptOf h (co_runs co) \<noteq> None \<and> attemptOf h' (co_runs co) \<noteq> None \<and> snd h = snd h' \<longrightarrow> h = h')
     \<and> (\<forall>h. attemptOf h (co_runs co) \<noteq> None \<longrightarrow> snd h \<noteq> '''')
     \<and> (\<forall>k h. fmlookup (co_open co) k = Some h \<longrightarrow> attemptOf h (co_runs co) \<noteq> None) \<and> distinctIDs (co_runs co)"

lemma coordWf_status: "coordWf co \<Longrightarrow> statusAt h (co_runs co) = Some st \<Longrightarrow> rs_AttemptID st \<in> {'''', snd h}"
  unfolding coordWf_def by blast

lemma coordWf_unique: "coordWf co \<Longrightarrow> attemptOf h (co_runs co) \<noteq> None \<Longrightarrow> attemptOf h' (co_runs co) \<noteq> None \<Longrightarrow> snd h = snd h' \<Longrightarrow> h = h'"
  unfolding coordWf_def by blast

lemma coordWf_id: "coordWf co \<Longrightarrow> attemptOf h (co_runs co) \<noteq> None \<Longrightarrow> snd h \<noteq> ''''"
  unfolding coordWf_def by blast

lemma coordWf_open: "coordWf co \<Longrightarrow> fmlookup (co_open co) k = Some h \<Longrightarrow> attemptOf h (co_runs co) \<noteq> None"
  unfolding coordWf_def by blast

lemma coordWf_distinct: "coordWf co \<Longrightarrow> distinctIDs (co_runs co)"
  unfolding coordWf_def by blast

lemma coordWf_update:
  assumes "coordWf co" "sameAttempts (co_runs co) (co_runs co')"
    and "\<And>h st. statusAt h (co_runs co') = Some st \<Longrightarrow> rs_AttemptID st \<in> {'''', snd h}"
    and "\<And>k h. fmlookup (co_open co') k = Some h \<Longrightarrow> attemptOf h (co_runs co) \<noteq> None"
  shows "coordWf co'"
proof -
  have a: "attemptOf h (co_runs co') \<noteq> None \<longleftrightarrow> attemptOf h (co_runs co) \<noteq> None" for h
    using assms(2) unfolding sameAttempts_def by metis
  show ?thesis
    unfolding coordWf_def a
    using assms(2,3,4) coordWf_unique[OF assms(1)] coordWf_id[OF assms(1)] coordWf_distinct[OF assms(1)] unfolding sameAttempts_def by blast
qed

text \<open>What a step of the detector keeps.\<close>

definition detects :: "Coordinator \<Rightarrow> Coordinator \<Rightarrow> bool" where
  "detects co co' \<longleftrightarrow> co_open co' = co_open co \<and> sameAttempts (co_runs co) (co_runs co')
     \<and> (\<forall>h. statusAt h (co_runs co') = statusAt h (co_runs co)
          \<or> (\<exists>st f r. statusAt h (co_runs co) = Some st \<and> \<not> isTerminalRunStatus (rs_Status st) \<and> (\<exists>ref. fst h = RootRun ref)
               \<and> statusAt h (co_runs co') = Some (failStatus f r st)))"

lemma detects_same: "co_runs co' = co_runs co \<Longrightarrow> co_open co' = co_open co \<Longrightarrow> detects co co'"
  by (simp add: detects_def)

lemma detects_trans:
  assumes "detects a b" "detects b c"
  shows "detects a c"
proof -
  have "statusAt h (co_runs c) = statusAt h (co_runs a)
      \<or> (\<exists>st f r. statusAt h (co_runs a) = Some st \<and> \<not> isTerminalRunStatus (rs_Status st) \<and> (\<exists>ref. fst h = RootRun ref)
           \<and> statusAt h (co_runs c) = Some (failStatus f r st))" for h
  proof (cases "statusAt h (co_runs b) = statusAt h (co_runs a)")
    case True
    then show ?thesis using assms(2) unfolding detects_def by metis
  next
    case False
    then obtain st f r where b: "statusAt h (co_runs a) = Some st" "\<not> isTerminalRunStatus (rs_Status st)" "\<exists>ref. fst h = RootRun ref"
      "statusAt h (co_runs b) = Some (failStatus f r st)" using assms(1) unfolding detects_def by blast
    have "statusAt h (co_runs c) = statusAt h (co_runs b)"
      using assms(2) b(4) unfolding detects_def by (metis failStatus_simps(1) isTerminalRunStatus_def Status.distinct option.inject
        Status_IsActive_def)
    then show ?thesis using b by metis
  qed
  then show ?thesis using assms sameAttempts_trans unfolding detects_def by metis
qed

lemma detects_fold: "(\<And>x co. x \<in> set xs \<Longrightarrow> detects co (f x co)) \<Longrightarrow> detects co (fold f xs co)"
  by (induction xs arbitrary: co) (auto intro: detects_trans detects_same)

lemma failDistributed_detects:
  assumes "\<And>e. e \<in> set es \<Longrightarrow> \<not> isTerminalRunStatus e"
  shows "detects co (failDistributedAttemptIfCurrent io ref aid k r es co)"
  using failDistributed_failsOnly[OF order_refl, of ref aid es co io k r] failDistributed_open[of io ref aid k r es co] assms
  unfolding failsOnly_def detects_def by metis

lemma not_terminal: "isTerminalRunStatus s \<longleftrightarrow> s \<notin> {NotStarted, Running, Queued, Waiting}"
  by (cases s) (simp_all add: isTerminalRunStatus_def Status_IsActive_def)

lemma checkLease_detects: "detects co (checkLease io cfg now l co)"
  unfolding checkLease_def markLeaseRunFailed_def by (auto intro!: failDistributed_detects simp: detects_same not_terminal)

lemma checkIndexedRun_detects: "detects co (checkIndexedRun io cfg now r co)"
proof -
  have "\<not> isTerminalRunStatus (rs_Status st)" if "indexedDistributedRunMatchesStatus r st" for st
    using that by (auto simp: indexedDistributedRunMatchesStatus_def not_terminal split: if_splits)
  then have "detects co (markStatusLeaseRunFailed io st a k x co)" if "indexedDistributedRunMatchesStatus r st" for st a k x
    unfolding markStatusLeaseRunFailed_def using that by (intro failDistributed_detects) simp
  then show ?thesis
    unfolding checkIndexedRun_def by (auto simp: detects_same split: sum.split option.split)
qed

lemma checkStatusLease_detects:
  assumes "\<And>x. st = Some x \<Longrightarrow> \<not> isTerminalRunStatus (rs_Status x)"
  shows "detects co (checkStatusLease io cfg now b st co)"
proof -
  have "detects co (markStatusLeaseRunFailed io x a k y co)" if "st = Some x" for x a k y
    unfolding markStatusLeaseRunFailed_def using assms that by (intro failDistributed_detects) simp
  then show ?thesis unfolding checkStatusLease_def by (auto simp: detects_same split: option.split)
qed

text \<open>\<open>ListStatuses\<close> returns runs with the statuses it is asked for.\<close>

definition listingOk :: "CoordIO \<Rightarrow> bool" where
  "listingOk io \<longleftrightarrow> (\<forall>s xs x. ci_statuses io s = Some xs \<and> Some x \<in> set xs \<longrightarrow> rs_Status x \<in> {Running, NotStarted})"

lemma listing_detects:
  assumes "listingOk io" "ci_statuses io s = Some xs"
  shows "detects co (fold (checkStatusLease io cfg now b) xs co)"
  using assms by (intro detects_fold checkStatusLease_detects) (auto simp: listingOk_def not_terminal)

lemma detectStaleLeases_detects:
  assumes "listingOk io"
  shows "detects co (detectStaleLeases io cfg now co)"
proof -
  have 1: "detects co (fold (checkLease io cfg now) ls co)" for ls by (intro detects_fold checkLease_detects)
  have 2: "detects c (detectIndexedDistributedStatuses io cfg now c)" for c
    unfolding detectIndexedDistributedStatuses_def by (auto intro!: detects_fold checkIndexedRun_detects simp: detects_same split: sum.split)
  have 3: "detects c (detectOrphanedDistributedStatuses io cfg now c)" for c
    unfolding detectOrphanedDistributedStatuses_def using listing_detects[OF assms] by (auto simp: detects_same split: option.split)
  show ?thesis
    unfolding detectStaleLeases_def using detects_trans[OF detects_trans[OF 1 2] 3] by (simp add: detects_same split: sum.split)
qed

lemma backfill_detects: "listingOk io \<Longrightarrow> detects co (backfillActiveDistributedRuns io cfg now co)"
  unfolding backfillActiveDistributedRuns_def using listing_detects by (auto simp: detects_same split: option.split)

lemma detects_wf:
  assumes "detects co co'" "coordWf co"
  shows "coordWf co'"
proof (rule coordWf_update[OF assms(2)])
  show "sameAttempts (co_runs co) (co_runs co')" using assms(1) by (simp add: detects_def)
  show "rs_AttemptID st \<in> {'''', snd h}" if "statusAt h (co_runs co') = Some st" for h st
    using assms(1) that coordWf_status[OF assms(2), of h] unfolding detects_def by (metis failStatus_simps(2) option.inject)
  show "attemptOf h (co_runs co) \<noteq> None" if "fmlookup (co_open co') k = Some h" for k h
    using assms(1) that coordWf_open[OF assms(2)] unfolding detects_def by metis
qed

lemma detects_terminal:
  assumes "detects co co'"
  shows "keepsTerminal (co_runs co) (co_runs co')"
  unfolding keepsTerminal_def
proof (intro allI impI)
  fix h st
  assume s: "statusAt h (co_runs co) = Some st \<and> isTerminalRunStatus (rs_Status st)"
  then have "statusAt h (co_runs co') = statusAt h (co_runs co)" using assms unfolding detects_def by (metis option.inject)
  then show "\<exists>st'. statusAt h (co_runs co') = Some st' \<and> rs_Status st' = rs_Status st" using s by simp
qed

section \<open>Reports\<close>

lemma findSub_key: "FindSubAttempt rio root i s = Ok h \<Longrightarrow> fst h = SubRun root i"
  by (auto simp: FindSubAttempt_def result_bind_eq_Ok split: if_splits option.splits)

lemma find_key: "FindAttempt rio ref s = Ok h \<Longrightarrow> fst h = RootRun ref"
  by (auto simp: FindAttempt_def result_bind_eq_Ok split: if_splits)

lemma resolve_status: "resolveLatestAttempt io n i root s = Ok (h, st) \<Longrightarrow> statusAt h s = Some st"
  by (auto simp: resolveLatestAttempt_def Let_def result_bind_eq_Ok ReadStatus_eq split: if_splits)

text \<open>
  A worker reports the identifier it was given with the task.  The coordinator checks it against the latest status, except when that
  status carries none; then the worker is trusted.
\<close>

definition honestReport :: "CoordIO \<Rightarrow> DAGRunStatus \<Rightarrow> Coordinator \<Rightarrow> bool" where
  "honestReport io incoming co \<longleftrightarrow> (\<forall>h latest.
     resolveLatestAttempt io (rs_Name incoming) (rs_DAGRunID incoming) (rs_Root incoming) (co_runs co) = Ok (h, latest)
     \<and> rs_AttemptID latest = '''' \<longrightarrow> rs_AttemptID incoming \<in> {'''', snd h})"

text \<open>An accepted report is written to the attempt it was resolved for, whether or not that attempt was cached.\<close>

lemma replaceOpen_latest:
  assumes "coordWf co" "statusAt h (co_runs co) = Some latest" "replaceOpenAttempt rio k h (rs_AttemptID latest) (co_open co) = (Ok a, cache)"
  shows "a = h \<and> (\<forall>k' h'. fmlookup cache k' = Some h' \<longrightarrow> attemptOf h' (co_runs co) \<noteq> None)"
proof -
  have h: "attemptOf h (co_runs co) \<noteq> None" by (rule statusAt_attempt[OF assms(2)])
  have "c = h" if "fmlookup (co_open co) k = Some c" "snd c = rs_AttemptID latest" for c
    using coordWf_open[OF assms(1) that(1)] coordWf_id[OF assms(1)] coordWf_unique[OF assms(1) _ h] coordWf_status[OF assms(1,2)] that(2)
    by (metis insert_iff singletonD)
  then have "a = h" using assms(3) by (auto simp: replaceOpenAttempt_def split: option.splits if_splits)
  moreover have "attemptOf h' (co_runs co) \<noteq> None" if "fmlookup cache k' = Some h'" for k' h'
    using assms(3) that h coordWf_open[OF assms(1), of k' h']
    by (auto simp: replaceOpenAttempt_def split: option.splits if_splits)
  ultimately show ?thesis by blast
qed

lemma replaceOpen_err:
  assumes "coordWf co" "replaceOpenAttempt rio k h i (co_open co) = (Err e, cache)" "fmlookup cache k' = Some h'"
  shows "attemptOf h' (co_runs co) \<noteq> None"
  using assms coordWf_open[OF assms(1), of k' h'] by (auto simp: replaceOpenAttempt_def split: option.splits if_splits)

text \<open>The outcomes of a report.\<close>

lemma ReportStatus_cases:
  assumes "coordWf co"
  obtains (kept) "co_runs (snd (ReportStatus io cfg now w o' req co)) = co_runs co"
    "\<And>k h. fmlookup (co_open (snd (ReportStatus io cfg now w o' req co))) k = Some h \<Longrightarrow> attemptOf h (co_runs co) \<noteq> None"
  | (written) incoming h latest rio where "req = Some (Inr incoming)"
    "resolveLatestAttempt io (rs_Name incoming) (rs_DAGRunID incoming) (rs_Root incoming) (co_runs co) = Ok (h, latest)"
    "remoteStatusDecision io cfg now latest incoming co = None"
    "Attempt_Write rio h incoming (co_runs co) = (Ok (), co_runs (snd (ReportStatus io cfg now w o' req co)))"
    "\<And>k h. fmlookup (co_open (snd (ReportStatus io cfg now w o' req co))) k = Some h \<Longrightarrow> attemptOf h (co_runs co) \<noteq> None"
proof (cases "ReportStatus io cfg now w o' req co = (fst (ReportStatus io cfg now w o' req co), co)")
  case True
  then have e: "snd (ReportStatus io cfg now w o' req co) = co" by (metis snd_conv)
  show ?thesis by (rule kept) (simp_all add: e coordWf_open[OF assms])
next
  case False
  then obtain incoming h latest where r: "\<not> (ce_ID (hc_Owner cfg) \<noteq> '''' \<and> o' \<noteq> ce_ID (hc_Owner cfg))" "req = Some (Inr incoming)"
    "resolveLatestAttempt io (rs_Name incoming) (rs_DAGRunID incoming) (rs_Root incoming) (co_runs co) = Ok (h, latest)"
    "remoteStatusDecision io cfg now latest incoming co = None"
    by (auto simp: ReportStatus_def reportWrite_def Let_def split: if_splits option.splits sum.splits)
  define rio where "rio = ci_run io (NewDAGRunRef (rs_Name incoming) (rs_DAGRunID incoming))"
  obtain ra cache where ra: "replaceOpenAttempt rio (rs_DAGRunID incoming) h (rs_AttemptID latest) (co_open co) = (ra, cache)" by fastforce
  have st: "statusAt h (co_runs co) = Some latest" by (rule resolve_status[OF r(3)])
  show ?thesis
  proof (cases ra)
    case (Inl e)
    then have "snd (ReportStatus io cfg now w o' req co) = co\<lparr>co_open := cache\<rparr>"
      using r ra by (auto simp: ReportStatus_def reportWrite_def Let_def rio_def)
    then show ?thesis using kept replaceOpen_err[OF assms] ra Inl by simp
  next
    case (Inr a)
    then have a: "a = h" "\<And>k' h'. fmlookup cache k' = Some h' \<Longrightarrow> attemptOf h' (co_runs co) \<noteq> None"
      using replaceOpen_latest[OF assms st] ra by blast+
    show ?thesis
    proof (cases "Attempt_Write rio h incoming (co_runs co)")
      case (Pair res rs)
      show ?thesis
      proof (cases res)
        case (Inl e)
        then have "snd (ReportStatus io cfg now w o' req co) = co\<lparr>co_open := cache, co_runs := rs\<rparr>"
          using r ra \<open>ra = Inr a\<close> Pair a(1) by (auto simp: ReportStatus_def reportWrite_def Let_def rio_def)
        then show ?thesis using kept a(2) write_err Pair Inl by simp
      next
        case (Inr u)
        then have "snd (ReportStatus io cfg now w o' req co)
            = syncDistributedRunTrackingFromStatus io cfg now w incoming (snd a) (co\<lparr>co_open := cache, co_runs := rs\<rparr>)"
          using r ra \<open>ra = Inr a\<close> Pair a(1) by (auto simp: ReportStatus_def reportWrite_def Let_def rio_def)
        then show ?thesis using written[OF r(2,3,4), of rio] a(2) Pair Inr by simp
      qed
    qed
  qed
qed

lemma sameAttempt_id:
  "sameAttemptStatus latest incoming \<Longrightarrow> rs_AttemptID latest \<noteq> '''' \<Longrightarrow> rs_AttemptID incoming \<in> {'''', rs_AttemptID latest}"
  by (auto simp: sameAttemptStatus_def split: if_splits)

lemma decision_terminal:
  "remoteStatusDecision io cfg now latest incoming co = None \<Longrightarrow> isTerminalRunStatus (rs_Status latest) \<Longrightarrow> rs_Status incoming = rs_Status latest"
  by (simp add: remoteStatusDecision_def split: if_splits)

lemma ReportStatus_wf:
  assumes "coordWf co" "\<And>incoming. req = Some (Inr incoming) \<Longrightarrow> honestReport io incoming co"
  shows "coordWf (snd (ReportStatus io cfg now w o' req co))
    \<and> keepsTerminal (co_runs co) (co_runs (snd (ReportStatus io cfg now w o' req co)))"
  using assms(1)
proof (cases rule: ReportStatus_cases[of co io cfg now w o' req])
  case kept
  have "coordWf (snd (ReportStatus io cfg now w o' req co))"
    by (rule coordWf_update[OF assms(1) _ _ kept(2)]) (simp_all add: kept(1) coordWf_status[OF assms(1), simplified])
  then show ?thesis by (simp add: kept(1))
next
  case (written incoming h latest rio)
  have st: "statusAt h (co_runs co) = Some latest" by (rule resolve_status[OF written(2)])
  have "sameAttemptStatus latest incoming" using written(3) by (auto simp: remoteStatusDecision_def split: if_splits)
  then have id: "rs_AttemptID incoming \<in> {'''', snd h}"
    using assms(2)[OF written(1)] written(2) sameAttempt_id coordWf_status[OF assms(1) st] unfolding honestReport_def
    by (metis insert_iff singletonD)
  have "coordWf (snd (ReportStatus io cfg now w o' req co))"
  proof (rule coordWf_update[OF assms(1) sameAttempts_write[OF written(4)] _ written(5)])
    show "statusAt h (co_runs co) \<noteq> None" using st by simp
    show "rs_AttemptID x \<in> {'''', snd h'}" if "statusAt h' (co_runs (snd (ReportStatus io cfg now w o' req co))) = Some x" for h' x
      using that statusAt_write[OF written(4), of h'] id coordWf_status[OF assms(1), of h' x] by (auto split: if_splits)
  qed
  moreover have "keepsTerminal (co_runs co) (co_runs (snd (ReportStatus io cfg now w o' req co)))"
    by (rule keepsTerminal_write[OF written(4)]) (use st decision_terminal[OF written(3)] in simp)
  ultimately show ?thesis by blast
qed

section \<open>All steps\<close>

lemma abort_status: "statusAt h (Attempt_Abort h' s) = statusAt h s" "attemptOf h (Attempt_Abort h' s) = None \<longleftrightarrow> attemptOf h s = None"
proof -
  let ?f = "\<lambda>a. if at_ID a = snd h' then a\<lparr>at_CancelRequested := True\<rparr> else a"
  have "attemptOf h (Attempt_Abort h' s) = map_option (\<lambda>a. if fst h = fst h' then ?f a else a) (attemptOf h s)"
  proof (cases "fmlookup (st_runs s) (fst h')")
    case None
    then show ?thesis by (cases "fst h = fst h'") (simp_all add: Attempt_Abort_def attemptOf_def option.map_ident)
  next
    case (Some as)
    show ?thesis
    proof (cases "fst h = fst h'")
      case True
      then show ?thesis using Some find_map_ID[of ?f "snd h" as] by (simp add: Attempt_Abort_def attemptOf_def)
    qed (simp add: Some Attempt_Abort_def attemptOf_def option.map_ident)
  qed
  then show "statusAt h (Attempt_Abort h' s) = statusAt h s" "attemptOf h (Attempt_Abort h' s) = None \<longleftrightarrow> attemptOf h s = None"
    by (auto simp: statusAt_def split: option.split)
qed

lemma abort_latest:
  assumes "distinctIDs s"
  shows "distinctIDs (Attempt_Abort h s)" "FindAttempt rio ref (Attempt_Abort h s) = FindAttempt rio ref s"
proof -
  let ?f = "\<lambda>a. if at_ID a = snd h then a\<lparr>at_CancelRequested := True\<rparr> else a"
  have ids: "at_ID \<circ> ?f = at_ID" by auto
  show "distinctIDs (Attempt_Abort h s)"
    using assms by (auto simp: distinctIDs_def Attempt_Abort_def ids split: option.split if_splits)
  have "find (\<lambda>a. \<not> at_Hidden a \<and> Attempt_Exists a) (map ?f as) = map_option ?f (find (\<lambda>a. \<not> at_Hidden a \<and> Attempt_Exists a) as)" for as
    by (rule find_map_same) (simp add: Attempt_Exists_def)
  then show "FindAttempt rio ref (Attempt_Abort h s) = FindAttempt rio ref s"
    by (cases "RootRun ref = fst h")
      (auto simp: FindAttempt_def FindByDAGRunID_def LatestAttempt_def Attempt_Abort_def split: option.split)
qed

lemma cancel_keeps:
  "sameAttempts (co_runs co) (co_runs (snd (RequestCancel io n i root co)))"
  "statusAt h (co_runs (snd (RequestCancel io n i root co))) = statusAt h (co_runs co)"
  "co_open (snd (RequestCancel io n i root co)) = co_open co"
  by (auto simp: RequestCancel_def Let_def sameAttempts_def abort_status abort_latest split: sum.split)

lemma touchTasks_runs: "co_runs (snd (touchTasks io now ts ks co)) = co_runs co \<and> co_open (snd (touchTasks io now ts ks co)) = co_open co"
  by (induction io now ts ks co rule: touchTasks.induct) (auto split: prod.split sum.split)

lemma quiet_steps:
  "co_runs (snd (pollOnce io key cfg now tok w p ls co)) = co_runs co" "co_open (snd (pollOnce io key cfg now tok w p ls co)) = co_open co"
  "co_runs (snd (AckTaskClaim io key cfg now tok w co)) = co_runs co" "co_open (snd (AckTaskClaim io key cfg now tok w co)) = co_open co"
  "co_runs (snd (WorkerHeartbeat io tio now w ls ts co)) = co_runs co" "co_open (snd (WorkerHeartbeat io tio now w ls ts co)) = co_open co"
  "co_runs (snd (RunHeartbeat io cfg now w o' ts co)) = co_runs co" "co_open (snd (RunHeartbeat io cfg now w o' ts co)) = co_open co"
  using touchTasks_runs[of io now ts "[]" co]
  by (auto simp: pollOnce_def AckTaskClaim_def ackLease_def ackDelete_def WorkerHeartbeat_def RunHeartbeat_def split: prod.splits sum.splits option.splits)

text \<open>A new attempt of a run, made by a dispatch, a retry or an enqueue, with an identifier of its own.\<close>

definition newAttempt :: "RunKey \<Rightarrow> Attempt \<Rightarrow> RunStore \<Rightarrow> RunStore" where
  "newAttempt k a s = s\<lparr>st_runs := fmupd k (a # (case fmlookup (st_runs s) k of None \<Rightarrow> [] | Some as \<Rightarrow> as)) (st_runs s)\<rparr>"

definition attemptFresh :: "Attempt \<Rightarrow> RunStore \<Rightarrow> bool" where
  "attemptFresh a s \<longleftrightarrow> at_ID a \<noteq> '''' \<and> (\<forall>h. snd h = at_ID a \<longrightarrow> attemptOf h s = None)
     \<and> (case at_Lines a of None \<Rightarrow> True | Some ls \<Rightarrow> case parseLines ls of None \<Rightarrow> True | Some st \<Rightarrow> rs_AttemptID st \<in> {'''', at_ID a})"

lemma newAttempt_of: "attemptOf h (newAttempt k a s) = (if h = (k, at_ID a) then Some a else attemptOf h s)"
  by (cases h) (auto simp: newAttempt_def attemptOf_def split: option.split)

lemma newAttempt_keeps:
  assumes "attemptFresh a s"
  shows "keepsTerminal s (newAttempt k a s)"
proof -
  have "statusAt h (newAttempt k a s) = statusAt h s" if "attemptOf h s \<noteq> None" for h
    using that assms by (auto simp: statusAt_def newAttempt_of attemptFresh_def)
  then show ?thesis unfolding keepsTerminal_def using statusAt_attempt by metis
qed

lemma newAttempt_wf:
  assumes "coordWf co" "attemptFresh a (co_runs co)"
  shows "coordWf (co\<lparr>co_runs := newAttempt k a (co_runs co)\<rparr>)"
proof -
  let ?s = "newAttempt k a (co_runs co)"
  have 1: "rs_AttemptID st \<in> {'''', snd h}" if "statusAt h ?s = Some st" for h st
  proof (cases "h = (k, at_ID a)")
    case True
    then show ?thesis using that assms(2) by (auto simp: statusAt_def newAttempt_of attemptFresh_def split: option.splits)
  next
    case False
    then have "statusAt h (co_runs co) = Some st" using that by (simp add: statusAt_def newAttempt_of)
    then show ?thesis by (rule coordWf_status[OF assms(1)])
  qed
  have 2: "h = h'" if "attemptOf h ?s \<noteq> None" "attemptOf h' ?s \<noteq> None" "snd h = snd h'" for h h'
    using that assms(2) coordWf_unique[OF assms(1), of h h'] unfolding newAttempt_of attemptFresh_def by (metis snd_conv)
  have 3: "snd h \<noteq> ''''" if "attemptOf h ?s \<noteq> None" for h
    using that assms(2) coordWf_id[OF assms(1), of h] unfolding newAttempt_of attemptFresh_def by (metis snd_conv)
  have 4: "attemptOf h ?s \<noteq> None" if "fmlookup (co_open co) i = Some h" for i h
    using coordWf_open[OF assms(1) that] by (simp add: newAttempt_of)
  have "at_ID a \<notin> at_ID ` set as" if "fmlookup (st_runs (co_runs co)) k' = Some as" for k' as
  proof
    assume "at_ID a \<in> at_ID ` set as"
    then have "attemptOf (k', at_ID a) (co_runs co) \<noteq> None" using that by (auto simp: attemptOf_def find_None_iff)
    then show False using assms(2) by (simp add: attemptFresh_def)
  qed
  then have 5: "distinctIDs ?s"
    using coordWf_distinct[OF assms(1)] by (auto simp: distinctIDs_def newAttempt_def split: option.split if_splits)
  show ?thesis unfolding coordWf_def using 1 2 3 4 5 by simp
qed

inductive coordStep :: "HandlerConfig \<Rightarrow> Coordinator \<Rightarrow> Coordinator \<Rightarrow> bool" for cfg where
  step_report: "(\<And>incoming. req = Some (Inr incoming) \<Longrightarrow> honestReport io incoming co)
    \<Longrightarrow> coordStep cfg co (snd (ReportStatus io cfg now w o' req co))"
| step_zombies: "listingOk io \<Longrightarrow> coordStep cfg co (detectAndCleanupZombies io cfg now co)"
| step_backfill: "listingOk io \<Longrightarrow> coordStep cfg co (backfillActiveDistributedRuns io cfg now co)"
| step_poll: "coordStep cfg co (snd (pollOnce io key cfg now tok w p ls co))"
| step_ack: "coordStep cfg co (snd (AckTaskClaim io key cfg now tok w co))"
| step_run_heartbeat: "coordStep cfg co (snd (RunHeartbeat io cfg now w o' ts co))"
| step_heartbeat: "coordStep cfg co (snd (WorkerHeartbeat io tio now w ls ts co))"
| step_cancel: "coordStep cfg co (snd (RequestCancel io n i root co))"
| step_restart: "coordStep cfg co (co\<lparr>co_open := fmempty\<rparr>)"
| step_new: "attemptFresh a (co_runs co) \<Longrightarrow> coordStep cfg co (co\<lparr>co_runs := newAttempt k a (co_runs co)\<rparr>)"

definition noRuns :: Coordinator where
  "noRuns = \<lparr>co_runs = \<lparr>st_runs = fmempty\<rparr>, co_leases = fmempty, co_active = fmempty, co_dispatch = \<lparr>ds_pending = fmempty, ds_claims = fmempty\<rparr>,
     co_workers = fmempty, co_open = fmempty\<rparr>"

inductive coordReach :: "HandlerConfig \<Rightarrow> Coordinator \<Rightarrow> bool" for cfg where
  coord_start: "coordReach cfg noRuns"
| coord_step: "coordReach cfg co \<Longrightarrow> coordStep cfg co co' \<Longrightarrow> coordReach cfg co'"

lemma zombies_detects:
  assumes "listingOk io"
  shows "detects co (detectAndCleanupZombies io cfg now co)"
proof -
  define w where "w = snd (snd (Heartbeat_DeleteStale (ci_listing io) (ci_digest io) (now - hc_StaleHeartbeatThreshold cfg) (co_workers co)))"
  have "detectAndCleanupZombies io cfg now co = detectStaleLeases io cfg now (co\<lparr>co_workers := w\<rparr>)"
    by (simp add: detectAndCleanupZombies_def w_def case_prod_beta Let_def)
  moreover have "detects (co\<lparr>co_workers := w\<rparr>) (detectStaleLeases io cfg now (co\<lparr>co_workers := w\<rparr>))"
    by (rule detectStaleLeases_detects[OF assms])
  moreover have "detects co (co\<lparr>co_workers := w\<rparr>)" by (rule detects_same) simp_all
  ultimately show ?thesis using detects_trans by metis
qed

lemma coordWf_same: "coordWf co \<Longrightarrow> co_runs co' = co_runs co \<Longrightarrow> co_open co' = co_open co \<Longrightarrow> coordWf co'"
  by (simp add: coordWf_def)

lemma coordStep_wf:
  assumes "coordStep cfg co co'" "coordWf co"
  shows "coordWf co' \<and> keepsTerminal (co_runs co) (co_runs co')"
  using assms(1)
proof cases
  case (step_report req io now w o')
  then show ?thesis using ReportStatus_wf[OF assms(2)] by blast
next
  case (step_zombies io now)
  then show ?thesis using zombies_detects detects_wf[OF _ assms(2)] detects_terminal by blast
next
  case (step_backfill io now)
  then show ?thesis using backfill_detects detects_wf[OF _ assms(2)] detects_terminal by blast
next
  case (step_cancel io n i root)
  have "coordWf co'"
    unfolding step_cancel
    by (rule coordWf_update[OF assms(2)])
      (use coordWf_status[OF assms(2)] coordWf_open[OF assms(2)] in \<open>simp_all add: cancel_keeps\<close>)
  then show ?thesis unfolding step_cancel keepsTerminal_def cancel_keeps by blast
next
  case step_restart
  then show ?thesis using assms(2) by (simp add: coordWf_def keepsTerminal_def)
next
  case (step_new a k)
  then show ?thesis using newAttempt_wf[OF assms(2)] newAttempt_keeps by simp
qed (use coordWf_same[OF assms(2)] quiet_steps in simp_all)

lemma coordReach_wf: "coordReach cfg co \<Longrightarrow> coordWf co"
proof (induction rule: coordReach.induct)
  case coord_start
  show ?case by (simp add: coordWf_def noRuns_def statusAt_def attemptOf_def distinctIDs_def)
next
  case (coord_step co co')
  then show ?case using coordStep_wf by blast
qed

text \<open>C5: a finished run stays finished: as long as the requests and the passes of the detector come one after the other, in every
  reachable state, whatever request the coordinator serves (late reports of a worker that was given up included) and whatever the
  detector of lost workers does, with any failures of the stores, an attempt whose last status is terminal keeps that status.\<close>

theorem terminal_status_final:
  assumes "coordReach cfg co" "coordStep cfg co co'" "statusAt h (co_runs co) = Some st" "isTerminalRunStatus (rs_Status st)"
  shows "\<exists>st'. statusAt h (co_runs co') = Some st' \<and> rs_Status st' = rs_Status st"
  using coordStep_wf[OF assms(2) coordReach_wf[OF assms(1)]] assms(3,4) unfolding keepsTerminal_def by blast

section \<open>Examples\<close>

text \<open>A new attempt whose worker reports a first status one second after the start of time.\<close>

definition exConfig :: HandlerConfig where
  "exConfig = applyDefaults \<lparr>hc_Owner = \<lparr>ce_ID = ''c'', ce_Host = ''h'', ce_Port = 8080\<rparr>, hc_StaleHeartbeatThreshold = 0, hc_StaleLeaseThreshold = 0\<rparr>"

definition okTrack :: TrackIO where
  "okTrack = \<lparr>tio_lock = True, tio_list = True, tio_read = True, tio_write = True, tio_remove = True\<rparr>"

definition okRun :: RunIO where
  "okRun = \<lparr>rio_lock = True, rio_find = True, rio_read = True, rio_open = True, rio_write = True, rio_flag = True\<rparr>"

definition okIO :: CoordIO where
  "okIO = \<lparr>ci_run = (\<lambda>_. okRun), ci_lease = (\<lambda>_. okTrack), ci_active = (\<lambda>_. okTrack), ci_listing = okTrack,
     ci_dispatch = \<lparr>dio_list = True, dio_listPending = True, dio_read = (\<lambda>_. True), dio_stat = (\<lambda>_. True), dio_write = (\<lambda>_. True), dio_mkdir = True,
       dio_rename = (\<lambda>_. True), dio_chtimes = (\<lambda>_. True), dio_back = True, dio_remove = True\<rparr>,
     ci_digest = id, ci_statuses = (\<lambda>_. Some []), ci_finished = ''now''\<rparr>"

definition exStatus :: "DAGRunRef \<Rightarrow> string \<Rightarrow> string \<Rightarrow> string \<Rightarrow> Status \<Rightarrow> DAGRunStatus" where
  "exStatus root name run attempt s = \<lparr>rs_Root = root, rs_Parent = root, rs_Name = name, rs_DAGRunID = run, rs_AttemptID = attempt,
     rs_AttemptKey = ''key'' @ attempt, rs_Status = s, rs_TriggerType = TriggerTypeManual, rs_WorkerID = ''w'', rs_PID = 0,
     rs_Nodes = [Some \<lparr>rn_Name = ''one'', rn_Status = NodeSucceeded, rn_FinishedAt = ''then'', rn_Error = ''''\<rparr>,
                 Some \<lparr>rn_Name = ''two'', rn_Status = NodeRunning, rn_FinishedAt = '''', rn_Error = ''''\<rparr>],
     rs_ScheduleTime = '''', rs_FinishedAt = '''', rs_ProcGroup = '''', rs_SuspendFlagName = '''', rs_Error = '''', rs_LeaseAt = 0\<rparr>"

definition exAttempt :: "DAGRunStatus \<Rightarrow> Attempt" where
  "exAttempt st = \<lparr>at_ID = rs_AttemptID st, at_Hidden = False, at_Lines = Some [Some st], at_CancelRequested = False\<rparr>"

definition exRef :: DAGRunRef where
  "exRef = NewDAGRunRef ''dag'' ''r''"

definition started :: "RunKey \<Rightarrow> DAGRunStatus \<Rightarrow> Coordinator \<Rightarrow> Coordinator" where
  "started k st co = (let st0 = st\<lparr>rs_Status := NotStarted\<rparr>
     in snd (ReportStatus okIO exConfig (10 ^ 9) ''w'' ''c'' (Some (Inr st)) (co\<lparr>co_runs := newAttempt k (exAttempt st0) (co_runs co)\<rparr>)))"

lemmas coord_eval = started_def noRuns_def newAttempt_def exAttempt_def exStatus_def exRef_def NewDAGRunRef_def zeroRef_def okIO_def okRun_def
  okTrack_def exConfig_def applyDefaults_def ReportStatus_def reportWrite_def resolveLatestAttempt_def FindAttempt_def FindSubAttempt_def FindByDAGRunID_def
  LatestAttempt_def Attempt_Exists_def ReadStatus_def attemptOf_def remoteStatusDecision_def sameAttemptStatus_def not_terminal
  replaceOpenAttempt_def Attempt_Write_def appendLine_def syncDistributedRunTrackingFromStatus_def syncLeaseFromStatus_def
  syncActiveDistributedRunFromStatus_def upsertActiveDistributedRun_def AttemptKeyForStatus_def nonEmptyOr_def queueNameForStatus_def
  Lease_Get_def readRecord_def Lease_Upsert_def stampLease_def writeRecord_def Active_Upsert_def stampActive_def IsRemoteWorkerID_def
  DAGRunStatus_DAGRun_def Let_def

lemma started_reach:
  assumes "coordReach exConfig co" "attemptFresh (exAttempt (st\<lparr>rs_Status := NotStarted\<rparr>)) (co_runs co)"
    "honestReport okIO st (co\<lparr>co_runs := newAttempt k (exAttempt (st\<lparr>rs_Status := NotStarted\<rparr>)) (co_runs co)\<rparr>)"
  shows "coordReach exConfig (started k st co)"
  unfolding started_def Let_def by (rule coord_step[OF coord_step[OF assms(1) step_new[OF assms(2)]] step_report]) (use assms(3) in simp)

text \<open>A run that succeeded; its worker reports late that it is running.\<close>

definition rootDone :: Coordinator where
  "rootDone = started (RootRun exRef) (exStatus zeroRef ''dag'' ''r'' ''i'' Succeeded) noRuns"

lemma rootDone_state: "coordReach exConfig rootDone"
  "statusAt (RootRun exRef, ''i'') (co_runs rootDone) = Some (exStatus zeroRef ''dag'' ''r'' ''i'' Succeeded)"
  "honestReport okIO (exStatus zeroRef ''dag'' ''r'' ''i'' Running) rootDone"
proof -
  show "coordReach exConfig rootDone"
    unfolding rootDone_def by (rule started_reach[OF coord_start]) (simp_all add: attemptFresh_def honestReport_def coord_eval)
  show "statusAt (RootRun exRef, ''i'') (co_runs rootDone) = Some (exStatus zeroRef ''dag'' ''r'' ''i'' Succeeded)"
    "honestReport okIO (exStatus zeroRef ''dag'' ''r'' ''i'' Running) rootDone"
    by (simp_all add: rootDone_def coord_eval statusAt_def honestReport_def Lease_Delete_def)
qed

theorem terminal_status_final_witness:
  "coordReach exConfig rootDone \<and> (\<exists>st'. statusAt (RootRun exRef, ''i'')
     (co_runs (snd (ReportStatus okIO exConfig (2 * 10 ^ 9) ''w'' ''c'' (Some (Inr (exStatus zeroRef ''dag'' ''r'' ''i'' Running))) rootDone))) = Some st'
     \<and> rs_Status st' = Succeeded)"
proof -
  have "coordStep exConfig rootDone
      (snd (ReportStatus okIO exConfig (2 * 10 ^ 9) ''w'' ''c'' (Some (Inr (exStatus zeroRef ''dag'' ''r'' ''i'' Running))) rootDone))"
    using rootDone_state(3) by (intro step_report) simp
  from terminal_status_final[OF rootDone_state(1) this rootDone_state(2)] show ?thesis
    using rootDone_state(1) by (simp add: not_terminal exStatus_def)
qed

end
