(* ===== verification/Coordinator_Zombies.thy ===== *)
theory Coordinator_Zombies
  imports Coordinator_Props
begin

text \<open>
  The detection of runs whose worker is gone: it fails every root run with a stale lease, keeps the results its steps already have,
  does not touch a run whose lease is fresh, and never fails a sub-run.
\<close>

section \<open>A stale lease fails its run\<close>

definition ioOk :: "CoordIO \<Rightarrow> bool" where
  "ioOk io \<longleftrightarrow> (\<forall>ref. runOk (ci_run io ref)) \<and> (\<forall>k. tio_lock (ci_lease io k) \<and> tio_remove (ci_lease io k))"

lemma casLoop_eval:
  assumes "runOk rio" "FindAttempt rio ref s = Ok h" "statusAt h s = Some st" "rs_AttemptID st = aid"
  shows "rs_Status st \<in> set es \<Longrightarrow> casLoop rio ref aid m es a s = (Ok (Some (m st, True)), snd (Attempt_Write rio h (m st) s))"
    and "rs_Status st \<notin> set es \<Longrightarrow> casLoop rio ref aid m es a s = (Ok (if es = [] then a else Some (st, False)), s)"
  using assms by (induction es arbitrary: a) (auto simp: cas_eval[OF assms])

lemma delete_lease_gone:
  assumes "ioOk io" "k \<noteq> ''''"
  shows "fmlookup (co_leases (deleteDistributedTracking io k co)) k = None"
  using assms by (simp add: deleteDistributedTracking_def deleteActiveDistributedRun_def deleteDistributedLease_def Lease_Delete_def
      removeRecord_def ioOk_def fmdom_notD)

lemma delete_lease_none:
  "fmlookup (co_leases co) k = None \<Longrightarrow> fmlookup (co_leases (deleteDistributedTracking io k' co)) k = None"
  by (simp add: deleteDistributedTracking_def deleteActiveDistributedRun_def deleteDistributedLease_def Lease_Delete_def removeRecord_def)

lemma upsertActive_leases [simp]: "co_leases (upsertActiveDistributedRun io now st w a co) = co_leases co"
  by (simp add: upsertActiveDistributedRun_def Let_def)

lemma failDistributed_lease_none:
  "fmlookup (co_leases co) k = None \<Longrightarrow> fmlookup (co_leases (failDistributedAttemptIfCurrent io ref aid k' r es co)) k = None"
  by (auto simp: failDistributedAttemptIfCurrent_def delete_lease_none split: sum.split option.split prod.split)

text \<open>The detector makes no leases.\<close>

lemma detector_lease_none:
  assumes "fmlookup (co_leases co) k = None"
  shows "fmlookup (co_leases (checkLease io cfg now l co)) k = None"
    "fmlookup (co_leases (checkIndexedRun io cfg now r co)) k = None"
    "fmlookup (co_leases (checkStatusLease io cfg now b st co)) k = None"
  using assms by (auto simp: checkLease_def markLeaseRunFailed_def checkIndexedRun_def checkStatusLease_def markStatusLeaseRunFailed_def
      failDistributed_lease_none delete_lease_none split: sum.split option.split prod.split)

lemma fold_lease_none:
  "(\<And>x co. fmlookup (co_leases co) k = None \<Longrightarrow> fmlookup (co_leases (f x co)) k = None)
    \<Longrightarrow> fmlookup (co_leases co) k = None \<Longrightarrow> fmlookup (co_leases (fold f xs co)) k = None"
  by (induction xs arbitrary: co) auto

lemma later_passes_lease_none:
  assumes "fmlookup (co_leases co) k = None"
  shows "fmlookup (co_leases (detectOrphanedDistributedStatuses io cfg now (detectIndexedDistributedStatuses io cfg now co))) k = None"
  using assms by (auto simp: detectOrphanedDistributedStatuses_def detectIndexedDistributedStatuses_def
      intro!: fold_lease_none detector_lease_none split: option.split sum.split)

text \<open>Checking a stale lease whose attempt is current: the run is failed and the lease removed.\<close>

lemma checkLease_stale:
  assumes "ioOk io" "\<not> IsFresh l now (hc_StaleLeaseThreshold cfg)" "le_AttemptID l \<noteq> ''''" "le_AttemptKey l \<noteq> ''''"
    and "FindAttempt (ci_run io (le_DAGRun l)) (le_DAGRun l) (co_runs co) = Ok h" "statusAt h (co_runs co) = Some st"
    "rs_AttemptID st = le_AttemptID l" "rs_Status st \<in> {Running, NotStarted, Queued, Failed}"
  shows "(\<exists>st'. statusAt h (co_runs (checkLease io cfg now l co)) = Some st' \<and> rs_Status st' = Failed)
    \<and> fmlookup (co_leases (checkLease io cfg now l co)) (le_AttemptKey l) = None"
proof -
  let ?rio = "ci_run io (le_DAGRun l)" and ?m = "failStatus (ci_finished io) (DistributedLeaseExpiredReason (le_WorkerID l))"
  have rio: "runOk ?rio" using assms(1) by (simp add: ioOk_def)
  note ev = casLoop_eval[OF rio assms(5,6,7), where es = "[Running, NotStarted, Queued]" and a = None and m = ?m]
  note gone = delete_lease_gone[OF assms(1,4)]
  show ?thesis
  proof (cases "rs_Status st = Failed")
    case True
    then have "checkLease io cfg now l co = deleteDistributedTracking io (le_AttemptKey l) co"
      using ev(2) assms(2,3,7) by (simp add: checkLease_def markLeaseRunFailed_def failDistributedAttemptIfCurrent_def Status_IsActive_def)
    then show ?thesis using gone assms(6) True by simp
  next
    case False
    then have "rs_Status st \<in> set [Running, NotStarted, Queued]" using assms(8) by auto
    note ev1 = ev(1)[OF this]
    have w: "Attempt_Write ?rio h (?m st) (co_runs co) = (Ok (), snd (Attempt_Write ?rio h (?m st) (co_runs co)))"
      using rio by (simp add: Attempt_Write_def runOk_def)
    have "checkLease io cfg now l co = deleteDistributedTracking io (le_AttemptKey l) (co\<lparr>co_runs := snd (Attempt_Write ?rio h (?m st) (co_runs co))\<rparr>)"
      using ev1 assms(2,3,7) by (simp add: checkLease_def markLeaseRunFailed_def failDistributedAttemptIfCurrent_def Status_IsActive_def)
    then show ?thesis using gone statusAt_write[OF w, of h] statusAt_attempt[OF assms(6)] by simp
  qed
qed

lemma failed_terminal: "isTerminalRunStatus Failed"
  by (simp add: not_terminal)

lemma detects_latest: "detects co co' \<Longrightarrow> coordWf co \<Longrightarrow> FindAttempt rio ref (co_runs co') = FindAttempt rio ref (co_runs co)"
  using coordWf_distinct unfolding detects_def sameAttempts_def by blast

lemma detects_status:
  assumes "detects co co'" "statusAt h (co_runs co) = Some st"
  obtains "statusAt h (co_runs co') = Some st" | f r where "statusAt h (co_runs co') = Some (failStatus f r st)"
  using assms unfolding detects_def by (metis option.inject)

lemma stale_lease_failed:
  assumes "coordReach cfg co" "ioOk io" "listingOk io" "Lease_ListAll (ci_listing io) (ci_digest io) (co_leases co) = Ok ls" "l \<in> set ls"
    and "\<not> IsFresh l now (hc_StaleLeaseThreshold cfg)" "le_AttemptID l \<noteq> ''''" "le_AttemptKey l \<noteq> ''''"
    and "FindAttempt (ci_run io (le_DAGRun l)) (le_DAGRun l) (co_runs co) = Ok h" "statusAt h (co_runs co) = Some st"
    "rs_AttemptID st = le_AttemptID l" "rs_Status st \<in> {Running, NotStarted, Queued}"
  shows "\<exists>st'. statusAt h (co_runs (detectStaleLeases io cfg now co)) = Some st' \<and> rs_Status st' = Failed
      \<and> (\<forall>i < length (rs_Nodes st). \<forall>n. rs_Nodes st ! i = Some n \<and> NodeStatus_IsDone (rn_Status n) \<longrightarrow> rs_Nodes st' ! i = Some n)
      \<and> fmlookup (co_leases (detectStaleLeases io cfg now co)) (le_AttemptKey l) = None"
proof -
  let ?check = "fold (checkLease io cfg now)" and ?co = "detectStaleLeases io cfg now co"
  obtain ls1 ls2 where ls: "ls = ls1 @ l # ls2" using assms(5) by (meson split_list)
  define c1 where "c1 = ?check ls1 co"
  define c2 where "c2 = checkLease io cfg now l c1"
  define c3 where "c3 = ?check ls2 c2"
  have e: "?co = detectOrphanedDistributedStatuses io cfg now (detectIndexedDistributedStatuses io cfg now c3)"
    using assms(4) by (simp add: detectStaleLeases_def ls c1_def c2_def c3_def)
  have d1: "detects co c1" unfolding c1_def by (intro detects_fold checkLease_detects)
  note wf = coordReach_wf[OF assms(1)]
  have f1: "FindAttempt (ci_run io (le_DAGRun l)) (le_DAGRun l) (co_runs c1) = Ok h" using detects_latest[OF d1 wf] assms(9) by simp
  obtain st1 where st1: "statusAt h (co_runs c1) = Some st1" "rs_AttemptID st1 = le_AttemptID l" "rs_Status st1 \<in> {Running, NotStarted, Queued, Failed}"
    by (rule detects_status[OF d1 assms(10)]) (use assms(11,12) in auto)
  obtain st2 where st2: "statusAt h (co_runs c2) = Some st2" "rs_Status st2 = Failed" and n2: "fmlookup (co_leases c2) (le_AttemptKey l) = None"
    using checkLease_stale[OF assms(2,6,7,8) f1 st1] unfolding c2_def by blast
  have "fmlookup (co_leases c3) (le_AttemptKey l) = None" unfolding c3_def by (rule fold_lease_none[OF _ n2]) (rule detector_lease_none(1))
  then have gone: "fmlookup (co_leases ?co) (le_AttemptKey l) = None" unfolding e by (rule later_passes_lease_none)
  have "detects c2 c3" unfolding c3_def by (intro detects_fold checkLease_detects)
  moreover have "detects c3 (detectIndexedDistributedStatuses io cfg now c3)"
    unfolding detectIndexedDistributedStatuses_def by (auto intro!: detects_fold checkIndexedRun_detects simp: detects_same split: sum.split)
  moreover have "detects c (detectOrphanedDistributedStatuses io cfg now c)" for c
    unfolding detectOrphanedDistributedStatuses_def using listing_detects[OF assms(3)] by (auto simp: detects_same split: option.split)
  ultimately have "detects c2 ?co" unfolding e using detects_trans by blast
  then obtain st' where st': "statusAt h (co_runs ?co) = Some st'" "rs_Status st' = Failed"
    using detects_terminal st2 failed_terminal unfolding keepsTerminal_def by metis
  have "st' = st \<or> (\<exists>f r. st' = failStatus f r st)"
    by (rule detects_status[OF detectStaleLeases_detects[OF assms(3), of co cfg now] assms(10)]) (use st'(1) in auto)
  then obtain f r where "st' = failStatus f r st" using st'(2) assms(12) by auto
  then have "rs_Nodes st' ! i = Some n" if "i < length (rs_Nodes st)" "rs_Nodes st ! i = Some n" "NodeStatus_IsDone (rn_Status n)" for i n
    using that by (auto simp: failStatus_def failNode_def NodeStatus_IsDone_def)
  then show ?thesis using st' gone by blast
qed

section \<open>Sub-runs\<close>

text \<open>C10: a run whose worker is gone is failed: when nothing fails in the stores, one pass of the detector marks every root run as failed whose
  latest attempt is running, not started or queued and whose lease is stale, removes the lease, and keeps the results of the
  steps that had finished.\<close>

theorem stale_lease_fails_run:
  assumes "coordReach cfg co" "ioOk io" "listingOk io" "Lease_ListAll (ci_listing io) (ci_digest io) (co_leases co) = Ok ls" "l \<in> set ls"
    and "\<not> IsFresh l now (hc_StaleLeaseThreshold cfg)" "le_AttemptID l \<noteq> ''''" "le_AttemptKey l \<noteq> ''''"
    and "FindAttempt (ci_run io (le_DAGRun l)) (le_DAGRun l) (co_runs co) = Ok h" "statusAt h (co_runs co) = Some st"
    "rs_AttemptID st = le_AttemptID l" "rs_Status st \<in> {Running, NotStarted, Queued}"
  shows "\<exists>st'. statusAt h (co_runs (detectStaleLeases io cfg now co)) = Some st' \<and> rs_Status st' = Failed
      \<and> (\<forall>i < length (rs_Nodes st). \<forall>n. rs_Nodes st ! i = Some n \<and> NodeStatus_IsDone (rn_Status n) \<longrightarrow> rs_Nodes st' ! i = Some n)
      \<and> fmlookup (co_leases (detectStaleLeases io cfg now co)) (le_AttemptKey l) = None"
  using stale_lease_failed[OF assms] .

text \<open>C21: the detector never fails a sub-run: whatever its lease and whoever its worker, the status of a sub-run is the same after
  a pass, because the compare-and-swap looks the run up among the root runs only.\<close>

theorem zombies_skip_subruns:
  assumes "listingOk io"
  shows "statusAt (SubRun root i, a) (co_runs (detectAndCleanupZombies io cfg now co)) = statusAt (SubRun root i, a) (co_runs co)"
  using zombies_detects[OF assms, of co cfg now] unfolding detects_def by (metis RunKey.distinct(1) fst_conv)

section \<open>Examples\<close>

definition rootRunning :: Coordinator where
  "rootRunning = started (RootRun exRef) (exStatus zeroRef ''dag'' ''r'' ''i'' Running) noRuns"

definition exLease :: "DAGRunRef \<Rightarrow> DAGRunRef \<Rightarrow> string \<Rightarrow> DAGRunLease" where
  "exLease root ref attempt = \<lparr>le_AttemptKey = ''key'' @ attempt, le_DAGRun = ref, le_Root = root, le_AttemptID = attempt, le_QueueName = dr_Name ref,
     le_WorkerID = ''w'', le_Owner = hc_Owner exConfig, le_ClaimedAt = 1000, le_LastHeartbeatAt = 1000\<rparr>"

lemma rootRunning_leases: "co_leases rootRunning = fmupd ''keyi'' (Some (exLease zeroRef exRef ''i'')) fmempty"
  by (simp add: rootRunning_def coord_eval exLease_def)

lemma rootRunning_runs: "statusAt (RootRun exRef, ''i'') (co_runs rootRunning) = Some (exStatus zeroRef ''dag'' ''r'' ''i'' Running)"
  "FindAttempt okRun exRef (co_runs rootRunning) = Ok (RootRun exRef, ''i'')"
  by (simp_all add: rootRunning_def coord_eval statusAt_def)

lemma rootRunning_reach: "coordReach exConfig rootRunning"
  unfolding rootRunning_def
  by (rule started_reach[OF coord_start]) (simp_all add: attemptFresh_def honestReport_def coord_eval)

lemma okIO_ok: "ioOk okIO" "listingOk okIO"
  by (simp_all add: ioOk_def listingOk_def okIO_def okTrack_def okRun_def runOk_def)

text \<open>An hour later the lease is stale.\<close>

lemma exLease_stale: "\<not> IsFresh (exLease root ref a) (3600 * second) (hc_StaleLeaseThreshold exConfig)"
  by (simp add: IsFresh_def exLease_def exConfig_def applyDefaults_def DefaultStaleLeaseThreshold_def second_def)

lemma listed_rootRunning: "Lease_ListAll (ci_listing okIO) (ci_digest okIO) (co_leases rootRunning) = Ok [exLease zeroRef exRef ''i'']"
  by (simp add: Lease_ListAll_def recordFiles_def rootRunning_leases sorted_list_of_fset.rep_eq okIO_def okTrack_def exLease_def)

theorem stale_lease_fails_run_witness:
  "\<exists>st'. statusAt (RootRun exRef, ''i'') (co_runs (detectStaleLeases okIO exConfig (3600 * second) rootRunning)) = Some st'
     \<and> rs_Status st' = Failed"
proof -
  from stale_lease_fails_run[OF rootRunning_reach okIO_ok listed_rootRunning _ exLease_stale,
      where h = "(RootRun exRef, ''i'')" and st = "exStatus zeroRef ''dag'' ''r'' ''i'' Running"]
  show ?thesis using rootRunning_runs by (auto simp: exLease_def exStatus_def okIO_def)
qed

definition subRunning :: Coordinator where
  "subRunning = started (SubRun exRef ''s'') (exStatus exRef ''child'' ''s'' ''j'' Running) rootRunning"

lemma subRunning_state:
  "fmlookup (co_leases subRunning) ''keyj'' = Some (Some (exLease exRef (NewDAGRunRef ''child'' ''s'') ''j''))"
  "statusAt (SubRun exRef ''s'', ''j'') (co_runs subRunning) = Some (exStatus exRef ''child'' ''s'' ''j'' Running)"
  by (simp_all add: subRunning_def rootRunning_def coord_eval statusAt_def exLease_def)

theorem zombies_skip_subruns_witness:
  "fmlookup (co_leases subRunning) ''keyj'' = Some (Some (exLease exRef (NewDAGRunRef ''child'' ''s'') ''j''))
   \<and> \<not> IsFresh (exLease exRef (NewDAGRunRef ''child'' ''s'') ''j'') (3600 * second) (hc_StaleLeaseThreshold exConfig)
   \<and> statusAt (SubRun exRef ''s'', ''j'') (co_runs (detectAndCleanupZombies okIO exConfig (3600 * second) subRunning))
       = Some (exStatus exRef ''child'' ''s'' ''j'' Running)"
  using zombies_skip_subruns[OF okIO_ok(2)] subRunning_state exLease_stale by simp

section \<open>A report beside the detector\<close>

text \<open>The coordinator after a restart: it has no attempt open.\<close>

definition restarted :: Coordinator where
  "restarted = rootRunning\<lparr>co_open := fmempty\<rparr>"

lemma restarted_reach: "coordReach exConfig restarted"
  unfolding restarted_def by (rule coord_step[OF rootRunning_reach step_restart])

lemma reportWrite_status:
  assumes "fmlookup (co_open co) (rs_DAGRunID incoming) = None" "runOk (ci_run io (NewDAGRunRef (rs_Name incoming) (rs_DAGRunID incoming)))"
    "attemptOf h (co_runs co) \<noteq> None"
  shows "statusAt h (co_runs (snd (reportWrite io cfg now w incoming h latest co))) = Some incoming"
proof -
  let ?rio = "ci_run io (NewDAGRunRef (rs_Name incoming) (rs_DAGRunID incoming))"
  have "Attempt_Write ?rio h incoming (co_runs co) = (Ok (), snd (Attempt_Write ?rio h incoming (co_runs co)))"
    using assms(2) by (simp add: Attempt_Write_def runOk_def)
  then show ?thesis
    using statusAt_write[of ?rio h incoming "co_runs co" "snd (Attempt_Write ?rio h incoming (co_runs co))" h] assms
    by (cases "Attempt_Write ?rio h incoming (co_runs co)") (simp add: reportWrite_def replaceOpenAttempt_def runOk_def Let_def)
qed

lemma restarted_failed:
  "\<exists>st. statusAt (RootRun exRef, ''i'') (co_runs (detectStaleLeases okIO exConfig (3600 * second) restarted)) = Some st \<and> rs_Status st = Failed"
proof -
  have "Lease_ListAll (ci_listing okIO) (ci_digest okIO) (co_leases restarted) = Ok [exLease zeroRef exRef ''i'']"
    using listed_rootRunning by (simp add: restarted_def)
  from stale_lease_failed[OF restarted_reach okIO_ok this _ exLease_stale,
      where h = "(RootRun exRef, ''i'')" and st = "exStatus zeroRef ''dag'' ''r'' ''i'' Running"]
  show ?thesis using rootRunning_runs by (auto simp: exLease_def exStatus_def okIO_def restarted_def)
qed

text \<open>C20: a failed run can be running again: a report takes the mutex of its run, but the detector does not.  When, after a restart
  of the coordinator, the report of a running worker has been accepted and the detector, which finds the lease stale, marks
  the run as failed before the report is written, the report is written nevertheless: the run that was failed is running again.\<close>

theorem report_revives_failed:
  "resolveLatestAttempt okIO ''dag'' ''r'' zeroRef (co_runs restarted) = Ok ((RootRun exRef, ''i''), exStatus zeroRef ''dag'' ''r'' ''i'' Running)
   \<and> remoteStatusDecision okIO exConfig (3600 * second) (exStatus zeroRef ''dag'' ''r'' ''i'' Running) (exStatus zeroRef ''dag'' ''r'' ''i'' Running) restarted = None
   \<and> (\<exists>st. statusAt (RootRun exRef, ''i'') (co_runs (detectStaleLeases okIO exConfig (3600 * second) restarted)) = Some st \<and> rs_Status st = Failed)
   \<and> statusAt (RootRun exRef, ''i'') (co_runs (snd (reportWrite okIO exConfig (3600 * second) ''w'' (exStatus zeroRef ''dag'' ''r'' ''i'' Running)
        (RootRun exRef, ''i'') (exStatus zeroRef ''dag'' ''r'' ''i'' Running) (detectStaleLeases okIO exConfig (3600 * second) restarted))))
       = Some (exStatus zeroRef ''dag'' ''r'' ''i'' Running)"
  (is "?resolved \<and> ?accepted \<and> ?failed \<and> ?again")
proof -
  let ?co = "detectStaleLeases okIO exConfig (3600 * second) restarted"
  have r: "ReadStatus okRun (RootRun exRef, ''i'') (co_runs rootRunning) = Ok (exStatus zeroRef ''dag'' ''r'' ''i'' Running)"
    using rootRunning_runs(1) by (simp add: ReadStatus_eq okRun_def)
  have "ci_run okIO ref = okRun" for ref by (simp add: okIO_def)
  then have a: "?resolved" using rootRunning_runs(2) r
    by (simp add: resolveLatestAttempt_def restarted_def zeroRef_def flip: exRef_def)
  have b: "?accepted" by (simp add: remoteStatusDecision_def sameAttemptStatus_def exStatus_def not_terminal)
  have "co_open ?co = fmempty" using detectStaleLeases_detects[OF okIO_ok(2)] by (simp add: detects_def restarted_def)
  moreover have "attemptOf (RootRun exRef, ''i'') (co_runs ?co) \<noteq> None" using restarted_failed statusAt_attempt by blast
  ultimately have "?again" using okIO_ok(1) by (intro reportWrite_status) (simp_all add: ioOk_def)
  then show ?thesis using a b restarted_failed by blast
qed

end
