(* ===== verification/Coordinator_Fresh.thy ===== *)
theory Coordinator_Fresh
  imports Coordinator_Zombies
begin

text \<open>A run whose worker keeps reporting is not failed by the detector.\<close>

section \<open>The run, its lease, and nothing else under its name\<close>

text \<open>
  The records belong to one attempt: no other lease or index record names the attempt, the index record of its key is its own, and a
  status in the listing that is of this run or has its key is the status the store has.
\<close>

definition soleTracking :: "CoordIO \<Rightarrow> Coordinator \<Rightarrow> string \<Rightarrow> AttemptHandle \<Rightarrow> DAGRunStatus \<Rightarrow> bool" where
  "soleTracking io co k h st \<longleftrightarrow>
     (\<forall>k' l. fmlookup (co_leases co) k' = Some (Some l) \<and> le_AttemptID l = rs_AttemptID st \<longrightarrow> le_AttemptKey l = k)
   \<and> (\<forall>k' r. fmlookup (co_active co) k' = Some (Some r) \<and> (ad_AttemptID r = rs_AttemptID st \<or> ad_AttemptKey r = k)
        \<longrightarrow> ad_AttemptKey r = k \<and> ad_DAGRun r = DAGRunStatus_DAGRun st \<and> dr_ID (ad_Root r) \<in> {'''', rs_DAGRunID st} \<and> ad_AttemptID r = rs_AttemptID st)
   \<and> (\<forall>s xs x a. ci_statuses io s = Some xs \<and> Some x \<in> set xs \<and> statusAt h s = Some st
        \<and> (DAGRunStatus_DAGRun x = DAGRunStatus_DAGRun st \<or> AttemptKeyForStatus x a = k) \<longrightarrow> x = st)"

text \<open>A live run: the latest attempt of a root run, worked on remotely, with a lease that matches.\<close>

definition liveRun :: "HandlerConfig \<Rightarrow> int \<Rightarrow> string \<Rightarrow> AttemptHandle \<Rightarrow> DAGRunStatus \<Rightarrow> DAGRunLease \<Rightarrow> Coordinator \<Rightarrow> bool" where
  "liveRun cfg now k h st l co \<longleftrightarrow> FindAttempt okRun (DAGRunStatus_DAGRun st) (co_runs co) = Ok h \<and> statusAt h (co_runs co) = Some st
     \<and> fmlookup (co_leases co) k = Some (Some l) \<and> le_AttemptKey l = k \<and> distinctIDs (co_runs co)
     \<and> rs_AttemptKey st = k \<and> k \<noteq> '''' \<and> rs_AttemptID st \<noteq> '''' \<and> rs_Status st \<in> {Running, NotStarted} \<and> IsRemoteWorkerID (rs_WorkerID st)
     \<and> LeaseMatchesStatus (Some l) st (rs_AttemptID st) now (hc_StaleLeaseThreshold cfg)"

lemma liveRun_update:
  assumes "liveRun cfg now k h st l co" "sameAttempts (co_runs co) (co_runs co')" "statusAt h (co_runs co') = statusAt h (co_runs co)"
    "fmlookup (co_leases co') k = fmlookup (co_leases co) k"
  shows "liveRun cfg now k h st l co'"
  using assms unfolding liveRun_def sameAttempts_def by auto

lemma deleteTracking_other: "k' \<noteq> k \<Longrightarrow> fmlookup (co_leases (deleteDistributedTracking io k' co)) k = fmlookup (co_leases co) k"
  by (simp add: deleteDistributedTracking_def deleteActiveDistributedRun_def deleteDistributedLease_def Lease_Delete_def removeRecord_def)

lemma failDistributed_other:
  "k' \<noteq> k \<Longrightarrow> fmlookup (co_leases (failDistributedAttemptIfCurrent io ref aid k' r es co)) k = fmlookup (co_leases co) k"
  by (auto simp: failDistributedAttemptIfCurrent_def deleteTracking_other split: sum.split option.split prod.split)

text \<open>Failing another attempt, or another run, under another key leaves a live run alone.\<close>

lemma failDistributed_live:
  assumes "liveRun cfg now k h st l co" "k' \<noteq> k" "aid \<noteq> rs_AttemptID st \<or> ref \<noteq> DAGRunStatus_DAGRun st"
  shows "liveRun cfg now k h st l (failDistributedAttemptIfCurrent io ref aid k' r es co)"
proof -
  have fo: "failsOnly ref aid (set es) (co_runs co) (co_runs (failDistributedAttemptIfCurrent io ref aid k' r es co))"
    by (rule failDistributed_failsOnly) simp
  have "fst h = RootRun (DAGRunStatus_DAGRun st)" "statusAt h (co_runs co) = Some st"
    using assms(1) find_key unfolding liveRun_def by blast+
  then have "statusAt h (co_runs (failDistributedAttemptIfCurrent io ref aid k' r es co)) = statusAt h (co_runs co)"
    using fo assms(3) unfolding failsOnly_def by (metis RunKey.inject(1) option.inject)
  then show ?thesis
    using liveRun_update[OF assms(1)] fo failDistributed_other[OF assms(2)] unfolding failsOnly_def by blast
qed

lemma delete_live: "liveRun cfg now k h st l co \<Longrightarrow> k' \<noteq> k \<Longrightarrow> liveRun cfg now k h st l (deleteDistributedTracking io k' co)"
  by (rule liveRun_update) (simp_all add: deleteTracking_other)

lemma upsertActive_live: "liveRun cfg now k h st l co \<Longrightarrow> liveRun cfg now k h st l (upsertActiveDistributedRun io n x w a co)"
  by (rule liveRun_update) simp_all

lemma key_of_live: "rs_AttemptKey st \<noteq> '''' \<Longrightarrow> AttemptKeyForStatus st a = rs_AttemptKey st"
  by (simp add: AttemptKeyForStatus_def)

section \<open>The three passes\<close>

lemma checkLease_live:
  assumes "liveRun cfg now k h st l co" "le_AttemptID l' = rs_AttemptID st \<Longrightarrow> l' = l" "le_AttemptKey l' = k \<Longrightarrow> l' = l"
  shows "liveRun cfg now k h st l (checkLease io cfg now l' co)"
proof (cases "IsFresh l' now (hc_StaleLeaseThreshold cfg)")
  case True
  then show ?thesis using assms(1) by (simp add: checkLease_def)
next
  case False
  moreover have "IsFresh l now (hc_StaleLeaseThreshold cfg)"
    using assms(1) by (auto simp: liveRun_def LeaseMatchesStatus_def Let_def split: if_splits)
  ultimately have "l' \<noteq> l" by blast
  then have "le_AttemptKey l' \<noteq> k" "le_AttemptID l' \<noteq> rs_AttemptID st" using assms(2,3) by blast+
  then show ?thesis
    using failDistributed_live[OF assms(1)] False by (simp add: checkLease_def markLeaseRunFailed_def)
qed

lemma find_io: "FindAttempt okRun ref s = Ok h \<Longrightarrow> FindAttempt rio ref s = (if rio_find rio then Ok h else Err ErrStoreIO)"
  by (auto simp: FindAttempt_def FindByDAGRunID_def okRun_def split: if_splits)

lemma resolve_live:
  assumes "liveRun cfg now k h st l co" "dr_ID root \<in> {'''', rs_DAGRunID st}"
  shows "resolveLatestAttempt io (rs_Name st) (rs_DAGRunID st) root (co_runs co) \<in> {Ok (h, st), Err ErrStoreIO}"
proof -
  have "FindAttempt okRun (NewDAGRunRef (rs_Name st) (rs_DAGRunID st)) (co_runs co) = Ok h" "statusAt h (co_runs co) = Some st"
    using assms(1) by (simp_all add: liveRun_def DAGRunStatus_DAGRun_def)
  then show ?thesis
    using assms(2) find_io ReadStatus_eq
    by (auto simp: resolveLatestAttempt_def Let_def ReadStatus_def statusAt_def split: option.splits)
qed

lemma leaseOrNil_live:
  assumes "liveRun cfg now k h st l co"
  shows "leaseOrNil io k co \<in> {None, Some (Some l)}"
  using assms by (auto simp: liveRun_def leaseOrNil_def Lease_Get_def readRecord_def)

lemma checkIndexedRun_live:
  assumes "liveRun cfg now k h st l co"
    and "ad_AttemptID r = rs_AttemptID st \<or> ad_AttemptKey r = k \<Longrightarrow>
      ad_AttemptKey r = k \<and> ad_DAGRun r = DAGRunStatus_DAGRun st \<and> dr_ID (ad_Root r) \<in> {'''', rs_DAGRunID st} \<and> ad_AttemptID r = rs_AttemptID st"
  shows "liveRun cfg now k h st l (checkIndexedRun io cfg now r co)"
proof (cases "ad_AttemptKey r = k")
  case True
  note r = assms(2)[OF disjI2[OF True]]
  note L = assms(1)[unfolded liveRun_def]
  have "indexedDistributedRunMatchesStatus r st"
    using r L by (auto simp: indexedDistributedRunMatchesStatus_def key_of_live nonEmptyOr_def)
  moreover have "resolveLatestAttempt io (dr_Name (ad_DAGRun r)) (dr_ID (ad_DAGRun r)) (ad_Root r) (co_runs co) \<in> {Ok (h, st), Err ErrStoreIO}"
    using resolve_live[OF assms(1)] r by (simp add: DAGRunStatus_DAGRun_def NewDAGRunRef_def)
  ultimately show ?thesis
    using leaseOrNil_live[OF assms(1), of io] upsertActive_live[OF assms(1)] r L assms(1) by (auto simp: checkIndexedRun_def)
next
  case False
  then have "ad_AttemptID r \<noteq> rs_AttemptID st" using assms(2) by blast
  then show ?thesis
    using failDistributed_live[OF assms(1) False] delete_live[OF assms(1) False] upsertActive_live[OF assms(1)] assms(1)
    by (auto simp: checkIndexedRun_def markStatusLeaseRunFailed_def split: sum.split option.split)
qed

lemma checkStatusLease_live:
  assumes "liveRun cfg now k h st l co"
    and "\<And>a. DAGRunStatus_DAGRun x = DAGRunStatus_DAGRun st \<or> AttemptKeyForStatus x a = k \<Longrightarrow> x = st"
  shows "liveRun cfg now k h st l (checkStatusLease io cfg now b (Some x) co)"
proof (cases "x = st")
  case True
  note L = assms(1)[unfolded liveRun_def]
  have "loadDistributedLeaseForStatus io st co \<in> {None, Some (rs_AttemptID st, k, Some l)}"
    using L leaseOrNil_live[OF assms(1), of io]
    by (auto simp: loadDistributedLeaseForStatus_def resolveAttemptIDForStatus_def key_of_live Let_def)
  then show ?thesis using True L assms(1) upsertActive_live[OF assms(1)] by (auto simp: checkStatusLease_def)
next
  case False
  then have "DAGRunStatus_DAGRun x \<noteq> DAGRunStatus_DAGRun st" "AttemptKeyForStatus x a \<noteq> k" for a using assms(2) by blast+
  then have f: "liveRun cfg now k h st l (markStatusLeaseRunFailed io x a (AttemptKeyForStatus x a) y co)" for a y
    unfolding markStatusLeaseRunFailed_def by (intro failDistributed_live[OF assms(1)]) simp_all
  have "\<exists>a. p = (a, AttemptKeyForStatus x a, snd (snd p))" if "loadDistributedLeaseForStatus io x co = Some p" for p
    using that by (auto simp: loadDistributedLeaseForStatus_def Let_def split: sum.splits if_splits)
  then show ?thesis
    using f assms(1) upsertActive_live[OF assms(1)] by (fastforce simp: checkStatusLease_def split: option.split)
qed

lemma fold_live:
  "liveRun cfg now k h st l co \<Longrightarrow> (\<And>x co. x \<in> set xs \<Longrightarrow> liveRun cfg now k h st l co \<Longrightarrow> liveRun cfg now k h st l (f x co))
    \<Longrightarrow> liveRun cfg now k h st l (fold f xs co)"
  by (rule fold_invariant_list)

lemma failDistributed_active:
  "fmlookup (co_active (failDistributedAttemptIfCurrent io ref aid k' r es co)) k = Some x \<Longrightarrow> fmlookup (co_active co) k = Some x"
  by (auto simp: failDistributedAttemptIfCurrent_def deleteDistributedTracking_def deleteActiveDistributedRun_def deleteDistributedLease_def
      Active_Delete_def removeRecord_def split: sum.splits option.splits prod.splits if_splits)

lemma checkLeases_active: "fmlookup (co_active (fold (checkLease io cfg now) ls co)) k = Some x \<Longrightarrow> fmlookup (co_active co) k = Some x"
proof (induction ls arbitrary: co)
  case (Cons l ls)
  have "fmlookup (co_active (checkLease io cfg now l co)) k = Some x" by (rule Cons.IH) (use Cons.prems in simp)
  then show ?case unfolding checkLease_def markLeaseRunFailed_def by (auto dest: failDistributed_active split: if_splits)
qed simp

lemma listed_lease: "leaseReach d \<Longrightarrow> Lease_ListAll tio digest d = Ok ls \<Longrightarrow> l \<in> set ls \<Longrightarrow> fmlookup d (le_AttemptKey l) = Some (Some l)"
  using leases.listing_exact[OF leaseReach_proper] by (cases "tio_read tio") (auto simp: Lease_ListAll_def Let_def split: if_splits)

lemma listed_active: "Active_ListAll tio digest d = Ok rs \<Longrightarrow> r \<in> set rs \<Longrightarrow> \<exists>k. fmlookup d k = Some (Some r)"
  using active.listing_mem active.recordFiles_mem by (cases "tio_read tio") (fastforce simp: Active_ListAll_def split: if_splits)+

text \<open>C11: a run whose worker keeps reporting is not failed: a pass of the detector, with any failures of the stores, leaves the status
  of a remote run that is running or not started as it is and keeps its lease, when the lease is fresh and matches the status and no
  other record names the attempt.\<close>

theorem fresh_lease_not_failed:
  assumes "liveRun cfg now k h st l co" "leaseReach (co_leases co)" "soleTracking io co k h st"
  shows "statusAt h (co_runs (detectStaleLeases io cfg now co)) = Some st \<and> fmlookup (co_leases (detectStaleLeases io cfg now co)) k = Some (Some l)"
proof (cases "Lease_ListAll (ci_listing io) (ci_digest io) (co_leases co)")
  case (Inl e)
  then show ?thesis using assms(1) by (simp add: detectStaleLeases_def liveRun_def)
next
  case (Inr ls)
  have lk: "fmlookup (co_leases co) k = Some (Some l)" using assms(1) by (simp add: liveRun_def)
  define c1 where "c1 = fold (checkLease io cfg now) ls co"
  have l1: "liveRun cfg now k h st l c1"
    unfolding c1_def
  proof (rule fold_live[OF assms(1)], rule checkLease_live)
    fix l'
    assume "l' \<in> set ls"
    note l' = listed_lease[OF assms(2) Inr this]
    show "l' = l" if "le_AttemptKey l' = k" using that l' lk by simp
    show "l' = l" if "le_AttemptID l' = rs_AttemptID st" using that l' lk assms(3) unfolding soleTracking_def by (metis option.inject)
  qed
  have l2: "liveRun cfg now k h st l (checkIndexedRun io cfg now r c)" if "Active_ListAll (ci_listing io) (ci_digest io) (co_active c1) = Ok rs"
    "r \<in> set rs" "liveRun cfg now k h st l c" for rs r c
    using checkIndexedRun_live[OF that(3)] listed_active[OF that(1,2)] checkLeases_active assms(3) unfolding c1_def soleTracking_def by metis
  have "liveRun cfg now k h st l (detectIndexedDistributedStatuses io cfg now c1)"
  proof (cases "Active_ListAll (ci_listing io) (ci_digest io) (co_active c1)")
    case (Inr rs)
    then show ?thesis using fold_live[OF l1 l2[OF Inr]] by (simp add: detectIndexedDistributedStatuses_def)
  qed (simp add: detectIndexedDistributedStatuses_def l1)
  then obtain c2 where c2: "detectIndexedDistributedStatuses io cfg now c1 = c2" "liveRun cfg now k h st l c2" by blast
  have l3: "liveRun cfg now k h st l (checkStatusLease io cfg now False x c)" if "ci_statuses io (co_runs c2) = Some xs" "x \<in> set xs"
    "liveRun cfg now k h st l c" for xs x c
  proof (cases x)
    case (Some y)
    have "statusAt h (co_runs c2) = Some st" using c2(2) by (simp add: liveRun_def)
    then show ?thesis using checkStatusLease_live[OF that(3)] assms(3) that(1,2) Some unfolding soleTracking_def by metis
  qed (use that(3) in \<open>simp add: checkStatusLease_def\<close>)
  have "liveRun cfg now k h st l (detectOrphanedDistributedStatuses io cfg now c2)"
  proof (cases "ci_statuses io (co_runs c2)")
    case (Some xs)
    then show ?thesis using fold_live[OF c2(2) l3[OF Some]] by (simp add: detectOrphanedDistributedStatuses_def)
  qed (simp add: detectOrphanedDistributedStatuses_def c2(2))
  moreover have "detectStaleLeases io cfg now co = detectOrphanedDistributedStatuses io cfg now c2"
    using Inr c2(1) by (simp add: detectStaleLeases_def c1_def)
  ultimately show ?thesis by (simp add: liveRun_def)
qed

theorem fresh_lease_not_failed_witness:
  "statusAt (RootRun exRef, ''i'') (co_runs (detectStaleLeases okIO exConfig (20 * second) rootRunning)) = Some (exStatus zeroRef ''dag'' ''r'' ''i'' Running)"
proof -
  let ?st = "exStatus zeroRef ''dag'' ''r'' ''i'' Running" and ?h = "(RootRun exRef, ''i'')" and ?l = "exLease zeroRef exRef ''i''"
  have live: "liveRun exConfig (20 * second) ''keyi'' ?h ?st ?l rootRunning"
    unfolding liveRun_def
    using rootRunning_runs rootRunning_leases coordWf_distinct[OF coordReach_wf[OF rootRunning_reach]]
    by (simp add: exLease_def exStatus_def exRef_def DAGRunStatus_DAGRun_def IsRemoteWorkerID_def LeaseMatchesStatus_def IsFresh_def key_of_live
        nonEmptyOr_def exConfig_def applyDefaults_def DefaultStaleLeaseThreshold_def second_def DAGRunRef_Zero_def NewDAGRunRef_def zeroRef_def Let_def)
  have "leaseReach (snd (Lease_Upsert okTrack 0 ?l fmempty))" by (rule lease_upsert[OF lease_start])
  moreover have "snd (Lease_Upsert okTrack 0 ?l fmempty) = co_leases rootRunning"
    by (simp add: rootRunning_leases Lease_Upsert_def stampLease_def writeRecord_def okTrack_def exLease_def)
  moreover have "co_active rootRunning = fmupd ''keyi'' (Some \<lparr>ad_AttemptKey = ''keyi'', ad_DAGRun = exRef, ad_Root = zeroRef, ad_AttemptID = ''i'',
      ad_WorkerID = ''w'', ad_Status = Running, ad_UpdatedAt = 1000\<rparr>) fmempty"
    by (simp add: rootRunning_def coord_eval)
  then have "soleTracking okIO rootRunning ''keyi'' ?h ?st"
    by (auto simp: soleTracking_def rootRunning_leases exLease_def exStatus_def okIO_def exRef_def zeroRef_def DAGRunStatus_DAGRun_def NewDAGRunRef_def split: if_splits)
  ultimately show ?thesis using fresh_lease_not_failed[OF live] by metis
qed

end
