(* ===== verification/Dispatch_Props.thy ===== *)
theory Dispatch_Props
  imports Dispatch_Store "HOL-Library.Multiset"
begin

text \<open>
  Properties of the dispatch store: no operation loses or duplicates a task, whatever fails; a claim stays exclusive
  until it times out; and the race by which a task that was acknowledged comes back.
\<close>

section \<open>Bags of files\<close>

definition bagOf :: "('v \<Rightarrow> 'b) \<Rightarrow> ('k, 'v) fmap \<Rightarrow> 'b multiset" where
  "bagOf g m = image_mset (\<lambda>k. g (the (fmlookup m k))) (mset_set (fset (fmdom m)))"

lemma bagOf_new: "fmlookup m k = None \<Longrightarrow> bagOf g (fmupd k v m) = add_mset (g v) (bagOf g m)"
proof -
  assume k: "fmlookup m k = None"
  then have "k \<notin> fset (fmdom m)" by (simp add: fmlookup_dom_iff)
  moreover from this have "image_mset (\<lambda>j. g (the (fmlookup (fmupd k v m) j))) (mset_set (fset (fmdom m)))
      = image_mset (\<lambda>j. g (the (fmlookup m j))) (mset_set (fset (fmdom m)))"
    by (intro image_mset_cong) auto
  ultimately show ?thesis by (simp add: bagOf_def)
qed

lemma bagOf_drop: "fmlookup m k = Some v \<Longrightarrow> bagOf g m = add_mset (g v) (bagOf g (fmdrop k m))"
proof -
  assume k: "fmlookup m k = Some v"
  then have "m = fmupd k v (fmdrop k m)" by (intro fmap_ext) auto
  then have "bagOf g m = bagOf g (fmupd k v (fmdrop k m))" by simp
  also have "\<dots> = add_mset (g v) (bagOf g (fmdrop k m))" by (rule bagOf_new) simp
  finally show ?thesis .
qed

lemma bagOf_upd: "fmlookup m k = Some v' \<Longrightarrow> g v = g v' \<Longrightarrow> bagOf g (fmupd k v m) = bagOf g m"
proof -
  assume k: "fmlookup m k = Some v'" "g v = g v'"
  have e: "fmdrop k (fmupd k v m) = fmdrop k m" by (intro fmap_ext) auto
  show ?thesis using bagOf_drop[OF k(1), of g] bagOf_drop[of "fmupd k v m" k v g] k(2) unfolding e by simp
qed

lemma bagOf_empty [simp]: "bagOf g fmempty = {#}"
  by (simp add: bagOf_def)

lemma bagOf_mem: "fmlookup m k = Some v \<Longrightarrow> g v \<in># bagOf g m"
  using bagOf_drop[of m k v g] by simp

section \<open>The tasks in the store\<close>

text \<open>What identifies a task: the name of its file and the fields that claims do not touch.\<close>

definition taskCore :: "Task \<Rightarrow> Task" where
  "taskCore t = t\<lparr>tk_OwnerCoordinatorId := '''', tk_OwnerCoordinatorHost := '''', tk_OwnerCoordinatorPort := 0,
     tk_ClaimToken := '''', tk_WorkerId := ''''\<rparr>"

definition ident :: "dispatchTaskFile \<times> int \<Rightarrow> string \<times> Task option" where
  "ident x = (df_TaskFileName (fst x), map_option taskCore (df_Task (fst x)))"

definition taskBag :: "DispatchTaskStore \<Rightarrow> (string \<times> Task option) multiset" where
  "taskBag s = bagOf ident (ds_pending s) + bagOf ident (ds_claims s)"

definition dispInv :: "DispatchTaskStore \<Rightarrow> bool" where
  "dispInv s \<longleftrightarrow> (\<forall>f x. fmlookup (ds_pending s) f = Some x \<longrightarrow> df_TaskFileName (fst x) = f)
     \<and> (\<forall>n. count (image_mset fst (taskBag s)) n \<le> 1)"

lemma dispInv_name: "dispInv s \<Longrightarrow> fmlookup (ds_pending s) f = Some x \<Longrightarrow> df_TaskFileName (fst x) = f"
  unfolding dispInv_def by blast

lemma dispInv_count: "dispInv s \<Longrightarrow> count (image_mset fst (taskBag s)) n \<le> 1"
  unfolding dispInv_def by blast

lemma ident_cleared [simp]: "ident (clearedFile r, m) = ident (r, m')"
  by (cases "df_Task r") (simp_all add: ident_def clearedFile_def clearTaskClaim_def taskCore_def)

lemma ident_time: "ident (fst x, m) = ident x"
  by (simp add: ident_def)

lemma ident_name: "fst (ident x) = df_TaskFileName (fst x)"
  by (simp add: ident_def)

lemma ident_claimed:
  "applyTaskClaim t owner token = Inr t' \<Longrightarrow> df_Task r = Some t \<Longrightarrow> ident (claimedFile claim token now t' r, m) = ident (r, m')"
  by (auto simp: ident_def claimedFile_def applyTaskClaim_def taskCore_def split: if_splits)

text \<open>A claimed file is not pending under its name, so renaming it back overwrites nothing.\<close>

lemma claimed_not_pending:
  assumes "dispInv s" "fmlookup (ds_claims s) c = Some x"
  shows "fmlookup (ds_pending s) (df_TaskFileName (fst x)) = None"
proof (rule ccontr)
  assume "fmlookup (ds_pending s) (df_TaskFileName (fst x)) \<noteq> None"
  then obtain y where y: "fmlookup (ds_pending s) (df_TaskFileName (fst x)) = Some y" by blast
  then have n: "df_TaskFileName (fst y) = df_TaskFileName (fst x)" by (rule dispInv_name[OF assms(1)])
  have "image_mset fst (taskBag s) = add_mset (fst (ident y)) (add_mset (fst (ident x))
      (image_mset fst (bagOf ident (fmdrop (df_TaskFileName (fst x)) (ds_pending s)) + bagOf ident (fmdrop c (ds_claims s)))))"
    unfolding taskBag_def bagOf_drop[OF y] bagOf_drop[OF assms(2)] by simp
  then have "count (image_mset fst (taskBag s)) (df_TaskFileName (fst x)) \<ge> 2" using n by (simp add: ident_name)
  moreover have "count (image_mset fst (taskBag s)) (df_TaskFileName (fst x)) \<le> 1" by (rule dispInv_count[OF assms(1)])
  ultimately show False by simp
qed

lemma dispInv_cong:
  assumes "dispInv s" "taskBag s' = taskBag s" "\<And>f x. fmlookup (ds_pending s') f = Some x \<Longrightarrow> df_TaskFileName (fst x) = f"
  shows "dispInv s'"
  unfolding dispInv_def assms(2) using assms(3) dispInv_count[OF assms(1)] by blast

definition keeps :: "DispatchTaskStore \<Rightarrow> DispatchTaskStore \<Rightarrow> bool" where
  "keeps s s' \<longleftrightarrow> dispInv s' \<and> taskBag s' = taskBag s"

lemma keeps_refl: "dispInv s \<Longrightarrow> keeps s s"
  by (simp add: keeps_def)

lemma keeps_trans: "keeps s t \<Longrightarrow> keeps t u \<Longrightarrow> keeps s u"
  by (simp add: keeps_def)

lemma keepsI:
  assumes "dispInv s" "taskBag s' = taskBag s" "\<And>f x. fmlookup (ds_pending s') f = Some x \<Longrightarrow> df_TaskFileName (fst x) = f"
  shows "keeps s s'"
  unfolding keeps_def using dispInv_cong[OF assms] assms(2) by blast

text \<open>Moving a file from the claims to the pending tasks and back.\<close>

lemma keeps_to_pending:
  assumes "dispInv s" "fmlookup (ds_claims s) c = Some x"
  shows "keeps s (s\<lparr>ds_claims := fmdrop c (ds_claims s), ds_pending := fmupd (df_TaskFileName (fst x)) x (ds_pending s)\<rparr>)"
proof -
  let ?s = "s\<lparr>ds_claims := fmdrop c (ds_claims s), ds_pending := fmupd (df_TaskFileName (fst x)) x (ds_pending s)\<rparr>"
  have "taskBag ?s = taskBag s"
    using bagOf_new[OF claimed_not_pending[OF assms], of ident x] bagOf_drop[OF assms(2), of ident] by (simp add: taskBag_def)
  moreover have "df_TaskFileName (fst y) = g" if "fmlookup (ds_pending ?s) g = Some y" for g y
    using that dispInv_name[OF assms(1), of g y] by (simp split: if_splits)
  ultimately show ?thesis by (rule keepsI[OF assms(1)])
qed

lemma keeps_to_claims:
  assumes "dispInv s" "fmlookup (ds_pending s) f = Some x" "fmlookup (ds_claims s) c = None"
  shows "keeps s (s\<lparr>ds_pending := fmdrop f (ds_pending s), ds_claims := fmupd c x (ds_claims s)\<rparr>)"
proof -
  let ?s = "s\<lparr>ds_pending := fmdrop f (ds_pending s), ds_claims := fmupd c x (ds_claims s)\<rparr>"
  have "taskBag ?s = taskBag s"
    using bagOf_new[OF assms(3), of ident x] bagOf_drop[OF assms(2), of ident] by (simp add: taskBag_def)
  moreover have "df_TaskFileName (fst y) = g" if "fmlookup (ds_pending ?s) g = Some y" for g y
    using that dispInv_name[OF assms(1), of g y] by (simp split: if_splits)
  ultimately show ?thesis by (rule keepsI[OF assms(1)])
qed

lemma keeps_rewrite:
  assumes "dispInv s" "fmlookup (ds_claims s) c = Some x" "ident y = ident x"
  shows "keeps s (s\<lparr>ds_claims := fmupd c y (ds_claims s)\<rparr>)"
proof -
  let ?s = "s\<lparr>ds_claims := fmupd c y (ds_claims s)\<rparr>"
  have "taskBag ?s = taskBag s" using bagOf_upd[OF assms(2,3)] by (simp add: taskBag_def)
  moreover have "df_TaskFileName (fst y) = g" if "fmlookup (ds_pending ?s) g = Some y" for g y
    using that dispInv_name[OF assms(1), of g y] by (simp split: if_splits)
  ultimately show ?thesis by (rule keepsI[OF assms(1)])
qed

section \<open>Every operation keeps the tasks\<close>

lemma recycleOne_keeps:
  assumes "dispInv s"
  shows "keeps s (snd (recycleOne io timeout now f s))"
proof (cases "recycleRead io timeout now f s")
  case (Inl e)
  then show ?thesis using keeps_refl[OF assms] by (simp add: recycleOne_def)
next
  case (Inr d)
  show ?thesis
  proof (cases d)
    case None
    then show ?thesis using Inr keeps_refl[OF assms] by (simp add: recycleOne_def)
  next
    case (Some r)
    obtain x where x: "fmlookup (ds_claims s) f = Some x" "r = clearedFile (fst x)"
      using Inr Some by (auto simp: recycleRead_def Let_def split: option.splits if_splits)
    define s1 where "s1 = s\<lparr>ds_claims := fmupd f (r, now) (ds_claims s)\<rparr>"
    have k: "keeps s s1" unfolding s1_def by (rule keeps_rewrite[OF assms x(1)]) (metis ident_cleared x(2) prod.collapse)
    have c: "fmlookup (ds_claims s1) f = Some (r, now)" by (simp add: s1_def)
    have "keeps s1 (snd (recycleRename io f s1))"
      using keeps_to_pending[OF _ c] keeps_refl k by (auto simp: recycleRename_def c keeps_def)
    then have "keeps s (snd (recycleRename io f s1))" by (rule keeps_trans[OF k])
    then show ?thesis using Inr Some keeps_refl[OF assms] by (simp add: recycleOne_def recycleWrite_def s1_def)
  qed
qed

lemma recycleLoop_keeps: "dispInv s \<Longrightarrow> keeps s (snd (recycleLoop io timeout now fs s))"
proof (induction fs arbitrary: s)
  case (Cons f fs)
  have k: "keeps s (snd (recycleOne io timeout now f s))" by (rule recycleOne_keeps[OF Cons.prems])
  then have "keeps s (snd (recycleLoop io timeout now fs (snd (recycleOne io timeout now f s))))"
    using Cons.IH keeps_trans by (meson keeps_def)
  then show ?case using k by (auto split: prod.split sum.split)
qed (simp add: keeps_refl)

lemma recycle_keeps: "dispInv s \<Longrightarrow> keeps s (snd (recycleExpiredClaims io t now s))"
  using recycleLoop_keeps keeps_refl by (simp add: recycleExpiredClaims_def)

lemma unclaim_keeps:
  assumes "dispInv s" "fmlookup (ds_claims s) c = Some x" "f = df_TaskFileName (fst x)"
  shows "keeps s (unclaim io c f s)"
  using keeps_to_pending[OF assms(1,2)] keeps_refl[OF assms(1)] assms(2,3) by (simp add: unclaim_def)

lemma claimFile_keeps:
  assumes "dispInv s" "fmlookup (ds_pending s) f = Some x" "df_Task (fst x) = Some t" "fmlookup (ds_claims s) (claimPath key token) = None"
  shows "keeps s (snd (claimFile io key claim now token f x t s))"
proof -
  let ?c = "claimPath key token"
  define s1 where "s1 = s\<lparr>ds_pending := fmdrop f (ds_pending s), ds_claims := fmupd ?c x (ds_claims s)\<rparr>"
  define s2 where "s2 = s1\<lparr>ds_claims := fmupd ?c (fst x, now) (ds_claims s1)\<rparr>"
  have f: "f = df_TaskFileName (fst x)" using dispInv_name[OF assms(1,2)] by simp
  have k1: "keeps s s1" unfolding s1_def by (rule keeps_to_claims[OF assms(1,2,4)])
  have l1: "fmlookup (ds_claims s1) ?c = Some x" by (simp add: s1_def)
  have k2: "keeps s1 s2" unfolding s2_def by (rule keeps_rewrite[OF _ l1]) (use k1 in \<open>simp_all add: keeps_def ident_time\<close>)
  have l2: "fmlookup (ds_claims s2) ?c = Some (fst x, now)" by (simp add: s2_def)
  have inv: "dispInv s1" "dispInv s2" using k1 k2 by (simp_all add: keeps_def)
  note k12 = keeps_trans[OF k1 k2]
  have u1: "keeps s (unclaim io ?c f s1)" by (rule keeps_trans[OF k1 unclaim_keeps[OF inv(1) l1 f]])
  have u2: "keeps s (unclaim io ?c f s2)" by (rule keeps_trans[OF k12 unclaim_keeps[OF inv(2) l2]]) (simp add: f)
  have w: "keeps s (s2\<lparr>ds_claims := fmupd ?c (claimedFile claim token now t' (fst x), now) (ds_claims s2)\<rparr>)"
    if "applyTaskClaim t (dc_Owner claim) token = Inr t'" for t'
    by (rule keeps_trans[OF k12 keeps_rewrite[OF inv(2) l2]]) (rule ident_claimed[OF that assms(3)])
  show ?thesis
    unfolding claimFile_def Let_def s1_def[symmetric] s2_def[symmetric]
    using keeps_refl[OF assms(1)] u1 u2 w by (auto split: sum.split)
qed

lemma claimLoop_keeps:
  assumes "dispInv s" "fmlookup (ds_claims s) (claimPath key token) = None"
  shows "keeps s (snd (claimLoop io key claim now token fs s))"
  using keeps_refl[OF assms(1)] claimFile_keeps[OF assms(1) _ _ assms(2)]
  by (induction fs) (auto split: option.split)

text \<open>Recycling leaves alone a claim that is stamped and has not timed out, and makes no claim.\<close>

definition unexpired :: "int \<Rightarrow> string \<Rightarrow> DispatchTaskStore \<Rightarrow> bool" where
  "unexpired deadline c s \<longleftrightarrow> (case fmlookup (ds_claims s) c of
     None \<Rightarrow> True | Some (r, _) \<Rightarrow> df_ClaimedAt r > 0 \<and> deadline < df_ClaimedAt r * 10 ^ 6)"

lemma recycleOne_frame:
  assumes "unexpired (now - timeout) c s"
  shows "fmlookup (ds_claims (snd (recycleOne io timeout now f s))) c = fmlookup (ds_claims s) c"
proof (cases "f = c")
  case True
  then have "recycleRead io timeout now f s \<noteq> Inr (Some r)" for r
    using assms by (auto simp: recycleRead_def unexpired_def Let_def split: option.splits)
  then show ?thesis by (auto simp: recycleOne_def split: sum.split option.split)
next
  case False
  then show ?thesis
    by (auto simp: recycleOne_def recycleWrite_def recycleRename_def split: sum.split option.split)
qed

lemma recycleLoop_frame:
  "unexpired (now - timeout) c s \<Longrightarrow> fmlookup (ds_claims (snd (recycleLoop io timeout now fs s))) c = fmlookup (ds_claims s) c"
proof (induction fs arbitrary: s)
  case (Cons f fs)
  define s1 where "s1 = snd (recycleOne io timeout now f s)"
  have l: "fmlookup (ds_claims s1) c = fmlookup (ds_claims s) c" unfolding s1_def by (rule recycleOne_frame[OF Cons.prems])
  then have "unexpired (now - timeout) c s1" using Cons.prems by (simp add: unexpired_def)
  then have "fmlookup (ds_claims (snd (recycleLoop io timeout now fs s1))) c = fmlookup (ds_claims s) c" using Cons.IH l by simp
  then show ?case using l by (cases "recycleOne io timeout now f s") (simp add: s1_def split: sum.split)
qed simp

lemma recycle_frame:
  "unexpired (now - orDefaultTimeout t) c s \<Longrightarrow> fmlookup (ds_claims (snd (recycleExpiredClaims io t now s))) c = fmlookup (ds_claims s) c"
  using recycleLoop_frame by (simp add: recycleExpiredClaims_def)

lemma ClaimNext_snd:
  "snd (ClaimNext io key now token claim s) =
    (let (r, s1) = recycleExpiredClaims io (dc_ClaimTimeout claim) now s
     in if isl r \<or> \<not> dio_listPending io then s1 else snd (claimLoop io key claim now token (sortedFiles (ds_pending s1)) s1))"
  by (cases "recycleExpiredClaims io (dc_ClaimTimeout claim) now s") (simp add: ClaimNext_def split: sum.split)

lemma ClaimNext_keeps:
  assumes "dispInv s" "fmlookup (ds_claims s) (claimPath key token) = None"
  shows "keeps s (snd (ClaimNext io key now token claim s))"
proof -
  obtain r s1 where r: "recycleExpiredClaims io (dc_ClaimTimeout claim) now s = (r, s1)" by fastforce
  have k: "keeps s s1" using recycle_keeps[OF assms(1), of io "dc_ClaimTimeout claim" now] r by simp
  have "fmlookup (ds_claims s1) (claimPath key token) = None"
    using recycle_frame[of now "dc_ClaimTimeout claim" "claimPath key token" s io] assms(2) r by (simp add: unexpired_def)
  then have "keeps s (snd (claimLoop io key claim now token fs s1))" for fs
    using keeps_trans[OF k claimLoop_keeps] k by (simp add: keeps_def)
  then show ?thesis using k r by (simp add: ClaimNext_snd)
qed

section \<open>Sequences of operations\<close>

datatype DispatchOp = OpEnqueue DispatchIO int string "Task option" | OpClaim DispatchIO int string DispatchTaskClaim
  | OpDelete DispatchIO string | OpCount DispatchIO string int int | OpHas DispatchIO string int int

fun runOp :: "(string \<Rightarrow> string) \<Rightarrow> DispatchOp \<Rightarrow> DispatchTaskStore \<Rightarrow> DispatchTaskStore" where
  "runOp key (OpEnqueue io now uuid t) s = snd (DispatchEnqueue io now uuid t s)"
| "runOp key (OpClaim io now token claim) s = snd (ClaimNext io key now token claim s)"
| "runOp key (OpDelete io token) s = snd (DeleteClaim io key token s)"
| "runOp key (OpCount io q timeout now) s = snd (CountOutstandingByQueue io q timeout now s)"
| "runOp key (OpHas io k timeout now) s = snd (HasOutstandingAttempt io k timeout now s)"

text \<open>Generated names are new.\<close>

fun opFresh :: "(string \<Rightarrow> string) \<Rightarrow> DispatchOp \<Rightarrow> DispatchTaskStore \<Rightarrow> bool" where
  "opFresh key (OpEnqueue io now uuid t) s = (taskFileName now uuid \<notin># image_mset fst (taskBag s))"
| "opFresh key (OpClaim io now token claim) s = (fmlookup (ds_claims s) (claimPath key token) = None)"
| "opFresh key _ s = True"

fun opAdds :: "DispatchOp \<Rightarrow> (string \<times> Task option) multiset" where
  "opAdds (OpEnqueue io now uuid (Some t)) = (if dio_write io (taskFileName now uuid) then {#(taskFileName now uuid, Some (taskCore t))#} else {#})"
| "opAdds _ = {#}"

fun opRemoves :: "(string \<Rightarrow> string) \<Rightarrow> DispatchOp \<Rightarrow> DispatchTaskStore
    \<Rightarrow> (string \<times> Task option) multiset" where
  "opRemoves key (OpDelete io token) s = (case fmlookup (ds_claims s) (claimPath key token) of
     None \<Rightarrow> {#} | Some x \<Rightarrow> if dio_remove io then {#ident x#} else {#})"
| "opRemoves key _ s = {#}"

definition noTasks :: DispatchTaskStore where
  "noTasks = \<lparr>ds_pending = fmempty, ds_claims = fmempty\<rparr>"

inductive dispReach :: "(string \<Rightarrow> string) \<Rightarrow> DispatchTaskStore \<Rightarrow> bool" for key where
  disp_start: "dispReach key noTasks"
| disp_step: "dispReach key s \<Longrightarrow> opFresh key op s \<Longrightarrow> dispReach key (runOp key op s)"

lemma snapshot_keeps: "dispInv s \<Longrightarrow> keeps s (snd (snapshotOutstanding io t now s))"
  using recycle_keeps[of s io t now] by (auto simp: snapshotOutstanding_def split: prod.split sum.split)

lemma enqueue_balance:
  assumes "dispInv s" "taskFileName now uuid \<notin># image_mset fst (taskBag s)"
  shows "dispInv (snd (DispatchEnqueue io now uuid t s))
    \<and> taskBag (snd (DispatchEnqueue io now uuid t s)) = taskBag s + opAdds (OpEnqueue io now uuid t)"
proof (cases "t = None \<or> \<not> dio_write io (taskFileName now uuid)")
  case True
  then show ?thesis using assms(1) by (cases t) (simp_all add: DispatchEnqueue_def Let_def)
next
  case False
  then obtain t' where t: "t = Some t'" "dio_write io (taskFileName now uuid)" by auto
  let ?f = "taskFileName now uuid" and ?s = "snd (DispatchEnqueue io now uuid t s)"
  have new: "fmlookup (ds_pending s) ?f = None"
  proof (rule ccontr)
    assume "fmlookup (ds_pending s) ?f \<noteq> None"
    then obtain x where x: "fmlookup (ds_pending s) ?f = Some x" by blast
    then have "ident x \<in># taskBag s" using bagOf_mem[OF x, of ident] by (simp add: taskBag_def)
    then have "fst (ident x) \<in># image_mset fst (taskBag s)" by simp
    then show False using assms(2) dispInv_name[OF assms(1) x] by (simp add: ident_name)
  qed
  have bag: "taskBag ?s = taskBag s + opAdds (OpEnqueue io now uuid t)"
    using bagOf_new[OF new, of ident] t by (simp add: DispatchEnqueue_def Let_def taskBag_def ident_def)
  have "df_TaskFileName (fst y) = g" if "fmlookup (ds_pending ?s) g = Some y" for g y
    using that dispInv_name[OF assms(1), of g y] t by (auto simp: DispatchEnqueue_def Let_def split: if_splits)
  moreover have "count (image_mset fst (taskBag ?s)) n \<le> 1" for n
    using bag assms(2)[unfolded not_in_iff] dispInv_count[OF assms(1), of n] t by (cases "n = ?f") simp_all
  ultimately show ?thesis using bag unfolding dispInv_def by blast
qed

lemma delete_balance:
  assumes "dispInv s"
  shows "dispInv (snd (DeleteClaim io key token s)) \<and> taskBag (snd (DeleteClaim io key token s)) + opRemoves key (OpDelete io token) s = taskBag s"
proof (cases "fmlookup (ds_claims s) (claimPath key token)")
  case None
  then show ?thesis using assms by (simp add: DeleteClaim_def fmdom_notI)
next
  case (Some x)
  then have d: "claimPath key token |\<in>| fmdom (ds_claims s)" by (rule fmdomI)
  show ?thesis
  proof (cases "dio_remove io")
    case False
    then show ?thesis using assms Some d by (simp add: DeleteClaim_def)
  next
    case True
    let ?s = "s\<lparr>ds_claims := fmdrop (claimPath key token) (ds_claims s)\<rparr>"
    have bag: "taskBag s = add_mset (ident x) (taskBag ?s)" using bagOf_drop[OF Some, of ident] by (simp add: taskBag_def)
    have "count (image_mset fst (taskBag ?s)) n \<le> 1" for n using dispInv_count[OF assms, of n] unfolding bag by (simp split: if_splits)
    moreover have "df_TaskFileName (fst y) = g" if "fmlookup (ds_pending ?s) g = Some y" for g y
      using that dispInv_name[OF assms, of g y] by simp
    ultimately have "dispInv ?s" unfolding dispInv_def by blast
    then show ?thesis using bag Some d True by (simp add: DeleteClaim_def)
  qed
qed

lemma CountOutstanding_snd: "snd (CountOutstandingByQueue io q timeout now s) = snd (snapshotOutstanding io timeout now s)"
  by (simp add: CountOutstandingByQueue_def split: prod.split sum.split)

lemma HasOutstanding_snd:
  "snd (HasOutstandingAttempt io k timeout now s) = (if k = '''' then s else snd (snapshotOutstanding io timeout now s))"
  by (simp add: HasOutstandingAttempt_def split: prod.split sum.split)

lemma op_balance:
  assumes "dispInv s" "opFresh key op s"
  shows "dispInv (runOp key op s) \<and> taskBag (runOp key op s) + opRemoves key op s = taskBag s + opAdds op"
proof (cases op)
  case (OpEnqueue io now uuid t)
  then show ?thesis using enqueue_balance[OF assms(1)] assms(2) by simp
next
  case (OpClaim io now token claim)
  then show ?thesis using ClaimNext_keeps[OF assms(1)] assms(2) by (simp add: keeps_def)
next
  case (OpDelete io token)
  then show ?thesis using delete_balance[OF assms(1)] by simp
next
  case (OpCount io q timeout now)
  then show ?thesis using snapshot_keeps[OF assms(1)] by (simp add: CountOutstanding_snd keeps_def)
next
  case (OpHas io k timeout now)
  then show ?thesis using snapshot_keeps[OF assms(1)] assms(1) by (simp add: HasOutstanding_snd keeps_def)
qed

lemma dispReach_inv: "dispReach key s \<Longrightarrow> dispInv s"
proof (induction rule: dispReach.induct)
  case disp_start
  show ?case by (simp add: dispInv_def noTasks_def taskBag_def)
next
  case (disp_step s op)
  then show ?case using op_balance by blast
qed


definition workingIO :: DispatchIO where
  "workingIO = \<lparr>dio_list = True, dio_listPending = True, dio_read = (\<lambda>_. True), dio_stat = (\<lambda>_. True), dio_write = (\<lambda>_. True), dio_mkdir = True,
     dio_rename = (\<lambda>_. True), dio_chtimes = (\<lambda>_. True), dio_back = True, dio_remove = True\<rparr>"

definition exampleTask :: Task where
  "exampleTask = \<lparr>tk_Payload = ''dag'', tk_RootDagRunName = '''', tk_RootDagRunId = '''', tk_DagRunId = ''r'',
     tk_Target = ''dag'', tk_AttemptId = ''i'', tk_AttemptKey = ''k'', tk_QueueName = ''q'', tk_WorkerSelector = fmempty, tk_OwnerCoordinatorId = '''',
     tk_OwnerCoordinatorHost = '''', tk_OwnerCoordinatorPort = 0, tk_ClaimToken = '''', tk_WorkerId = ''''\<rparr>"

definition exampleClaim :: DispatchTaskClaim where
  "exampleClaim = \<lparr>dc_WorkerID = ''w'', dc_PollerID = ''p'', dc_Labels = fmempty,
     dc_Owner = \<lparr>ce_ID = ''c'', ce_Host = ''h'', ce_Port = 8080\<rparr>, dc_ClaimTimeout = 0\<rparr>"

definition oneTask :: DispatchTaskStore where
  "oneTask = runOp id (OpEnqueue workingIO (10 ^ 6) ''u'' (Some exampleTask)) noTasks"

lemma oneTask_reach: "dispReach id oneTask"
  unfolding oneTask_def by (rule disp_step[OF disp_start]) (simp add: noTasks_def taskBag_def)

lemma oneTask_claims: "ds_claims oneTask = fmempty"
  by (simp add: oneTask_def noTasks_def DispatchEnqueue_def Let_def workingIO_def)


section \<open>A claim is exclusive\<close>

text \<open>Operations that do not recycle a claim stamped \<open>stamp\<close> (in milliseconds) and do not delete it.\<close>

fun opQuiet :: "(string \<Rightarrow> string) \<Rightarrow> string \<Rightarrow> int \<Rightarrow> DispatchOp \<Rightarrow> bool" where
  "opQuiet key c stamp (OpEnqueue io now uuid t) = True"
| "opQuiet key c stamp (OpClaim io now token claim) = (now - orDefaultTimeout (dc_ClaimTimeout claim) < stamp * 10 ^ 6)"
| "opQuiet key c stamp (OpDelete io token) = (claimPath key token \<noteq> c)"
| "opQuiet key c stamp (OpCount io q timeout now) = (now - orDefaultTimeout timeout < stamp * 10 ^ 6)"
| "opQuiet key c stamp (OpHas io k timeout now) = (now - orDefaultTimeout timeout < stamp * 10 ^ 6)"

definition runOps :: "(string \<Rightarrow> string) \<Rightarrow> DispatchOp list \<Rightarrow> DispatchTaskStore \<Rightarrow> DispatchTaskStore" where
  "runOps key ops s = fold (runOp key) ops s"

fun quietRun :: "(string \<Rightarrow> string) \<Rightarrow> string \<Rightarrow> int \<Rightarrow> DispatchOp list \<Rightarrow> DispatchTaskStore \<Rightarrow> bool" where
  "quietRun key c stamp [] s = True"
| "quietRun key c stamp (op # ops) s = (opFresh key op s \<and> opQuiet key c stamp op \<and> quietRun key c stamp ops (runOp key op s))"

lemma claimFile_frame: "c \<noteq> claimPath key token \<Longrightarrow>
    fmlookup (ds_claims (snd (claimFile io key claim now token f x t s))) c = fmlookup (ds_claims s) c"
  by (simp add: claimFile_def unclaim_def Let_def split: sum.split)

lemma claimLoop_frame: "c \<noteq> claimPath key token \<Longrightarrow>
    fmlookup (ds_claims (snd (claimLoop io key claim now token fs s))) c = fmlookup (ds_claims s) c"
  by (induction fs) (auto simp: claimFile_frame split: option.split)

lemma snapshot_frame: "unexpired (now - orDefaultTimeout t) c s \<Longrightarrow>
    fmlookup (ds_claims (snd (snapshotOutstanding io t now s))) c = fmlookup (ds_claims s) c"
  using recycle_frame[of now t c s io]
  by (cases "recycleExpiredClaims io t now s") (simp add: snapshotOutstanding_def split: sum.split)

lemma ClaimNext_frame:
  assumes "c \<noteq> claimPath key token" "unexpired (now - orDefaultTimeout (dc_ClaimTimeout claim)) c s"
  shows "fmlookup (ds_claims (snd (ClaimNext io key now token claim s))) c = fmlookup (ds_claims s) c"
  using recycle_frame[OF assms(2), of io] claimLoop_frame[OF assms(1)]
  by (cases "recycleExpiredClaims io (dc_ClaimTimeout claim) now s") (simp add: ClaimNext_snd)

lemma runOp_frame:
  assumes "fmlookup (ds_claims s) c = Some (r, m)" "df_ClaimedAt r > 0" "opFresh key op s" "opQuiet key c (df_ClaimedAt r) op"
  shows "fmlookup (ds_claims (runOp key op s)) c = Some (r, m)"
proof (cases op)
  case (OpEnqueue io now uuid t)
  then show ?thesis using assms(1) by (cases t) (simp_all add: DispatchEnqueue_def Let_def)
next
  case (OpClaim io now token claim)
  then have "c \<noteq> claimPath key token" using assms(1,3) by auto
  then show ?thesis using OpClaim ClaimNext_frame[of c key token now claim s io] assms by (simp add: unexpired_def)
next
  case (OpDelete io token)
  then show ?thesis using assms(1,4) by (simp add: DeleteClaim_def)
next
  case (OpCount io q timeout now)
  then show ?thesis using snapshot_frame[of now timeout c s io] assms by (simp add: CountOutstanding_snd unexpired_def)
next
  case (OpHas io k timeout now)
  then show ?thesis using snapshot_frame[of now timeout c s io] assms by (simp add: HasOutstanding_snd unexpired_def)
qed

lemma quietRun_claim:
  assumes "dispReach key s" "fmlookup (ds_claims s) c = Some (r, m)" "df_ClaimedAt r > 0" "quietRun key c (df_ClaimedAt r) ops s"
  shows "dispReach key (runOps key ops s) \<and> fmlookup (ds_claims (runOps key ops s)) c = Some (r, m)"
  using assms
proof (induction ops arbitrary: s)
  case (Cons op ops)
  have "dispReach key (runOp key op s)" using Cons.prems(1,4) by (simp add: disp_step)
  moreover have "fmlookup (ds_claims (runOp key op s)) c = Some (r, m)" using runOp_frame[OF Cons.prems(2,3)] Cons.prems(4) by simp
  ultimately show ?case using Cons.IH[OF _ _ Cons.prems(3)] Cons.prems(4) by (simp add: runOps_def)
qed (simp add: runOps_def)

definition claimResult :: "DispatchTaskClaim \<Rightarrow> string \<Rightarrow> int \<Rightarrow> Task \<Rightarrow> ClaimedDispatchTask" where
  "claimResult claim token now t = \<lparr>ct_Task = t, ct_ClaimToken = token, ct_ClaimedAt = now, ct_WorkerID = dc_WorkerID claim,
     ct_PollerID = dc_PollerID claim, ct_Owner = dc_Owner claim\<rparr>"

lemma claimFile_claimed:
  assumes "claimFile io key claim now token f x t s = (Ok (Some ct), s')"
  shows "ct = claimResult claim token now (ct_Task ct)
    \<and> fmlookup (ds_claims s') (claimPath key token) = Some (claimedFile claim token now (ct_Task ct) (fst x), now)"
  using assms by (auto simp: claimFile_def Let_def claimResult_def split: if_splits sum.splits)

lemma claimLoop_claimed:
  assumes "claimLoop io key claim now token fs s = (Ok (Some ct), s')"
  shows "ct = claimResult claim token now (ct_Task ct)
    \<and> (\<exists>r. fmlookup (ds_claims s') (claimPath key token) = Some (claimedFile claim token now (ct_Task ct) r, now))"
  using assms
proof (induction fs)
  case (Cons f fs)
  then show ?case using claimFile_claimed by (auto split: option.splits if_splits)
qed simp

lemma ClaimNext_claimed:
  assumes "ClaimNext io key now token claim s = (Ok (Some ct), s')"
  shows "ct = claimResult claim token now (ct_Task ct)
    \<and> (\<exists>r. fmlookup (ds_claims s') (claimPath key token) = Some (claimedFile claim token now (ct_Task ct) r, now))"
  using assms claimLoop_claimed by (auto simp: ClaimNext_def split: prod.splits sum.splits if_splits)

lemma one_claim:
  assumes "dispInv s" "fmlookup (ds_claims s) c = Some x" "fmlookup (ds_claims s) c' = Some y"
    "df_TaskFileName (fst x) = df_TaskFileName (fst y)"
  shows "c' = c"
proof (rule ccontr)
  assume "c' \<noteq> c"
  then have y: "fmlookup (fmdrop c (ds_claims s)) c' = Some y" using assms(3) by simp
  have "image_mset fst (bagOf ident (ds_claims s)) = add_mset (fst (ident x)) (add_mset (fst (ident y))
      (image_mset fst (bagOf ident (fmdrop c' (fmdrop c (ds_claims s))))))"
    unfolding bagOf_drop[OF assms(2)] bagOf_drop[OF y] by simp
  then have "count (image_mset fst (taskBag s)) (df_TaskFileName (fst x)) \<ge> 2" using assms(4) by (simp add: taskBag_def ident_name)
  then show False using dispInv_count[OF assms(1), of "df_TaskFileName (fst x)"] by simp
qed


definition oneClaim :: DispatchTaskStore where
  "oneClaim = snd (ClaimNext workingIO id (2 * 10 ^ 6) ''a'' exampleClaim oneTask)"

lemma sortedFiles_small: "sortedFiles fmempty = []" "sortedFiles (fmupd f x fmempty) = [f]"
  by (simp_all add: sortedFiles_def sorted_list_of_fset.rep_eq)

lemmas example_dispatch = oneTask_def noTasks_def DispatchEnqueue_def ClaimNext_def recycleExpiredClaims_def claimFile_def
  workingIO_def exampleTask_def exampleClaim_def applyTaskClaim_def matchesSelector_def sortedFiles_small Let_def

lemma oneTask_claimed: "\<exists>ct. ClaimNext workingIO id (2 * 10 ^ 6) ''a'' exampleClaim oneTask = (Ok (Some ct), oneClaim)"
proof -
  have "\<exists>ct s1. ClaimNext workingIO id (2 * 10 ^ 6) ''a'' exampleClaim oneTask = (Ok (Some ct), s1)"
    by (simp add: example_dispatch)
  then show ?thesis by (auto simp: oneClaim_def)
qed

lemma oneClaim_lookup: "\<exists>r t. fmlookup (ds_claims oneClaim) (claimPath id ''a'') = Some (claimedFile exampleClaim ''a'' (2 * 10 ^ 6) t r, 2 * 10 ^ 6)"
  using oneTask_claimed ClaimNext_claimed by blast

text \<open>A second worker polls one second later and the scheduler counts; the claim stays.\<close>

definition laterOps :: "DispatchOp list" where
  "laterOps = [OpClaim workingIO (10 ^ 9) ''b'' exampleClaim, OpCount workingIO ''q'' 0 (2 * 10 ^ 9), OpDelete workingIO ''b'']"

lemma laterOps_quiet: "quietRun id (claimPath id ''a'') (2 * 10 ^ 6 div 10 ^ 6) laterOps oneClaim"
proof -
  have "fmlookup (ds_claims oneTask) (claimPath id ''b'') = None" by (simp add: oneTask_claims)
  then have "fmlookup (ds_claims oneClaim) (claimPath id ''b'') = None"
    unfolding oneClaim_def by (subst ClaimNext_frame) (simp_all add: claimPath_def unexpired_def)
  then show ?thesis by (simp add: laterOps_def orDefaultTimeout_def exampleClaim_def second_def claimPath_def)
qed


section \<open>A deleted claim comes back\<close>

text \<open>A task that was acknowledged can be handed out again: \<open>DeleteClaim\<close> takes no lock, so when a worker acknowledges a claim that
  another process has just read as expired, the deletion succeeds, and then the recycling writes the file anew and moves it back to
  the pending tasks, where the next worker is given the same task.\<close>

theorem recycle_revives_deleted:
  assumes "fmlookup (ds_claims s) (claimPath key token) = Some (r0, m)" "recycleRead io timeout now (claimPath key token) s = Ok (Some r)"
    and "dio_write io (claimPath key token)" "dio_mkdir io" "dio_rename io (claimPath key token)" "dio_remove io'"
  defines "s1 \<equiv> snd (DeleteClaim io' key token s)"
  defines "s2 \<equiv> snd (recycleWrite io now (claimPath key token) r s1)"
  defines "s3 \<equiv> snd (recycleRename io (claimPath key token) s2)"
  shows "fst (DeleteClaim io' key token s) = Ok () \<and> fmlookup (ds_claims s1) (claimPath key token) = None
    \<and> fmlookup (ds_pending s3) (df_TaskFileName r0) = Some (r, now) \<and> ident (r, now) = ident (r0, m)"
proof -
  have r: "r = clearedFile r0" using assms(1,2) by (auto simp: recycleRead_def Let_def split: if_splits)
  have d: "DeleteClaim io' key token s = (Ok (), s\<lparr>ds_claims := fmdrop (claimPath key token) (ds_claims s)\<rparr>)"
    using assms(1,6) by (simp add: DeleteClaim_def fmdomI)
  have "df_TaskFileName r = df_TaskFileName r0" by (simp add: r clearedFile_def)
  then show ?thesis using assms(3-5) d r by (simp add: s3_def s2_def s1_def recycleWrite_def recycleRename_def)
qed

theorem recycle_revives_deleted_witness:
  "\<exists>r0 m r. recycleRead workingIO (30 * second) (40 * second) (claimPath id ''a'') oneClaim = Ok (Some r)
     \<and> fmlookup (ds_claims (snd (DeleteClaim workingIO id ''a'' oneClaim))) (claimPath id ''a'') = None
     \<and> fmlookup (ds_pending (snd (recycleRename workingIO (claimPath id ''a'')
         (snd (recycleWrite workingIO (40 * second) (claimPath id ''a'') r (snd (DeleteClaim workingIO id ''a'' oneClaim))))))) (df_TaskFileName r0)
         = Some (r, 40 * second)
     \<and> ident (r, 40 * second) = ident (r0, m)"
proof -
  obtain r0 t where l: "fmlookup (ds_claims oneClaim) (claimPath id ''a'') = Some (claimedFile exampleClaim ''a'' (2 * 10 ^ 6) t r0, 2 * 10 ^ 6)"
    using oneClaim_lookup by blast
  then have "recycleRead workingIO (30 * second) (40 * second) (claimPath id ''a'') oneClaim
      = Ok (Some (clearedFile (claimedFile exampleClaim ''a'' (2 * 10 ^ 6) t r0)))"
    by (simp add: recycleRead_def workingIO_def claimedFile_def second_def Let_def)
  from recycle_revives_deleted[OF l this, of workingIO] this show ?thesis by (auto simp: workingIO_def)
qed

end
