(* ===== verification/Capacity.thy ===== *)
theory Capacity
  imports Coordinator_Zombies Dispatch_Props
begin

text \<open>
  How the queue processor of the scheduler (\<open>internal/service/scheduler/queue_processor.go\<close>) finds out which queued runs it may start:
  counting local processes, leases and outstanding dispatches of a queue, and selecting items for the free slots.  The stores are
  shared with the coordinator, which acts between two reads; so the state in which the leases are read and the one in which
  the dispatches are read are separate arguments.  An item is the dag-run it refers to, \<open>None\<close> when its data cannot be read.
\<close>

section \<open>Queues\<close>

record queue =
  qu_maxConcurrency :: int
  qu_isGlobal :: bool
  qu_inflight :: int

definition configuredQueues :: "(string \<times> int) list \<Rightarrow> (string, queue) fmap" where
  "configuredQueues config = fold (\<lambda>(name, maxActiveRuns). fmupd name
     \<lparr>qu_maxConcurrency = max maxActiveRuns 1, qu_isGlobal = True, qu_inflight = 0\<rparr>) config fmempty"

text \<open>The queues of one pass of the loop: new ones get one slot, inactive ones that are not configured are dropped.\<close>

definition initQueues :: "string list \<Rightarrow> (string, queue) fmap \<Rightarrow> (string, queue) fmap" where
  "initQueues queueList qs = fold (\<lambda>name m. if name |\<in>| fmdom m then m
     else fmupd name \<lparr>qu_maxConcurrency = 1, qu_isGlobal = False, qu_inflight = 0\<rparr> m) queueList qs"

definition removeInactiveQueues :: "string list \<Rightarrow> (string, queue) fmap \<Rightarrow> (string, queue) fmap" where
  "removeInactiveQueues activeQueues qs = fmfilter (\<lambda>name. name \<in> set activeQueues \<or> qu_isGlobal (the (fmlookup qs name))) qs"

section \<open>Counting\<close>

definition leaseStaleThresholdOrDefault :: "int \<Rightarrow> int" where
  "leaseStaleThresholdOrDefault threshold = (if threshold \<le> 0 then DefaultStaleLeaseThreshold else threshold)"

definition countActiveDistributedRuns :: "CoordIO \<Rightarrow> int \<Rightarrow> int \<Rightarrow> string \<Rightarrow> Coordinator \<Rightarrow> (TrackError, int) result" where
  "countActiveDistributedRuns io threshold now queueName co =
     result_bind (Lease_ListByQueue (ci_listing io) (ci_digest io) queueName (co_leases co))
       (\<lambda>ls. Ok (int (length (filter (\<lambda>l. IsFresh l now (leaseStaleThresholdOrDefault threshold)) ls))))"

definition countOutstandingDispatchReservations :: "CoordIO \<Rightarrow> int \<Rightarrow> int \<Rightarrow> string \<Rightarrow> Coordinator
    \<Rightarrow> (DispatchError, int) result \<times> Coordinator" where
  "countOutstandingDispatchReservations io threshold now queueName co =
     (case CountOutstandingByQueue (ci_dispatch io) queueName (leaseStaleThresholdOrDefault threshold) now (co_dispatch co) of
        (Inl e, d) \<Rightarrow> (Err e, co\<lparr>co_dispatch := d\<rparr>) | (Inr n, d) \<Rightarrow> (Ok (int n), co\<lparr>co_dispatch := d\<rparr>))"

section \<open>Selecting\<close>

definition queueAttemptKey :: "DAGRunRef \<Rightarrow> string \<Rightarrow> DAGRunStatus \<Rightarrow> string" where
  "queueAttemptKey runRef handleID status =
     (let attemptID = nonEmptyOr (rs_AttemptID status) handleID
      in if rs_AttemptKey status \<noteq> '''' then rs_AttemptKey status
         else if attemptID = '''' then ''''
         else GenerateAttemptKey (dr_Name runRef) (dr_ID runRef) (dr_Name runRef) (dr_ID runRef) attemptID)"

text \<open>The latest attempt is never hidden, so the check for hidden attempts has no branch of its own.\<close>

definition hasOutstandingDispatchReservation :: "CoordIO \<Rightarrow> int \<Rightarrow> int \<Rightarrow> DAGRunRef \<Rightarrow> Coordinator \<Rightarrow> (unit, bool) result \<times> Coordinator" where
  "hasOutstandingDispatchReservation io threshold now runRef co =
     (case FindAttempt (ci_run io runRef) runRef (co_runs co) of
        Inl e \<Rightarrow> (if e = ErrDAGRunIDNotFound then Ok False else Err (), co)
      | Inr h \<Rightarrow> (case ReadStatus (ci_run io runRef) h (co_runs co) of
            Inl e \<Rightarrow> (if e = ErrNoStatusData \<or> e = ErrCorruptedStatusFile then Ok False else Err (), co)
          | Inr status \<Rightarrow>
              if rs_Status status \<noteq> Queued \<or> queueAttemptKey runRef (snd h) status = '''' then (Ok False, co)
              else (case HasOutstandingAttempt (ci_dispatch io) (queueAttemptKey runRef (snd h) status)
                      (leaseStaleThresholdOrDefault threshold) now (co_dispatch co) of
                  (Inl e, d) \<Rightarrow> (Err (), co\<lparr>co_dispatch := d\<rparr>) | (Inr b, d) \<Rightarrow> (Ok b, co\<lparr>co_dispatch := d\<rparr>))))"

fun selectRunnableQueueItems :: "CoordIO \<Rightarrow> int \<Rightarrow> int \<Rightarrow> DAGRunRef option list \<Rightarrow> int \<Rightarrow> Coordinator
    \<Rightarrow> (unit, DAGRunRef option list) result \<times> Coordinator" where
  "selectRunnableQueueItems io threshold now [] freeSlots co = (Ok [], co)"
| "selectRunnableQueueItems io threshold now (item # items) freeSlots co =
     (if freeSlots \<le> 0 then (Ok [], co)
      else case item of
        None \<Rightarrow> selectRunnableQueueItems io threshold now items freeSlots co
      | Some runRef \<Rightarrow> (case hasOutstandingDispatchReservation io threshold now runRef co of
            (Inl e, c1) \<Rightarrow> (Err e, c1)
          | (Inr reserved, c1) \<Rightarrow>
              if reserved then selectRunnableQueueItems io threshold now items freeSlots c1
              else (case selectRunnableQueueItems io threshold now items (freeSlots - 1) c1 of
                  (Inl e, c2) \<Rightarrow> (Err e, c2) | (Inr runnable, c2) \<Rightarrow> (Ok (item # runnable), c2))))"

text \<open>
  The first half of \<open>ProcessQueueItems\<close>: which items it processes.  The leases are read in \<open>coL\<close>, the rest in \<open>co\<close>.
\<close>

definition runnableBatch :: "CoordIO \<Rightarrow> int \<Rightarrow> int \<Rightarrow> string \<Rightarrow> queue \<Rightarrow> (unit, int) result \<Rightarrow> Coordinator \<Rightarrow> DAGRunRef option list \<Rightarrow> Coordinator
    \<Rightarrow> DAGRunRef option list \<times> Coordinator" where
  "runnableBatch io threshold now queueName q localAlive coL items co =
     (if items = [] then ([], co)
      else case localAlive of
        Inl e \<Rightarrow> ([], co)
      | Inr alive \<Rightarrow> (case countActiveDistributedRuns io threshold now queueName coL of
            Inl e \<Rightarrow> ([], co)
          | Inr distributed \<Rightarrow> (case countOutstandingDispatchReservations io threshold now queueName co of
                (Inl e, c1) \<Rightarrow> ([], c1)
              | (Inr outstanding, c1) \<Rightarrow>
                  let freeSlots = qu_maxConcurrency q - (alive + distributed) - qu_inflight q - outstanding
                  in if freeSlots \<le> 0 then ([], c1)
                     else case selectRunnableQueueItems io threshold now items freeSlots c1 of
                       (Inl e, c2) \<Rightarrow> ([], c2) | (Inr runnable, c2) \<Rightarrow> (runnable, c2))))"

section \<open>The batch fits\<close>

lemma select_cons:
  "\<not> free \<le> 0 \<Longrightarrow> selectRunnableQueueItems io th now (None # items) free co = selectRunnableQueueItems io th now items free co"
  "free \<le> 0 \<Longrightarrow> selectRunnableQueueItems io th now items free co = (Ok [], co)"
  "\<not> free \<le> 0 \<Longrightarrow> hasOutstandingDispatchReservation io th now r co = (Ok True, c1)
    \<Longrightarrow> selectRunnableQueueItems io th now (Some r # items) free co = selectRunnableQueueItems io th now items free c1"
  by (cases items; simp)+

lemma select_fits:
  "selectRunnableQueueItems io threshold now items free co = (Ok sel, co') \<Longrightarrow> int (length sel) \<le> max 0 free \<and> subseq sel items \<and> None \<notin> set sel"
proof (induction items arbitrary: free co sel)
  case (Cons item items)
  show ?case
  proof (cases "free \<le> 0")
    case True
    then show ?thesis using Cons.prems by (simp add: select_cons(2))
  next
    case pos: False
    show ?thesis
    proof (cases item)
      case None
      then have "selectRunnableQueueItems io threshold now items free co = (Ok sel, co')" using Cons.prems select_cons(1)[OF pos] by metis
      then show ?thesis using Cons.IH by (meson list_emb_Cons)
    next
      case (Some r)
      obtain x c1 where h: "hasOutstandingDispatchReservation io threshold now r co = (x, c1)" by fastforce
      consider (res) "x = Ok True" | (free) sel' where "x = Ok False" "selectRunnableQueueItems io threshold now items (free - 1) c1 = (Ok sel', co')" "sel = item # sel'"
        using Cons.prems pos Some h by (auto split: sum.splits prod.splits if_splits)
      then show ?thesis
      proof cases
        case res
        then have "selectRunnableQueueItems io threshold now items free c1 = (Ok sel, co')"
          using Cons.prems select_cons(3)[OF pos] h Some by metis
        then show ?thesis using Cons.IH by (meson list_emb_Cons)
      next
        case free
        have "int (length sel') \<le> max 0 (free - 1) \<and> subseq sel' items \<and> None \<notin> set sel'" by (rule Cons.IH[OF free(2)])
        then show ?thesis using free(3) pos Some by auto
      qed
    qed
  qed
qed simp

text \<open>C22: a batch fits into its queue: when no one acts between the reads, the runs the queue processor starts together with the
  local processes, the fresh leases, the dispatches still outstanding and the items in flight are at most as many as the
  queue allows, unless it starts none; it starts items in the order of the queue and none whose data cannot be read.\<close>

theorem batch_fits_capacity:
  assumes "runnableBatch io threshold now queueName q (Ok alive) co items co = (sel, co')" "sel \<noteq> []"
  shows "\<exists>distributed outstanding. countActiveDistributedRuns io threshold now queueName co = Ok distributed
      \<and> fst (countOutstandingDispatchReservations io threshold now queueName co) = Ok outstanding
      \<and> alive + distributed + outstanding + qu_inflight q + int (length sel) \<le> qu_maxConcurrency q
      \<and> subseq sel items \<and> None \<notin> set sel"
proof -
  obtain distributed where d: "countActiveDistributedRuns io threshold now queueName co = Ok distributed"
    using assms by (auto simp: runnableBatch_def split: if_splits sum.splits)
  obtain outstanding c1 where o: "countOutstandingDispatchReservations io threshold now queueName co = (Ok outstanding, c1)"
    using assms by (auto simp: runnableBatch_def d split: if_splits sum.splits prod.splits)
  let ?free = "qu_maxConcurrency q - (alive + distributed) - qu_inflight q - outstanding"
  have "?free > 0" "selectRunnableQueueItems io threshold now items ?free c1 = (Ok sel, co')"
    using assms by (auto simp: runnableBatch_def d o Let_def split: if_splits sum.splits prod.splits)
  then show ?thesis using select_fits d o by fastforce
qed

text \<open>A claimed task of the queue, its coordinator, and one more run in the queue, which has one slot.\<close>

definition claimedTask :: Coordinator where
  "claimedTask = noRuns\<lparr>co_dispatch := oneClaim\<rparr>"

definition oneSlot :: queue where
  "oneSlot = \<lparr>qu_maxConcurrency = 1, qu_isGlobal = False, qu_inflight = 0\<rparr>"

definition waitingRun :: DAGRunRef where
  "waitingRun = NewDAGRunRef ''other'' ''r2''"

lemma oneClaim_eq:
  "oneClaim = \<lparr>ds_pending = fmempty, ds_claims = fmupd (claimPath id ''a'') (claimedFile exampleClaim ''a'' (2 * 10 ^ 6)
       (exampleTask\<lparr>tk_OwnerCoordinatorId := ''c'', tk_OwnerCoordinatorHost := ''h'', tk_OwnerCoordinatorPort := 8080, tk_ClaimToken := ''a''\<rparr>)
       \<lparr>df_Task = Some exampleTask, df_TaskFileName = taskFileName (10 ^ 6) ''u'', df_EnqueuedAt = 1, df_ClaimToken = '''', df_ClaimedAt = 0,
        df_WorkerID = '''', df_PollerID = '''', df_Owner = noEndpoint\<rparr>, 2 * 10 ^ 6) fmempty\<rparr>"
proof -
  have "fmdrop f (fmupd f x fmempty) = fmempty" for f and x :: "dispatchTaskFile \<times> int" by (intro fmap_ext) simp
  moreover have "fmupd c y (fmupd c x fmempty) = fmupd c y fmempty" for c and x y :: "dispatchTaskFile \<times> int" by (intro fmap_ext) simp
  ultimately show ?thesis by (simp add: oneClaim_def example_dispatch)
qed

lemma recordFiles_small: "recordFiles digest fmempty = []" "recordFiles digest (fmupd k x fmempty) = [x]"
  by (simp_all add: recordFiles_def sorted_list_of_fset.rep_eq)

lemmas capacity_eval = runnableBatch_def countActiveDistributedRuns_def countOutstandingDispatchReservations_def Lease_ListByQueue_def Lease_ListAll_def
  recordFiles_small CountOutstandingByQueue_def snapshotOutstanding_def recycleExpiredClaims_def outstandingFiles_def sortedFiles_small
  recycleOne_def recycleRead_def leaseStaleThresholdOrDefault_def orDefaultTimeout_def DefaultStaleLeaseThreshold_def second_def oneSlot_def IsFresh_def
  hasOutstandingDispatchReservation_def FindAttempt_def FindByDAGRunID_def noRuns_def okIO_def okTrack_def okRun_def waitingRun_def NewDAGRunRef_def Let_def

lemma claimedTask_full: "fst (runnableBatch okIO 0 (4 * 10 ^ 6) ''q'' oneSlot (Ok 0) claimedTask [Some waitingRun] claimedTask) = []"
  by (simp add: claimedTask_def oneClaim_eq capacity_eval claimedFile_def exampleTask_def)

definition ackedTask :: Coordinator where
  "ackedTask = snd (AckTaskClaim okIO id exConfig (3 * 10 ^ 6) ''a'' ''w'' claimedTask)"

lemma ackedTask_ack: "AckTaskClaim okIO id exConfig (3 * 10 ^ 6) ''a'' ''w'' claimedTask = (Ok AckAccepted, ackedTask)"
proof -
  have "fst (AckTaskClaim okIO id exConfig (3 * 10 ^ 6) ''a'' ''w'' claimedTask) = Ok AckAccepted"
    by (simp add: claimedTask_def oneClaim_eq AckTaskClaim_def ackRead_def ackLease_def ackDelete_def GetClaim_def DeleteClaim_def claimedFile_def
        exampleClaim_def exampleTask_def okIO_def okTrack_def Lease_Upsert_def buildLeaseFromTask_def writeRecord_def Let_def noRuns_def)
  then show ?thesis by (simp add: ackedTask_def prod_eq_iff)
qed

lemma ackedTask_eq:
  "ackedTask = noRuns\<lparr>co_leases := fmupd ''k'' (Some (stampLease (3 * 10 ^ 6) (buildLeaseFromTask exampleTask ''w'' (hc_Owner exConfig) (3 * 10 ^ 6)))) fmempty,
     co_dispatch := \<lparr>ds_pending = fmempty, ds_claims = fmempty\<rparr>\<rparr>"
proof -
  have "fmdrop f (fmupd f x fmempty) = fmempty" for f and x :: "dispatchTaskFile \<times> int" by (intro fmap_ext) simp
  then show ?thesis
    by (simp add: ackedTask_def claimedTask_def oneClaim_eq AckTaskClaim_def ackRead_def ackLease_def ackDelete_def GetClaim_def DeleteClaim_def claimedFile_def
        exampleClaim_def exampleTask_def okIO_def okTrack_def Lease_Upsert_def buildLeaseFromTask_def writeRecord_def Let_def noRuns_def)
qed

lemma ackedTask_full: "fst (runnableBatch okIO 0 (4 * 10 ^ 6) ''q'' oneSlot (Ok 0) ackedTask [Some waitingRun] ackedTask) = []"
  by (simp add: ackedTask_eq capacity_eval buildLeaseFromTask_def exampleTask_def stampLease_def nonEmptyOr_def)


theorem batch_fits_capacity_witness:
  "fst (runnableBatch okIO 0 0 ''q'' oneSlot (Ok 0) noRuns [Some waitingRun] noRuns) = [Some waitingRun]
   \<and> 0 + int (length [Some waitingRun]) \<le> qu_maxConcurrency oneSlot"
proof -
  have "runnableBatch okIO 0 0 ''q'' oneSlot (Ok 0) noRuns [Some waitingRun] noRuns = ([Some waitingRun], noRuns)"
    by (simp add: capacity_eval)
  from batch_fits_capacity[OF this] show ?thesis
    using \<open>runnableBatch _ _ _ _ _ _ _ _ _ = _\<close> by (auto simp: countActiveDistributedRuns_def capacity_eval)
qed

end
