(* ===== verification/Backoff.thy ===== *)
theory Backoff
  imports Prelude
begin

text \<open>
  Retrying with a backoff (\<open>internal/cmn/backoff\<close>).  The operation threads a state and may run for ever when the number of
  retries is not limited, so the loop is a partial function.  The context and the waiting may be cancelled at any attempt; the
  attempts are numbered from 0.
\<close>

section \<open>Policies\<close>

record ExponentialBackoffPolicy =
  eb_InitialInterval :: int
  eb_MaxInterval :: int
  eb_MaxRetries :: int

text \<open>Policies with the default factor 2, for which the floating point product is exact.\<close>

definition NewExponentialBackoffPolicy :: "int \<Rightarrow> ExponentialBackoffPolicy" where
  "NewExponentialBackoffPolicy initialInterval =
     \<lparr>eb_InitialInterval = initialInterval, eb_MaxInterval = 10 * second, eb_MaxRetries = 0\<rparr>"

definition Exponential_ComputeNextInterval :: "ExponentialBackoffPolicy \<Rightarrow> nat \<Rightarrow> int option" where
  "Exponential_ComputeNextInterval p retryCount =
     (if eb_MaxRetries p > 0 \<and> int retryCount \<ge> eb_MaxRetries p then None
      else let interval = eb_InitialInterval p * 2 ^ retryCount
           in Some (if interval > eb_MaxInterval p then eb_MaxInterval p else interval))"

record ConstantBackoffPolicy =
  cb_Interval :: int
  cb_MaxRetries :: int

definition Constant_ComputeNextInterval :: "ConstantBackoffPolicy \<Rightarrow> nat \<Rightarrow> int option" where
  "Constant_ComputeNextInterval p retryCount =
     (if cb_MaxRetries p > 0 \<and> int retryCount \<ge> cb_MaxRetries p then None else Some (cb_Interval p))"

text \<open>Arithmetic on 64 bit integers.\<close>

definition wrap64 :: "int \<Rightarrow> int" where
  "wrap64 i = (i + 2 ^ 63) mod 2 ^ 64 - 2 ^ 63"

record LinearBackoffPolicy =
  lb_InitialInterval :: int
  lb_Increment :: int
  lb_MaxInterval :: int
  lb_MaxRetries :: int

definition Linear_ComputeNextInterval :: "LinearBackoffPolicy \<Rightarrow> nat \<Rightarrow> int option" where
  "Linear_ComputeNextInterval p retryCount =
     (if lb_MaxRetries p > 0 \<and> int retryCount \<ge> lb_MaxRetries p then None
      else Some (min (wrap64 (lb_InitialInterval p + wrap64 (int retryCount * lb_Increment p))) (lb_MaxInterval p)))"

section \<open>The loop\<close>

datatype OpResult = OpDone | OpRetriable | OpPermanent

datatype RetryResult = RetryDone | RetryPermanent | RetryExhausted | RetryCancelled

partial_function (option) retryFrom :: "(nat \<Rightarrow> bool) \<Rightarrow> (nat \<Rightarrow> 's \<Rightarrow> OpResult \<times> 's) \<Rightarrow> (nat \<Rightarrow> int option) \<Rightarrow> (nat \<Rightarrow> bool) \<Rightarrow> nat \<Rightarrow> 's
    \<Rightarrow> (nat \<times> RetryResult \<times> 's) option" where
  "retryFrom ctxDone op policy waitCancelled n s =
     (if ctxDone n then Some (n, RetryCancelled, s)
      else case op n s of
        (OpDone, s1) \<Rightarrow> Some (n, RetryDone, s1)
      | (OpPermanent, s1) \<Rightarrow> Some (n, RetryPermanent, s1)
      | (OpRetriable, s1) \<Rightarrow> (case policy n of
            None \<Rightarrow> Some (n, RetryExhausted, s1)
          | Some interval \<Rightarrow> if waitCancelled n then Some (n, RetryCancelled, s1) else retryFrom ctxDone op policy waitCancelled (Suc n) s1))"

definition Retry :: "(nat \<Rightarrow> bool) \<Rightarrow> (nat \<Rightarrow> 's \<Rightarrow> OpResult \<times> 's) \<Rightarrow> (nat \<Rightarrow> int option) \<Rightarrow> (nat \<Rightarrow> bool) \<Rightarrow> 's
    \<Rightarrow> (nat \<times> RetryResult \<times> 's) option" where
  "Retry ctxDone op policy waitCancelled s = retryFrom ctxDone op policy waitCancelled 0 s"

text \<open>The delay the loop waits for an interval: never zero or negative.\<close>

definition retryDelay :: "int \<Rightarrow> int" where
  "retryDelay interval = (if interval \<le> 0 then 100 * 10 ^ 6 else interval)"

section \<open>The contract of a policy\<close>

text \<open>A policy allows exactly \<open>limit\<close> retries, any number when \<open>limit\<close> is 0.\<close>

locale retry_policy =
  fixes policy :: "nat \<Rightarrow> int option" and limit :: int
  assumes exhausted: "policy n = None \<longleftrightarrow> 0 < limit \<and> limit \<le> int n"
begin

text \<open>With a limit the loop returns, after at most one attempt more than it has retries; its result is the one of the last attempt.\<close>

definition outcome :: "(nat \<Rightarrow> 's \<Rightarrow> OpResult \<times> 's) \<Rightarrow> nat \<Rightarrow> nat \<times> RetryResult \<times> 's \<Rightarrow> bool" where
  "outcome op n x \<longleftrightarrow> (case x of (m, r, s') \<Rightarrow> n \<le> m \<and> int m \<le> limit
     \<and> (r = RetryDone \<longrightarrow> (\<exists>s. op m s = (OpDone, s'))) \<and> (r = RetryPermanent \<longrightarrow> (\<exists>s. op m s = (OpPermanent, s')))
     \<and> (r = RetryExhausted \<longrightarrow> int m = limit \<and> (\<exists>s. op m s = (OpRetriable, s'))))"

lemma retry_returns:
  assumes "0 < limit" "int n \<le> limit"
  shows "\<exists>x. retryFrom ctx op policy w n s = Some x \<and> outcome op n x"
  using assms(2)
proof (induction "nat (limit - int n)" arbitrary: n s)
  case 0
  then have "policy n = None" "int n = limit" using exhausted[of n] assms(1) by simp_all
  then show ?case by (subst retryFrom.simps) (auto simp: outcome_def split: prod.split OpResult.split)
next
  case (Suc d)
  then have lt: "int n < limit" by linarith
  then have "policy n \<noteq> None" using exhausted[of n] by simp
  moreover have "\<exists>x. retryFrom ctx op policy w (Suc n) s1 = Some x \<and> outcome op n x" for s1
  proof -
    have "\<exists>x. retryFrom ctx op policy w (Suc n) s1 = Some x \<and> outcome op (Suc n) x"
      by (rule Suc.hyps(1)) (use Suc.hyps(2) lt in auto)
    then show ?thesis unfolding outcome_def by fastforce
  qed
  ultimately show ?case using lt by (subst retryFrom.simps) (auto simp: outcome_def split: prod.split OpResult.split option.split)
qed

end

interpretation expo: retry_policy "Exponential_ComputeNextInterval p" "eb_MaxRetries p" for p
  by unfold_locales (auto simp: Exponential_ComputeNextInterval_def Let_def)

interpretation const_policy: retry_policy "Constant_ComputeNextInterval p" "cb_MaxRetries p" for p
  by unfold_locales (auto simp: Constant_ComputeNextInterval_def)

interpretation linear_policy: retry_policy "Linear_ComputeNextInterval p" "lb_MaxRetries p" for p
  by unfold_locales (auto simp: Linear_ComputeNextInterval_def)

text \<open>The intervals of the exponential policy grow from the first to the largest one.\<close>

lemma exponential_interval:
  assumes "0 < eb_InitialInterval p" "eb_InitialInterval p \<le> eb_MaxInterval p" "Exponential_ComputeNextInterval p n = Some i"
  shows "eb_InitialInterval p \<le> i \<and> i \<le> eb_MaxInterval p"
    and "Exponential_ComputeNextInterval p (Suc n) = Some j \<Longrightarrow> i \<le> j"
proof -
  have "eb_InitialInterval p * 1 \<le> eb_InitialInterval p * 2 ^ n" using assms(1) by (intro mult_left_mono) simp_all
  then show "eb_InitialInterval p \<le> i \<and> i \<le> eb_MaxInterval p"
    using assms(2,3) by (auto simp: Exponential_ComputeNextInterval_def Let_def split: if_splits)
  have "eb_InitialInterval p * 2 ^ n \<le> eb_InitialInterval p * 2 ^ Suc n" using assms(1) by (intro mult_left_mono) simp_all
  then show "i \<le> j" if "Exponential_ComputeNextInterval p (Suc n) = Some j"
    using assms(3) that by (auto simp: Exponential_ComputeNextInterval_def Let_def split: if_splits)
qed


text \<open>The policy of the queue processor: eight retries from half a second to five seconds.\<close>

definition queueBackoff :: ExponentialBackoffPolicy where
  "queueBackoff = (NewExponentialBackoffPolicy (500 * 10 ^ 6))\<lparr>eb_MaxInterval := 5 * second, eb_MaxRetries := 8\<rparr>"


end
