(* ===== verification/Spec2Isabelle.thy ===== *)
theory Spec2Isabelle
  imports Validator Env_Scope Run_Order Runner_Status Queue_Cursor Dir_Lock Planner_Once
    Coordinator_Fresh Capacity Backoff
begin

text \<open>
  A verification library for the Ayatsuri workflow engine, a Go program whose sources are below \<open>src/internal\<close>.  A workflow
  (a DAG of steps) is validated, scheduled, possibly queued, and then run either by a local process or, through a
  coordinator, by a remote worker.  The library follows a workflow along this way.

  \<^bold>\<open>Steps and plans.\<close>
  \<^item> \<open>Prelude\<close>: results of fallible functions, Go maps, facts on lists and finite maps.
  \<^item> \<open>Status\<close> (\<open>core/status.go\<close>), \<open>Core_Step\<close> (\<open>core/step.go\<close>, \<open>condition.go\<close>, \<open>parallel.go\<close>): the data types.
  \<^item> \<open>Validator\<close> (\<open>core/validator.go\<close>): \<open>ValidateSteps\<close> accepts exactly the well-formed lists of steps.
  \<^item> \<open>Exec_Plan\<close>, \<open>Plan_Graph\<close>, \<open>Plan_Retry\<close> (\<open>runtime/plan.go\<close>): building the dependency graph, Kahn's
    algorithm decides cycles, and which nodes a retry resets.

  \<^bold>\<open>Running a plan.\<close>
  \<^item> \<open>Node_Data\<close>, \<open>Node_Exec\<close> (\<open>runtime/data.go\<close>, \<open>node.go\<close>, \<open>condition.go\<close>): the state of a node and its operations.
  \<^item> \<open>Runner_Node\<close> (\<open>runNodeExecution\<close> in \<open>runtime/runner.go\<close>): the loop that executes, retries and repeats one node; when it
    ends, and that approval is required.
  \<^item> \<open>Runner\<close> (\<open>Run\<close>): the main loop, the goroutines of the nodes, their channels and cancellation as a machine whose
    transitions are events.  \<open>Run_Invariants\<close>, \<open>Run_Properties\<close>, \<open>Run_Order\<close>: in every interleaving dependencies finish first, the
    number of running nodes is bounded, no node is started twice and no wake-up is lost; and the runs where an assumption is missing.
  \<^item> \<open>Runner_Status\<close>: the status of a run and the handlers at its end.
  \<^item> \<open>Env_Scope\<close> (\<open>cmn/eval/envscope.go\<close>, \<open>setupVariables\<close>): which variables a step sees.

  \<^bold>\<open>The queue.\<close>
  \<^item> \<open>Queue_Name\<close>, \<open>Queue_Files\<close>, \<open>Queue_Store\<close> (\<open>persis/filequeue\<close>): item files with their names, the queue of two priorities, and the
    store with its read index.  \<open>Queue_Refine\<close>: the store implements two first-in-first-out queues (locale \<open>priority_fifo\<close>), and
    its index agrees with the files after any failures.  \<open>Queue_Cursor\<close>: paging (also \<open>service/frontend/api/v1/queues.go\<close>).
  \<^item> \<open>Dir_Lock\<close> (\<open>cmn/dirlock/dirlock.go\<close>): the lock the stores use, with the interleavings of several processes.

  \<^bold>\<open>The scheduler.\<close>
  \<^item> \<open>Sched_Core\<close> (\<open>core/schedule.go\<close>), \<open>Sched_Buffer\<close> (\<open>service/scheduler/schedule_buffer.go\<close>, \<open>catchup.go\<close>), \<open>Sched_RunID\<close>
    (\<open>catchup_runid.go\<close>): schedules, missed intervals, identifiers of runs.
  \<^item> \<open>Tick_Planner\<close> (\<open>tick_planner.go\<close>, \<open>schedule_state.go\<close>, \<open>suspension.go\<close>, \<open>watermark.go\<close>): the planner with all its operations.
    \<open>Planner_Props\<close>, \<open>Planner_Starts\<close>, \<open>Planner_Once\<close>: it stays well-formed, starts a DAG at most once a tick and only when it
    may, planning ends, and a one-off schedule runs at most once over crashes and restarts.

  \<^bold>\<open>Distributed runs.\<close>
  \<^item> \<open>Run_Status\<close> (\<open>core/exec/dagrun.go\<close>, \<open>runstatus.go\<close>, \<open>distributed.go\<close>): references, attempt keys, statuses, leases.
  \<^item> \<open>Run_Store\<close> (\<open>persis/filedagrun\<close>): attempts, their status files, and the compare-and-swap of the latest status.
  \<^item> \<open>Tracking_Stores\<close> (\<open>persis/filedistributed\<close>): leases, active runs and heartbeats; locale \<open>record_store\<close> has the
    contract of the first two.
  \<^item> \<open>Dispatch_Store\<close>, \<open>Dispatch_Props\<close> (\<open>dispatch_task_store.go\<close>): tasks for workers are neither lost nor duplicated, and claims are exclusive.
  \<^item> \<open>Coordinator\<close> (\<open>service/coordinator/handler.go\<close>) works on these stores.  \<open>Coordinator_Props\<close>: a finished run stays finished as long
    as requests and passes of the detector do not overlap.  \<open>Coordinator_Zombies\<close>, \<open>Coordinator_Fresh\<close>: the detector fails the root runs
    whose worker is gone and leaves the runs whose worker reports; sub-runs are never failed; and what a report does beside the detector.
  \<^item> \<open>Capacity\<close> (\<open>service/scheduler/queue_processor.go\<close>): the batch of queued runs fits into the queue, and the race that exceeds its limit.
  \<^item> \<open>Backoff\<close> (\<open>cmn/backoff\<close>): retrying ends after a bounded number of attempts (locale \<open>retry_policy\<close>).

  \<^bold>\<open>Conventions.\<close>  A Go struct is a record, a pointer that may be nil an \<open>option\<close>, an operation a function that returns the changed state.
  Go integers and durations are \<^typ>\<open>int\<close>; the intervals of the back-off policies wrap at 64 bits, and the hash in
  an attempt key is computed on words of 64 bits.  Failures of files, locks and the network, clocks, fresh identifiers, answers of
  executors and callbacks are arguments, so a statement holds for all of them unless it says otherwise.  Third-party code (the cron
  library, digests, regular expressions of conditions) is an argument as well, and what is used of it is an assumption.

  \<^bold>\<open>Loops.\<close>  Loops that may not end are partial functions with result \<open>None\<close> for not returning: \<open>retryLoop\<close> (a retry on a cyclic
  graph), \<open>prevLoop\<close> (a cron expression that does not advance) and \<open>retryFrom\<close> (retries without a limit); theorems say when they
  return.  \<open>execLoop\<close> consumes one record of inputs per pass and \<open>visibleLoop\<close> has a bound on its passes; the theorems
  show that one more pass than the retry limit, and one more than the number of queued items, are enough.

  \<^bold>\<open>Not modelled.\<close>  The loader of YAML files, the evaluation of expressions and the executors (third-party parsers and external programs;
  their results are inputs); the agent process, the worker, the command line, the servers, transport and logs (input and output around
  the modelled parts); the AI agent, chat bots, authentication, licences and upgrades (clients of external services); the remaining stores
  (one file per record); the user interface and generated code.  Of the coordinator, the fallback without stores,
  \<open>Dispatch\<close> and the streaming of logs; of the queue processor, starting the selected runs; of the dag-run store,
  directories, listings and removal.
\<close>

end
